(* ===== verification/Prelude.thy ===== *)
theory Prelude
  imports Main "HOL-Library.Word"
begin

text \<open>
  What every component of the development shares.
  \<^item> The machine integers of the Rust code as words, and their big-endian byte form
    (\<open>to_be_bytes\<close> and \<open>from_be_bytes\<close> of the standard library).
  \<^item> The effect type \<open>eff\<close>: a Rust function that takes a \<open>&mut\<close> state and
    returns a \<open>Result\<close> is a function from the state to the result and the state
    after the call. The state is returned on the error branch too, because a Rust
    function that fails has kept the changes it made before it failed.
  \<^item> The theorem collections the components fill: \<open>eff_simps\<close> unfolds the effect
    combinators, \<open>parse_rules\<close> holds one rule per reader operation for proving what a
    decoder does on the bytes of an encoder, \<open>contract_rules\<close> one rule per reader
    operation for the documented contract of the trait \<open>Readable\<close>, \<open>wire_simps\<close>
    the defining equations of encoders.
\<close>

named_theorems eff_simps
named_theorems parse_rules
named_theorems contract_rules
named_theorems wire_simps

section \<open>Machine integers and their bytes\<close>

type_synonym u8 = "8 word"
type_synonym u16 = "16 word"
type_synonym u32 = "32 word"
type_synonym u64 = "64 word"
type_synonym u128 = "128 word"
type_synonym byte = "8 word"

text \<open>The \<open>n\<close> low-order base-256 digits of a number, most significant first.\<close>

fun be_of_nat :: "nat \<Rightarrow> nat \<Rightarrow> byte list" where
  "be_of_nat 0 x = []"
| "be_of_nat (Suc n) x = be_of_nat n (x div 256) @ [word_of_nat (x mod 256)]"

definition nat_of_be :: "byte list \<Rightarrow> nat" where
  "nat_of_be bs = foldl (\<lambda>a b. a * 256 + unat b) 0 bs"

definition to_be_bytes :: "'a::len word \<Rightarrow> byte list" where
  "to_be_bytes w = be_of_nat (LENGTH('a) div 8) (unat w)"

definition from_be_bytes :: "byte list \<Rightarrow> 'a::len word" where
  "from_be_bytes bs = word_of_nat (nat_of_be bs)"

lemma unat_lt2p: "unat (w :: 'a::len word) < 2 ^ LENGTH('a)"
  by (rule unsigned_less)

lemma unat_byte_less [simp]: "unat (b :: byte) < 256"
  using unat_lt2p [of b] by simp

lemma length_be_of_nat [simp]: "length (be_of_nat n x) = n"
  by (induction n arbitrary: x) auto

lemma nat_of_be_Nil [simp]: "nat_of_be [] = 0"
  by (simp add: nat_of_be_def)

lemma nat_of_be_snoc [simp]: "nat_of_be (bs @ [b]) = nat_of_be bs * 256 + unat b"
  by (simp add: nat_of_be_def)

lemma nat_of_be_less: "nat_of_be bs < 256 ^ length bs"
proof (induction bs rule: rev_induct)
  case Nil
  show ?case by simp
next
  case (snoc b bs)
  have "unat b < 256" by simp
  with snoc have "nat_of_be bs * 256 + unat b < (nat_of_be bs + 1) * 256" by simp
  also have "\<dots> \<le> 256 ^ length bs * 256"
    using snoc by (intro mult_le_mono1) simp
  finally show ?case by (simp add: mult.commute)
qed

lemma unat_of_nat_mod_256 [simp]: "unat (word_of_nat (x mod 256) :: byte) = x mod 256"
  by (simp add: unat_of_nat)

lemma nat_of_be_be_of_nat [simp]: "nat_of_be (be_of_nat n x) = x mod 256 ^ n"
proof (induction n arbitrary: x)
  case 0
  show ?case by simp
next
  case (Suc n)
  have "x mod (256 * 256 ^ n) = 256 * (x div 256 mod 256 ^ n) + x mod 256"
    by (rule mod_mult2_eq)
  then show ?case by (simp add: Suc.IH mult.commute)
qed

lemma be_of_nat_nat_of_be: "be_of_nat (length bs) (nat_of_be bs) = bs"
proof (induction bs rule: rev_induct)
  case Nil
  show ?case by simp
next
  case (snoc b bs)
  have "(nat_of_be bs * 256 + unat b) div 256 = nat_of_be bs"
    and "(nat_of_be bs * 256 + unat b) mod 256 = unat b"
    by simp_all
  with snoc show ?case by simp
qed

lemma length_to_be_bytes [simp]: "length (to_be_bytes (w :: 'a::len word)) = LENGTH('a) div 8"
  by (simp add: to_be_bytes_def)

lemma from_to_be_bytes [simp]:
  assumes "8 dvd LENGTH('a)"
  shows "from_be_bytes (to_be_bytes w) = (w :: 'a::len word)"
proof -
  obtain k where k: "LENGTH('a) = 8 * k" using assms by blast
  have "unat w < 2 ^ LENGTH('a)" by (rule unat_lt2p)
  also have "(2::nat) ^ LENGTH('a) = 256 ^ k" by (simp add: k power_mult)
  finally have "unat w mod 256 ^ k = unat w" by simp
  then show ?thesis by (simp add: from_be_bytes_def to_be_bytes_def k)
qed

lemma to_from_be_bytes:
  assumes "LENGTH('a) = 8 * length bs"
  shows "to_be_bytes (from_be_bytes bs :: 'a::len word) = bs"
proof -
  have "(2::nat) ^ LENGTH('a) = 256 ^ length bs" by (simp add: assms power_mult)
  then have "nat_of_be bs < 2 ^ LENGTH('a)" by (simp add: nat_of_be_less)
  then have "unat (word_of_nat (nat_of_be bs) :: 'a word) = nat_of_be bs"
    by (simp add: unat_of_nat)
  then show ?thesis
    by (simp add: to_be_bytes_def from_be_bytes_def assms be_of_nat_nat_of_be)
qed

lemma unat_u16_le: "unat (w :: u16) \<le> 65535"
  using unat_lt2p [of w] by simp

lemma unat_of_nat_small:
  assumes "n < 2 ^ LENGTH('a)"
  shows "unat (word_of_nat n :: 'a::len word) = n"
  using assms by (simp add: unat_of_nat)

lemma unat_u16_of_nat [simp]: "n \<le> 65535 \<Longrightarrow> unat (word_of_nat n :: u16) = n"
  by (rule unat_of_nat_small) simp

lemma unat_u8_of_nat [simp]: "n \<le> 255 \<Longrightarrow> unat (word_of_nat n :: u8) = n"
  by (rule unat_of_nat_small) simp

section \<open>Checked and saturating arithmetic\<close>

text \<open>
  \<open>usize\<close> values are lengths and offsets of slices; they are natural numbers here, and
  the places where the code adds to one are shown to stay inside the slice.
\<close>

definition checked_sub :: "nat \<Rightarrow> nat \<Rightarrow> nat option" where
  "checked_sub a b = (if b \<le> a then Some (a - b) else None)"

definition non_zero :: "nat \<Rightarrow> nat option" where
  "non_zero n = (if n = 0 then None else Some n)"

lemma checked_sub_eq_Some: "checked_sub a b = Some d \<longleftrightarrow> b \<le> a \<and> d = a - b"
  by (auto simp: checked_sub_def)

lemma checked_sub_eq_None: "checked_sub a b = None \<longleftrightarrow> a < b"
  by (auto simp: checked_sub_def)

section \<open>Effects: a mutable state and a result\<close>

type_synonym ('s, 'e, 'a) eff = "'s \<Rightarrow> ('e + 'a) \<times> 's"

definition eret :: "'a \<Rightarrow> ('s, 'e, 'a) eff" where
  [eff_simps]: "eret x s = (Inr x, s)"

definition efail :: "'e \<Rightarrow> ('s, 'e, 'a) eff" where
  [eff_simps]: "efail e s = (Inl e, s)"

text \<open>The operator \<open>?\<close>: stop with the error and the state reached so far, or go on.\<close>

definition ebind :: "('s, 'e, 'a) eff \<Rightarrow> ('a \<Rightarrow> ('s, 'e, 'b) eff) \<Rightarrow> ('s, 'e, 'b) eff" where
  "ebind m f s = (case m s of (Inl e, s') \<Rightarrow> (Inl e, s') | (Inr x, s') \<Rightarrow> f x s')"

text \<open>A value already computed, and \<open>map_err\<close>.\<close>

definition elift :: "'e + 'a \<Rightarrow> ('s, 'e, 'a) eff" where
  [eff_simps]: "elift r s = (r, s)"

definition emap_err :: "('e \<Rightarrow> 'f) \<Rightarrow> ('s, 'e, 'a) eff \<Rightarrow> ('s, 'f, 'a) eff" where
  "emap_err g m s = (case m s of (Inl e, s') \<Rightarrow> (Inl (g e), s') | (Inr x, s') \<Rightarrow> (Inr x, s'))"

lemma ebind_Inr [eff_simps]: "m s = (Inr x, s') \<Longrightarrow> ebind m f s = f x s'"
  by (simp add: ebind_def)

lemma ebind_Inl [eff_simps]: "m s = (Inl e, s') \<Longrightarrow> ebind m f s = (Inl e, s')"
  by (simp add: ebind_def)

lemma ebind_eq_Inr:
  "ebind m f s = (Inr y, s'') \<longleftrightarrow> (\<exists>x s'. m s = (Inr x, s') \<and> f x s' = (Inr y, s''))"
  by (auto simp: ebind_def split: prod.splits sum.splits)

lemma ebind_eq_Inl:
  "ebind m f s = (Inl e, s'') \<longleftrightarrow>
     m s = (Inl e, s'') \<or> (\<exists>x s'. m s = (Inr x, s') \<and> f x s' = (Inl e, s''))"
  by (auto simp: ebind_def split: prod.splits sum.splits)

lemma ebind_eret [simp]: "ebind (eret x) f = f x"
  by (rule ext) (simp add: ebind_def eret_def)

lemma ebind_efail [simp]: "ebind (efail e) f = efail e"
  by (rule ext) (simp add: ebind_def efail_def)

lemma ebind_assoc: "ebind (ebind m f) g = ebind m (\<lambda>x. ebind (f x) g)"
  by (rule ext) (auto simp: ebind_def split: prod.splits sum.splits)

text \<open>Running an action once per element of a list, in order, and collecting the values.\<close>

fun emapM :: "('a \<Rightarrow> ('s, 'e, 'b) eff) \<Rightarrow> 'a list \<Rightarrow> ('s, 'e, 'b list) eff" where
  "emapM f [] = eret []"
| "emapM f (x # xs) = ebind (f x) (\<lambda>y. ebind (emapM f xs) (\<lambda>ys. eret (y # ys)))"

text \<open>Running an action \<open>n\<close> times: the loops \<open>for _ in 0..n\<close> that push one item per turn.\<close>

fun ereplicate :: "nat \<Rightarrow> ('s, 'e, 'a) eff \<Rightarrow> ('s, 'e, 'a list) eff" where
  "ereplicate 0 m = eret []"
| "ereplicate (Suc n) m = ebind m (\<lambda>x. ebind (ereplicate n m) (\<lambda>xs. eret (x # xs)))"

section \<open>List facts\<close>

lemma take_drop_append [simp]: "take (length ys) (drop (length xs) (xs @ ys @ zs)) = ys"
  by simp

lemma prefix_split: "take k s = take k s' \<Longrightarrow> k \<le> length s \<Longrightarrow> \<exists>t. s' = take k s @ t"
  by (metis append_take_drop_id)

end
