(* ===== verification/Bytes.thy ===== *)
theory Bytes
  imports Prelude
begin

text \<open>
  The crate \<open>tor-bytes\<close> (\<open>crates/tor-bytes/src\<close>).
  \<^item> \<open>reader.rs\<close>: the type \<open>Reader\<close> is the record \<open>reader\<close>; each method is a
    definition with the prefix \<open>rd_\<close>. A method on \<open>&mut self\<close> is an effect over the
    reader, a method on \<open>&self\<close> a plain function.
  \<^item> \<open>writer.rs\<close>: the trait \<open>Writer\<close>. What an encoder does to any writer is the
    list of bytes it appends and whether it then failed, the type \<open>enc\<close>; \<open>vec_write\<close>
    is the writer \<open>Vec<u8>\<close> (and \<open>BytesMut\<close>).
  \<^item> \<open>impls.rs\<close>: the implementations of \<open>Readable\<close> and \<open>Writeable\<close> for integers,
    arrays and addresses.
  The locale \<open>readable\<close> is the contract that \<open>lib.rs\<close> documents for the trait
  \<open>Readable\<close>, and the locale \<open>codec\<close> the law that a type implementing both
  traits is expected to have. The contract is closed under sequencing, so a decoder that
  is a sequence of reads satisfies it by the rules of \<open>contract_rules\<close>.
\<close>

section \<open>The reader\<close>

datatype completeness = PossiblyIncomplete | SupposedlyComplete

text \<open>
  \<open>tor_bytes::Error\<close>. A message carries its text without the values formatted into it.
  \<open>Panic\<close> is not a variant of the Rust type: it marks a call that panics.
\<close>

datatype bytes_error =
    Truncated
  | Incomplete nat
  | ExtraneousBytes
  | BadLengthValue
  | BadMessage string
  | InvalidMessage string
  | MissingData
  | Bug string
  | Panic

record reader =
  rd_b :: "byte list"
  rd_off :: nat
  rd_compl :: completeness

type_synonym 'a rd = "(reader, bytes_error, 'a) eff"

definition from_slice :: "byte list \<Rightarrow> reader" where
  "from_slice s = \<lparr>rd_b = s, rd_off = 0, rd_compl = SupposedlyComplete\<rparr>"

definition from_possibly_incomplete_slice :: "byte list \<Rightarrow> reader" where
  "from_possibly_incomplete_slice s = \<lparr>rd_b = s, rd_off = 0, rd_compl = PossiblyIncomplete\<rparr>"

definition rd_total_len :: "reader \<Rightarrow> nat" where
  "rd_total_len r = length (rd_b r)"

definition rd_remaining :: "reader \<Rightarrow> nat" where
  "rd_remaining r = length (rd_b r) - rd_off r"

definition rd_into_rest :: "reader \<Rightarrow> byte list" where
  "rd_into_rest r = drop (rd_off r) (rd_b r)"

definition rd_consumed :: "reader \<Rightarrow> nat" where
  "rd_consumed r = rd_off r"

definition rd_incomplete_error :: "reader \<Rightarrow> nat \<Rightarrow> bytes_error" where
  "rd_incomplete_error r deficit =
     (case rd_compl r of
        PossiblyIncomplete \<Rightarrow> Incomplete deficit
      | SupposedlyComplete \<Rightarrow> MissingData)"

text \<open>
  The accesses to a slice that panic: \<open>xs[i]\<close>, \<open>xs[a..b]\<close> and \<open>copy_from_slice\<close> to
  a buffer of length \<open>n\<close>.
\<close>

definition index_at :: "'a list \<Rightarrow> nat \<Rightarrow> bytes_error + 'a" where
  "index_at xs i = (if i < length xs then Inr (xs ! i) else Inl Panic)"

definition slice_of :: "'a list \<Rightarrow> nat \<Rightarrow> nat \<Rightarrow> bytes_error + 'a list" where
  "slice_of xs a b = (if a \<le> b \<and> b \<le> length xs then Inr (take (b - a) (drop a xs)) else Inl Panic)"

definition copy_from_slice :: "nat \<Rightarrow> 'a list \<Rightarrow> bytes_error + 'a list" where
  "copy_from_slice n xs = (if length xs = n then Inr xs else Inl Panic)"

definition rd_peek :: "nat \<Rightarrow> reader \<Rightarrow> bytes_error + byte list" where
  "rd_peek n r =
     (case Option.bind (checked_sub n (rd_remaining r)) non_zero of
        Some deficit \<Rightarrow> Inl (rd_incomplete_error r deficit)
      | None \<Rightarrow> slice_of (rd_b r) (rd_off r) (n + rd_off r))"

definition rd_advance :: "nat \<Rightarrow> unit rd" where
  "rd_advance n r =
     (case rd_peek n r of
        Inl e \<Rightarrow> (Inl e, r)
      | Inr _ \<Rightarrow> (Inr (), r\<lparr>rd_off := rd_off r + n\<rparr>))"

definition rd_should_be_exhausted :: "unit rd" where
  "rd_should_be_exhausted r =
     (if rd_remaining r \<noteq> 0 then (Inl ExtraneousBytes, r) else (Inr (), r))"

definition rd_truncate :: "nat \<Rightarrow> reader \<Rightarrow> reader" where
  "rd_truncate n r =
     (if n < rd_remaining r then r\<lparr>rd_b := take (rd_off r + n) (rd_b r)\<rparr> else r)"

definition rd_take :: "nat \<Rightarrow> byte list rd" where
  "rd_take n r =
     (case rd_peek n r of
        Inl e \<Rightarrow> (Inl e, r)
      | Inr b \<Rightarrow> ebind (rd_advance n) (\<lambda>_. eret b) r)"

text \<open>\<open>take_into\<close> on a buffer of length \<open>n\<close>; the value is the buffer afterwards.\<close>

definition rd_take_into :: "nat \<Rightarrow> byte list rd" where
  "rd_take_into n = ebind (rd_take n) (\<lambda>b. elift (copy_from_slice n b))"

definition rd_extract :: "'a rd \<Rightarrow> 'a rd" where
  "rd_extract take_from r =
     (case take_from r of
        (Inl e, r') \<Rightarrow> (Inl e, r'\<lparr>rd_off := rd_off r\<rparr>)
      | (Inr x, r') \<Rightarrow> (Inr x, r'))"

text \<open>\<open>take_from\<close> of \<open>[u8; N]\<close>.\<close>

definition take_from_array :: "nat \<Rightarrow> byte list rd" where
  "take_from_array n = ebind (rd_take_into n) (\<lambda>arr. eret arr)"

definition rd_take_u8 :: "u8 rd" where
  "rd_take_u8 = ebind (rd_take 1) (\<lambda>b. elift (index_at b 0))"

definition rd_take_u16 :: "u16 rd" where
  "rd_take_u16 = ebind (rd_extract (take_from_array 2)) (\<lambda>b. eret (from_be_bytes b))"

definition rd_take_u32 :: "u32 rd" where
  "rd_take_u32 = ebind (rd_extract (take_from_array 4)) (\<lambda>b. eret (from_be_bytes b))"

definition rd_take_u64 :: "u64 rd" where
  "rd_take_u64 = ebind (rd_extract (take_from_array 8)) (\<lambda>b. eret (from_be_bytes b))"

definition rd_take_u128 :: "u128 rd" where
  "rd_take_u128 = ebind (rd_extract (take_from_array 16)) (\<lambda>b. eret (from_be_bytes b))"

text \<open>\<open>Iterator::position\<close>.\<close>

fun position :: "('a \<Rightarrow> bool) \<Rightarrow> 'a list \<Rightarrow> nat option" where
  "position P [] = None"
| "position P (x # xs) = (if P x then Some 0 else map_option Suc (position P xs))"

definition rd_take_until :: "u8 \<Rightarrow> byte list rd" where
  "rd_take_until tm r =
     (case slice_of (rd_b r) (rd_off r) (length (rd_b r)) of
        Inl e \<Rightarrow> (Inl e, r)
      | Inr rest \<Rightarrow>
          (case position (\<lambda>b. b = tm) rest of
             None \<Rightarrow> (Inl (rd_incomplete_error r 1), r)
           | Some pos \<Rightarrow>
               ebind (rd_take pos) (\<lambda>result. ebind (rd_advance 1) (\<lambda>_. eret result)) r))"

definition rd_take_rest :: "byte list rd" where
  "rd_take_rest r = emap_err (\<lambda>_. Panic) (rd_take (rd_remaining r)) r"

definition rd_take_all_but :: "nat \<Rightarrow> byte list rd" where
  "rd_take_all_but n r =
     (case rd_compl r of
        PossiblyIncomplete \<Rightarrow>
          (Inl (Bug ''Called take_all_but on a PossiblyIncomplete reader.''), r)
      | SupposedlyComplete \<Rightarrow>
          (case checked_sub (rd_remaining r) n of
             None \<Rightarrow> (Inl MissingData, r)
           | Some n_to_take \<Rightarrow>
               emap_err (\<lambda>_. Bug ''Subtraction misled us somehow'') (rd_take n_to_take) r))"

definition rd_extract_n :: "'a rd \<Rightarrow> nat \<Rightarrow> 'a list rd" where
  "rd_extract_n take_from n r =
     (case ereplicate n take_from r of
        (Inl e, r') \<Rightarrow> (Inl e, r'\<lparr>rd_off := rd_off r\<rparr>)
      | (Inr xs, r') \<Rightarrow> (Inr xs, r'))"

text \<open>
  \<open>read_nested_generic\<close>: the inner reader is created with \<open>from_slice\<close>, so running
  out of bytes inside the counted section is \<open>MissingData\<close>. The conversion of the
  length to \<open>usize\<close> cannot fail for the length types in use.
\<close>

definition read_nested_generic :: "'l::len word rd \<Rightarrow> 'a rd \<Rightarrow> 'a rd" where
  "read_nested_generic take_len f =
     ebind (rd_extract take_len) (\<lambda>len.
     ebind (rd_take (unat len)) (\<lambda>slice.
     elift (fst (ebind f (\<lambda>out. ebind rd_should_be_exhausted (\<lambda>_. eret out))
                  (from_slice slice)))))"

definition rd_read_nested_u8len :: "'a rd \<Rightarrow> 'a rd" where
  "rd_read_nested_u8len f = read_nested_generic rd_take_u8 f"

definition rd_read_nested_u16len :: "'a rd \<Rightarrow> 'a rd" where
  "rd_read_nested_u16len f = read_nested_generic rd_take_u16 f"

definition rd_read_nested_u32len :: "'a rd \<Rightarrow> 'a rd" where
  "rd_read_nested_u32len f = read_nested_generic rd_take_u32 f"

text \<open>A decoder that asks for \<open>remaining()\<close> and goes on with it.\<close>

definition with_remaining :: "(nat \<Rightarrow> 'a rd) \<Rightarrow> 'a rd" where
  "with_remaining p r = p (rd_remaining r) r"

text \<open>A \<open>Cursor\<close> is the position it holds.\<close>

definition rd_cursor :: "reader \<Rightarrow> nat" where
  "rd_cursor r = rd_off r"

definition rd_range :: "reader \<Rightarrow> nat \<Rightarrow> nat \<Rightarrow> byte list" where
  "rd_range r s e =
     (if s \<le> e \<and> e \<le> length (rd_b r) then drop s (take e (rd_b r)) else take 0 (rd_b r))"

section \<open>Writers\<close>

datatype encode_error = EncBadLengthValue | EncBug string

text \<open>
  What an encoder does to its writer: the bytes passed to \<open>write_all\<close>, in order, up to
  the point where it returned, and the value it returned.
\<close>

type_synonym enc = "byte list \<times> (encode_error + unit)"

definition write_all :: "byte list \<Rightarrow> enc" where
  [wire_simps]: "write_all b = (b, Inr ())"

definition write_u8 :: "u8 \<Rightarrow> enc" where
  [wire_simps]: "write_u8 x = write_all [x]"

definition write_u16 :: "u16 \<Rightarrow> enc" where
  [wire_simps]: "write_u16 x = write_all (to_be_bytes x)"

definition write_u32 :: "u32 \<Rightarrow> enc" where
  [wire_simps]: "write_u32 x = write_all (to_be_bytes x)"

definition write_u64 :: "u64 \<Rightarrow> enc" where
  [wire_simps]: "write_u64 x = write_all (to_be_bytes x)"

definition write_u128 :: "u128 \<Rightarrow> enc" where
  [wire_simps]: "write_u128 x = write_all (to_be_bytes x)"

definition write_zeros :: "nat \<Rightarrow> enc" where
  [wire_simps]: "write_zeros n = write_all (replicate n 0)"

definition write_err :: "encode_error \<Rightarrow> enc" where
  [wire_simps]: "write_err e = ([], Inl e)"

text \<open>Two encoding steps in a row, and a list of them; an error ends the encoding.\<close>

definition wseq :: "enc \<Rightarrow> enc \<Rightarrow> enc" where
  "wseq a b = (case snd a of Inl e \<Rightarrow> a | Inr _ \<Rightarrow> (fst a @ fst b, snd b))"

definition wconcat :: "enc list \<Rightarrow> enc" where
  "wconcat es = foldr wseq es ([], Inr ())"

text \<open>\<open>u8::try_from\<close>, \<open>u16::try_from\<close> and \<open>u32::try_from\<close> of a length.\<close>

definition try_from_usize :: "nat \<Rightarrow> 'l::len word option" where
  "try_from_usize n = (if n < 2 ^ LENGTH('l) then Some (word_of_nat n) else None)"

text \<open>
  \<open>NestedWriter\<close>: the inner data is collected in a vector; \<open>finish\<close> writes the
  length and then the data to the outer writer. When writing the inner data fails, the
  caller returns before \<open>finish\<close> and the outer writer is left as it was.
\<close>

definition write_nested_finish :: "('l::len word \<Rightarrow> enc) \<Rightarrow> enc \<Rightarrow> enc" where
  "write_nested_finish write_len inner =
     (case snd inner of
        Inl e \<Rightarrow> write_err e
      | Inr _ \<Rightarrow>
          (case try_from_usize (length (fst inner)) of
             None \<Rightarrow> write_err EncBadLengthValue
           | Some l \<Rightarrow> wseq (write_len l) (write_all (fst inner))))"

definition write_nested_u8len :: "enc \<Rightarrow> enc" where
  "write_nested_u8len inner = write_nested_finish write_u8 inner"

definition write_nested_u16len :: "enc \<Rightarrow> enc" where
  "write_nested_u16len inner = write_nested_finish write_u16 inner"

definition write_nested_u32len :: "enc \<Rightarrow> enc" where
  "write_nested_u32len inner = write_nested_finish write_u32 inner"

text \<open>The writer \<open>Vec<u8>\<close>: bytes are appended, also those written before an error.\<close>

definition vec_write :: "enc \<Rightarrow> (byte list, encode_error, unit) eff" where
  "vec_write e dst = (snd e, dst @ fst e)"

section \<open>Addresses\<close>

text \<open>
  \<open>impls.rs\<close>, \<open>net_impls\<close>: an address is read as one big-endian number and written
  as its octets. \<open>Ipv4Addr\<close> and \<open>Ipv6Addr\<close> of the standard library are that number.
\<close>

datatype ip_addr = V4 u32 | V6 u128

definition take_from_ipv4 :: "u32 rd" where
  "take_from_ipv4 = ebind rd_take_u32 (\<lambda>x. eret x)"

definition take_from_ipv6 :: "u128 rd" where
  "take_from_ipv6 = ebind rd_take_u128 (\<lambda>x. eret x)"

definition octets_v4 :: "u32 \<Rightarrow> byte list" where
  "octets_v4 a = to_be_bytes a"

definition octets_v6 :: "u128 \<Rightarrow> byte list" where
  "octets_v6 a = to_be_bytes a"

definition write_onto_ipv4 :: "u32 \<Rightarrow> enc" where
  [wire_simps]: "write_onto_ipv4 a = write_all (octets_v4 a)"

definition write_onto_ipv6 :: "u128 \<Rightarrow> enc" where
  [wire_simps]: "write_onto_ipv6 a = write_all (octets_v6 a)"

end
