(* ===== verification/Codec.thy ===== *)
theory Codec
  imports Bytes
begin

text \<open>
  The interfaces of \<open>tor-bytes\<close> and the rules the message theories use.
  \<^item> \<open>rdr pre s c\<close> is the reader over \<open>pre @ s\<close> that has consumed \<open>pre\<close>; these are
    exactly the readers whose offset is inside their buffer.
  \<^item> The locale \<open>readable\<close> is the contract of the trait \<open>Readable\<close>. It is closed
    under the combinators decoders are built from (\<open>contract_rules\<close>).
  \<^item> \<open>parses p bs x\<close> says that the decoder \<open>p\<close> consumes exactly \<open>bs\<close> and returns
    \<open>x\<close>, whatever precedes and follows; \<open>parse_rules\<close> builds such facts along a
    decoder. \<open>parses_all\<close> is the same at the end of the buffer.
  \<^item> The locale \<open>codec\<close> joins a decoder that keeps the contract with an encoder whose
    output it reads back.
\<close>

section \<open>Readers whose offset is inside the buffer\<close>

definition rdr :: "byte list \<Rightarrow> byte list \<Rightarrow> completeness \<Rightarrow> reader" where
  "rdr pre s c = \<lparr>rd_b = pre @ s, rd_off = length pre, rd_compl = c\<rparr>"

definition reader_wf :: "reader \<Rightarrow> bool" where
  "reader_wf r \<longleftrightarrow> rd_off r \<le> length (rd_b r)"

definition short_error :: "completeness \<Rightarrow> nat \<Rightarrow> bytes_error" where
  "short_error c d = (case c of PossiblyIncomplete \<Rightarrow> Incomplete d | SupposedlyComplete \<Rightarrow> MissingData)"

lemma short_error_simps [simp]:
  "short_error PossiblyIncomplete d = Incomplete d"
  "short_error SupposedlyComplete d = MissingData"
  by (simp_all add: short_error_def)

lemma reader_wf_rdr [simp]: "reader_wf (rdr pre s c)"
  by (simp add: reader_wf_def rdr_def)

lemma reader_wf_imp_rdr: "reader_wf r \<Longrightarrow> \<exists>pre s c. r = rdr pre s c"
  by (rule exI [of _ "take (rd_off r) (rd_b r)"], rule exI [of _ "drop (rd_off r) (rd_b r)"],
      rule exI [of _ "rd_compl r"]) (simp add: reader_wf_def rdr_def)

lemma rdr_inject [simp]: "rdr pre s c = rdr pre' s' c' \<longleftrightarrow> pre = pre' \<and> s = s' \<and> c = c'"
  by (auto simp: rdr_def)

lemma rdr_sel [simp]:
  "rd_b (rdr pre s c) = pre @ s"
  "rd_off (rdr pre s c) = length pre"
  "rd_compl (rdr pre s c) = c"
  "rd_remaining (rdr pre s c) = length s"
  "rd_into_rest (rdr pre s c) = s"
  "rd_incomplete_error (rdr pre s c) d = short_error c d"
  by (simp_all add: rdr_def rd_remaining_def rd_into_rest_def rd_incomplete_error_def short_error_def)

lemma rdr_rewind [simp]: "(rdr (pre @ u) v c)\<lparr>rd_off := length pre\<rparr> = rdr pre (u @ v) c"
  by (simp add: rdr_def)

lemma from_slice_rdr: "from_slice s = rdr [] s SupposedlyComplete"
  by (simp add: from_slice_def rdr_def)

lemma from_possibly_incomplete_slice_rdr:
  "from_possibly_incomplete_slice s = rdr [] s PossiblyIncomplete"
  by (simp add: from_possibly_incomplete_slice_def rdr_def)

lemma rd_peek_rdr [eff_simps]:
  "rd_peek n (rdr pre s c) =
     (if n \<le> length s then Inr (take n s) else Inl (short_error c (n - length s)))"
  by (auto simp: rd_peek_def checked_sub_def non_zero_def slice_of_def)

lemma rd_advance_rdr [eff_simps]:
  "rd_advance n (rdr pre s c) =
     (if n \<le> length s then (Inr (), rdr (pre @ take n s) (drop n s) c)
      else (Inl (short_error c (n - length s)), rdr pre s c))"
  by (simp add: rd_advance_def rd_peek_rdr)

lemma rd_take_rdr [eff_simps]:
  "rd_take n (rdr pre s c) =
     (if n \<le> length s then (Inr (take n s), rdr (pre @ take n s) (drop n s) c)
      else (Inl (short_error c (n - length s)), rdr pre s c))"
  by (simp add: rd_take_def rd_peek_rdr rd_advance_rdr eff_simps)

text \<open>
  Bytes that were taken are as many as asked for, which is why the accesses to them do not
  panic.
\<close>

lemma rd_take_length: "fst (rd_take n r) = Inr b \<Longrightarrow> length b = n"
  by (auto simp: rd_take_def rd_peek_def rd_advance_def slice_of_def ebind_def eret_def
      split: option.splits if_splits)

lemma ebind_rd_take_cong:
  "(\<And>b. length b = n \<Longrightarrow> f b = g b) \<Longrightarrow> ebind (rd_take n) f = ebind (rd_take n) g"
  by (rule ext) (auto simp: ebind_def split: prod.splits sum.splits dest!: rd_take_length [of n, OF arg_cong [of _ _ fst, THEN trans]])

lemma rd_take_into_rdr [eff_simps]: "rd_take_into n = rd_take n"
proof -
  have "rd_take_into n = ebind (rd_take n) eret"
    unfolding rd_take_into_def
    by (rule ebind_rd_take_cong) (simp add: copy_from_slice_def elift_def eret_def fun_eq_iff)
  then show ?thesis by (auto simp: ebind_def eret_def fun_eq_iff split: prod.splits sum.splits)
qed

lemma rd_take_u8_eq: "rd_take_u8 = ebind (rd_take 1) (\<lambda>b. eret (b ! 0))"
  unfolding rd_take_u8_def
  by (rule ebind_rd_take_cong) (simp add: index_at_def elift_def eret_def fun_eq_iff)

lemma take_from_array_eq [eff_simps]: "take_from_array n = rd_take n"
  by (rule ext) (auto simp: take_from_array_def rd_take_into_rdr ebind_def eret_def
      split: prod.splits sum.splits)

lemma rd_should_be_exhausted_rdr [eff_simps]:
  "rd_should_be_exhausted (rdr pre s c) =
     (if s = [] then (Inr (), rdr pre s c) else (Inl ExtraneousBytes, rdr pre s c))"
  by (simp add: rd_should_be_exhausted_def)

lemma rd_take_rest_rdr [eff_simps]:
  "rd_take_rest (rdr pre s c) = (Inr s, rdr (pre @ s) [] c)"
  by (simp add: rd_take_rest_def emap_err_def rd_take_rdr)

lemma rd_take_all_but_rdr [eff_simps]:
  "rd_take_all_but n (rdr pre s SupposedlyComplete) =
     (if n \<le> length s
      then (Inr (take (length s - n) s),
            rdr (pre @ take (length s - n) s) (drop (length s - n) s) SupposedlyComplete)
      else (Inl MissingData, rdr pre s SupposedlyComplete))"
  by (simp add: rd_take_all_but_def emap_err_def rd_take_rdr checked_sub_def)

lemma position_eq_Some:
  "position P xs = Some i \<longleftrightarrow> i < length xs \<and> P (xs ! i) \<and> (\<forall>j<i. \<not> P (xs ! j))"
proof (induction xs arbitrary: i)
  case (Cons x xs)
  then show ?case by (cases i) (auto simp: less_Suc_eq_0_disj)
qed simp

lemma position_eq_None: "position P xs = None \<longleftrightarrow> (\<forall>x\<in>set xs. \<not> P x)"
  by (induction xs) auto

lemma position_append:
  "position P (xs @ ys) =
     (case position P xs of Some i \<Rightarrow> Some i | None \<Rightarrow> map_option (\<lambda>i. length xs + i) (position P ys))"
  by (induction xs) (auto split: option.splits simp: map_option_case)

lemma rd_take_until_rdr [eff_simps]:
  "rd_take_until tm (rdr pre s c) =
     (case position (\<lambda>b. b = tm) s of
        None \<Rightarrow> (Inl (short_error c 1), rdr pre s c)
      | Some i \<Rightarrow> (Inr (take i s), rdr (pre @ take (Suc i) s) (drop (Suc i) s) c))"
proof (cases "position (\<lambda>b. b = tm) s")
  case None
  then show ?thesis by (simp add: rd_take_until_def slice_of_def)
next
  case (Some i)
  then have "i < length s" by (simp add: position_eq_Some)
  then have "take (Suc i) s = take i s @ take 1 (drop i s)" and "1 \<le> length (drop i s)"
    using take_add [of i 1 s] by simp_all
  with Some \<open>i < length s\<close> show ?thesis
    by (simp add: rd_take_until_def slice_of_def ebind_def rd_take_rdr rd_advance_rdr eret_def)
qed

section \<open>The contract of a decoder\<close>

text \<open>
  What every decoder promises, also one that reads to the end of its buffer: it moves
  forward inside the buffer, it does not panic, and on a reader for a complete object it
  does not ask for more bytes.
\<close>

locale body_readable =
  fixes take_from :: "'a rd"
  assumes frame: "\<exists>u v. s = u @ v \<and> snd (take_from (rdr pre s c)) = rdr (pre @ u) v c"
    and no_panic: "fst (take_from (rdr pre s c)) \<noteq> Inl Panic"
    and complete: "fst (take_from (rdr pre s SupposedlyComplete)) \<noteq> Inl (Incomplete d)"
begin

lemma preserves_wf: "reader_wf r \<Longrightarrow> reader_wf (snd (take_from r))"
  using reader_wf_imp_rdr [of r] frame by (metis reader_wf_rdr)

lemma cases_result:
  obtains (Ok) x u v where "s = u @ v" "take_from (rdr pre s c) = (Inr x, rdr (pre @ u) v c)"
  | (Err) e u v where "s = u @ v" "take_from (rdr pre s c) = (Inl e, rdr (pre @ u) v c)"
  by (metis frame prod.collapse sum.exhaust)

lemma offset_mono: "reader_wf r \<Longrightarrow> rd_off r \<le> rd_off (snd (take_from r))"
  using reader_wf_imp_rdr [of r] frame by (metis length_append le_add1 rdr_sel(2))

lemma buffer_kept:
  "reader_wf r \<Longrightarrow> rd_b (snd (take_from r)) = rd_b r \<and> rd_compl (snd (take_from r)) = rd_compl r"
  using reader_wf_imp_rdr [of r] frame by (metis append.assoc rdr_sel(1) rdr_sel(3))

end

text \<open>
  The contract of the trait \<open>Readable\<close> (\<open>lib.rs\<close>): a successful read depends only on
  the bytes it consumed; on a reader that may be incomplete, an error other than
  \<open>Incomplete\<close> stays whatever bytes follow, and an \<open>Incomplete\<close> error names a
  positive number of missing bytes: with fewer than that many more bytes the read is
  still incomplete, by the rest of that number.
\<close>

locale readable = body_readable +
  assumes ok_stable: "take_from (rdr pre (u @ v) c) = (Inr x, rdr (pre @ u) v c) \<Longrightarrow>
      take_from (rdr pre' (u @ v') c') = (Inr x, rdr (pre' @ u) v' c')"
    and err_stable: "fst (take_from (rdr pre s PossiblyIncomplete)) = Inl e \<Longrightarrow>
      (\<And>d. e \<noteq> Incomplete d) \<Longrightarrow>
      fst (take_from (rdr pre' (s @ t) PossiblyIncomplete)) = Inl e"
    and incomplete_pos: "fst (take_from (rdr pre s PossiblyIncomplete)) = Inl (Incomplete d) \<Longrightarrow>
      0 < d"
    and incomplete_stable: "fst (take_from (rdr pre s PossiblyIncomplete)) = Inl (Incomplete d) \<Longrightarrow>
      length t < d \<Longrightarrow>
      fst (take_from (rdr pre' (s @ t) PossiblyIncomplete)) = Inl (Incomplete (d - length t))"
begin

lemma ok_split:
  assumes "take_from (rdr pre s c) = (Inr x, r')"
  obtains u v where "s = u @ v" "r' = rdr (pre @ u) v c"
    "\<And>pre' v' c'. take_from (rdr pre' (u @ v') c') = (Inr x, rdr (pre' @ u) v' c')"
proof -
  obtain u v where "s = u @ v" "r' = rdr (pre @ u) v c"
    using frame [of s pre c] assms by auto
  then show thesis using assms by (intro that) (auto intro: ok_stable [of pre u v c])
qed

lemma deficit_lower_bound:
  assumes "fst (take_from (rdr pre s PossiblyIncomplete)) = Inl (Incomplete d)"
    and "fst (take_from (rdr pre' (s @ t) PossiblyIncomplete)) = Inr x"
  shows "d \<le> length t"
proof (rule ccontr)
  assume "\<not> d \<le> length t"
  then show False using incomplete_stable [OF assms(1), of t pre'] assms(2) by simp
qed

lemma prefix_decided:
  assumes "fst (take_from (rdr pre s PossiblyIncomplete)) = r" and "\<And>d. r \<noteq> Inl (Incomplete d)"
  shows "fst (take_from (rdr pre' (s @ t) PossiblyIncomplete)) = r"
proof (cases rule: cases_result [of s pre PossiblyIncomplete])
  case (Ok x u v)
  have "take_from (rdr pre' (u @ (v @ t)) PossiblyIncomplete) =
      (Inr x, rdr (pre' @ u) (v @ t) PossiblyIncomplete)"
    by (rule ok_stable [of pre u v PossiblyIncomplete]) (use Ok in simp)
  with Ok assms show ?thesis by simp
next
  case (Err e u v)
  with assms have "\<And>d. e \<noteq> Incomplete d" by auto
  with Err assms show ?thesis using err_stable [of pre s e pre' t] by auto
qed

end

subsection \<open>The contract is closed under sequencing\<close>

lemma body_readable_bind [contract_rules]:
  assumes p: "body_readable p" and f: "\<And>x. body_readable (f x)"
  shows "body_readable (ebind p f)"
proof
  fix s pre c d
  have *: "(\<exists>u v. s = u @ v \<and> snd (ebind p f (rdr pre s c)) = rdr (pre @ u) v c) \<and>
     fst (ebind p f (rdr pre s c)) \<noteq> Inl Panic \<and>
     (c = SupposedlyComplete \<longrightarrow> fst (ebind p f (rdr pre s c)) \<noteq> Inl (Incomplete d))" for c
  proof (cases rule: body_readable.cases_result [OF p, of s pre c])
    case (1 x u v)
    obtain u' v' where "v = u' @ v'" "snd (f x (rdr (pre @ u) v c)) = rdr (pre @ u @ u') v' c"
      using body_readable.frame [OF f, of v x "pre @ u" c] by auto
    with 1 show ?thesis
      using body_readable.no_panic [OF f, of x "pre @ u" v c]
        body_readable.complete [OF f, of x "pre @ u" v d]
      by (auto simp: ebind_Inr intro!: exI [of _ "u @ u'"])
  next
    case (2 e u v)
    then show ?thesis
      using body_readable.no_panic [OF p, of pre s c] body_readable.complete [OF p, of pre s d]
      by (auto simp: ebind_Inl)
  qed
  show "\<exists>u v. s = u @ v \<and> snd (ebind p f (rdr pre s c)) = rdr (pre @ u) v c"
    and "fst (ebind p f (rdr pre s c)) \<noteq> Inl Panic"
    and "fst (ebind p f (rdr pre s SupposedlyComplete)) \<noteq> Inl (Incomplete d)"
    using * [of c] * [of SupposedlyComplete] by auto
qed

text \<open>
  The four laws of a decoder that may see a prefix of its input follow from one case
  distinction on the first decoder of the sequence.
\<close>

lemma readable_bind_cases:
  assumes p: "readable p" and f: "\<And>x. readable (f x)"
  obtains (Fail) e where "fst (p (rdr pre s c)) = Inl e" "fst (ebind p f (rdr pre s c)) = Inl e"
  | (Next) x u v where "s = u @ v"
      "\<And>pre' v' c'. p (rdr pre' (u @ v') c') = (Inr x, rdr (pre' @ u) v' c')"
      "\<And>pre' v' c'. ebind p f (rdr pre' (u @ v') c') = f x (rdr (pre' @ u) v' c')"
proof (cases "p (rdr pre s c)")
  case (Pair r r')
  show thesis
  proof (cases r)
    case (Inl e)
    with Pair show thesis by (intro Fail) (auto simp: ebind_def)
  next
    case (Inr x)
    with Pair have "p (rdr pre s c) = (Inr x, r')" by simp
    then obtain u v where "s = u @ v" "r' = rdr (pre @ u) v c"
      "\<And>pre' v' c'. p (rdr pre' (u @ v') c') = (Inr x, rdr (pre' @ u) v' c')"
      by (rule readable.ok_split [OF p]) (rule that)
    then show thesis by (intro Next) (auto simp: ebind_Inr)
  qed
qed

lemma readable_bind [contract_rules]:
  assumes p: "readable p" and f: "\<And>x. readable (f x)"
  shows "readable (ebind p f)"
proof (intro readable.intro readable_axioms.intro)
  show "body_readable (ebind p f)"
    using p f by (intro body_readable_bind) (auto dest: readable.axioms)
next
  fix pre u v c y pre' v' c'
  assume *: "ebind p f (rdr pre (u @ v) c) = (Inr y, rdr (pre @ u) v c)"
  show "ebind p f (rdr pre' (u @ v') c') = (Inr y, rdr (pre' @ u) v' c')"
  proof (cases rule: readable_bind_cases [where f = f, OF p f, of pre "u @ v" c])
    case (2 x u1 v1)
    with * have "f x (rdr (pre @ u1) v1 c) = (Inr y, rdr (pre @ u) v c)" by simp
    then obtain u2 v2 where "v1 = u2 @ v2" and eq: "rdr (pre @ u) v c = rdr ((pre @ u1) @ u2) v2 c"
      and "\<And>pre' v' c'. f x (rdr pre' (u2 @ v') c') = (Inr y, rdr (pre' @ u2) v' c')"
      by (rule readable.ok_split [OF f]) (rule that)
    moreover have "u = u1 @ u2" using eq by simp
    ultimately show ?thesis using 2(3) [of pre' "u2 @ v'" c'] by simp
  qed (use * in auto)
next
  fix pre s e pre' t
  assume *: "fst (ebind p f (rdr pre s PossiblyIncomplete)) = Inl e" "\<And>d. e \<noteq> Incomplete d"
  show "fst (ebind p f (rdr pre' (s @ t) PossiblyIncomplete)) = Inl e"
  proof (cases rule: readable_bind_cases [where f = f, OF p f, of pre s PossiblyIncomplete])
    case (1 e')
    with * have "fst (p (rdr pre' (s @ t) PossiblyIncomplete)) = Inl e"
      using readable.err_stable [OF p, of pre s e] by auto
    then show ?thesis by (auto simp: ebind_def split: prod.splits)
  next
    case (2 x u v)
    with * show ?thesis using readable.err_stable [OF f, of x "pre @ u" v e] by auto
  qed
next
  fix pre s d
  assume *: "fst (ebind p f (rdr pre s PossiblyIncomplete)) = Inl (Incomplete d)"
  show "0 < d"
    by (cases rule: readable_bind_cases [where f = f, OF p f, of pre s PossiblyIncomplete])
      (use * readable.incomplete_pos [OF p] readable.incomplete_pos [OF f] in auto)
  fix t :: "byte list" and pre'
  assume t: "length t < d"
  show "fst (ebind p f (rdr pre' (s @ t) PossiblyIncomplete)) = Inl (Incomplete (d - length t))"
  proof (cases rule: readable_bind_cases [where f = f, OF p f, of pre s PossiblyIncomplete])
    case (1 e')
    with * t have "fst (p (rdr pre' (s @ t) PossiblyIncomplete)) = Inl (Incomplete (d - length t))"
      using readable.incomplete_stable [OF p, of pre s d] by auto
    then show ?thesis by (auto simp: ebind_def split: prod.splits)
  next
    case (2 x u v)
    with * t show ?thesis using readable.incomplete_stable [OF f, of x "pre @ u" v d] by auto
  qed
qed

subsection \<open>The operations of the reader keep the contract\<close>

lemma body_readable_eret [contract_rules]: "body_readable (eret x)"
  by unfold_locales (simp_all add: eret_def)

lemma readable_eret [contract_rules]: "readable (eret x)"
  by (intro readable.intro readable_axioms.intro contract_rules) (auto simp: eret_def)

definition final_error :: "bytes_error \<Rightarrow> bool" where
  "final_error e \<longleftrightarrow> e \<noteq> Panic \<and> (\<forall>d. e \<noteq> Incomplete d)"

lemma final_error_simps [simp, contract_rules]:
  "final_error Truncated" "final_error ExtraneousBytes" "final_error BadLengthValue"
  "final_error (BadMessage m)" "final_error (InvalidMessage m)" "final_error MissingData"
  "final_error (Bug m)"
  by (simp_all add: final_error_def)

lemma body_readable_efail [contract_rules]: "final_error e \<Longrightarrow> body_readable (efail e)"
  by unfold_locales (simp_all add: efail_def final_error_def)

lemma readable_efail [contract_rules]: "final_error e \<Longrightarrow> readable (efail e)"
  by (intro readable.intro readable_axioms.intro contract_rules)
    (auto simp: efail_def final_error_def)

lemma body_readable_if [contract_rules]:
  "body_readable p \<Longrightarrow> body_readable q \<Longrightarrow> body_readable (if b then p else q)"
  by simp

lemma readable_if [contract_rules]:
  "readable p \<Longrightarrow> readable q \<Longrightarrow> readable (if b then p else q)"
  by simp

lemma body_readable_case_option [contract_rules]:
  "body_readable p \<Longrightarrow> (\<And>x. body_readable (f x)) \<Longrightarrow>
     body_readable (case ox of None \<Rightarrow> p | Some x \<Rightarrow> f x)"
  by (cases ox) simp_all

lemma readable_case_option [contract_rules]:
  "readable p \<Longrightarrow> (\<And>x. readable (f x)) \<Longrightarrow> readable (case ox of None \<Rightarrow> p | Some x \<Rightarrow> f x)"
  by (cases ox) simp_all

lemma readable_body: "readable p \<Longrightarrow> body_readable p"
  by (rule readable.axioms)

lemma append_eq_take_drop: "xs = u @ v \<Longrightarrow> u = take (length u) xs \<and> v = drop (length u) xs"
  by simp

lemma readable_rd_take [contract_rules]: "readable (rd_take n)"
proof (intro readable.intro readable_axioms.intro)
  show "body_readable (rd_take n)"
  proof
    fix s pre c d
    show "\<exists>u v. s = u @ v \<and> snd (rd_take n (rdr pre s c)) = rdr (pre @ u) v c"
      by (auto simp: rd_take_rdr intro: exI [of _ "take n s"])
    show "fst (rd_take n (rdr pre s c)) \<noteq> Inl Panic"
      by (cases c) (simp_all add: rd_take_rdr)
    show "fst (rd_take n (rdr pre s SupposedlyComplete)) \<noteq> Inl (Incomplete d)"
      by (simp add: rd_take_rdr)
  qed
next
  fix pre u v c x pre' v' c'
  assume *: "rd_take n (rdr pre (u @ v) c) = (Inr x, rdr (pre @ u) v c)"
  then have "n \<le> length (u @ v)" "take n (u @ v) = u" "x = take n (u @ v)"
    by (auto simp: rd_take_rdr simp del: take_append split: if_splits)
  then have "n = length u" "x = u" by (metis length_take min.absorb2, simp)
  then show "rd_take n (rdr pre' (u @ v') c') = (Inr x, rdr (pre' @ u) v' c')"
    by (simp add: rd_take_rdr)
qed (auto simp: rd_take_rdr split: if_splits)

lemmas body_readable_rd_take [contract_rules] = readable_body [OF readable_rd_take]

lemma rd_advance_eq: "reader_wf r \<Longrightarrow> rd_advance n r = ebind (rd_take n) (\<lambda>_. eret ()) r"
  by (drule reader_wf_imp_rdr) (auto simp: rd_advance_rdr rd_take_rdr ebind_def eret_def)

text \<open>A decoder is determined by what it does inside the buffer.\<close>

lemma body_readable_cong:
  assumes "\<And>pre s c. p (rdr pre s c) = q (rdr pre s c)"
  shows "body_readable p = body_readable q"
  unfolding body_readable_def assms ..

lemma readable_cong:
  assumes "\<And>pre s c. p (rdr pre s c) = q (rdr pre s c)"
  shows "readable p = readable q"
  unfolding readable_def readable_axioms_def body_readable_def assms ..

lemma readable_rd_advance [contract_rules]: "readable (rd_advance n)"
  by (subst readable_cong [of _ "ebind (rd_take n) (\<lambda>_. eret ())"])
    (simp add: rd_advance_eq, intro contract_rules)

lemma body_readable_rd_extract [contract_rules]:
  assumes "body_readable p"
  shows "body_readable (rd_extract p)"
proof -
  have *: "(\<exists>u v. s = u @ v \<and> snd (rd_extract p (rdr pre s c)) = rdr (pre @ u) v c) \<and>
     fst (rd_extract p (rdr pre s c)) = fst (p (rdr pre s c))" for pre s c
    by (cases rule: body_readable.cases_result [OF assms, of s pre c])
      (auto simp: rd_extract_def)
  show ?thesis
    by unfold_locales (use * assms in \<open>auto simp: body_readable_def\<close>)
qed

text \<open>\<open>extract\<close> rewinds a reader that failed; nothing else changes.\<close>

lemma rd_extract_fst: "fst (rd_extract p r) = fst (p r)"
  by (auto simp: rd_extract_def split: prod.splits sum.splits)

lemma rd_extract_Inr [simp]: "rd_extract p r = (Inr x, r') \<longleftrightarrow> p r = (Inr x, r')"
  by (auto simp: rd_extract_def split: prod.splits sum.splits)

lemma rd_extract_Inl:
  "body_readable p \<Longrightarrow> fst (p (rdr pre s c)) = Inl e \<Longrightarrow>
     rd_extract p (rdr pre s c) = (Inl e, rdr pre s c)"
  by (cases rule: body_readable.cases_result [of p s pre c]) (auto simp: rd_extract_def)

lemma readable_rd_extract [contract_rules]:
  assumes "readable p"
  shows "readable (rd_extract p)"
proof -
  have "readable_axioms (rd_extract p)"
    using assms unfolding readable_def readable_axioms_def rd_extract_fst rd_extract_Inr by (rule conjunct2)
  then show ?thesis
    by (intro readable.intro body_readable_rd_extract readable_body [OF assms])
qed

lemma readable_take_u [contract_rules]:
  "readable rd_take_u8" "readable rd_take_u16" "readable rd_take_u32" "readable rd_take_u64"
  "readable rd_take_u128" "readable (take_from_array n)" "readable (rd_take_into n)"
  by (simp_all add: rd_take_u8_eq rd_take_u16_def rd_take_u32_def rd_take_u64_def
      rd_take_u128_def take_from_array_eq rd_take_into_rdr contract_rules)

lemmas body_readable_take_u [contract_rules] = readable_take_u [THEN readable_body]
lemmas body_readable_rd_advance [contract_rules] = readable_rd_advance [THEN readable_body]

lemma readable_rd_take_until [contract_rules]: "readable (rd_take_until tm)"
proof (intro readable.intro readable_axioms.intro)
  show "body_readable (rd_take_until tm)"
  proof
    fix s pre c d
    show "\<exists>u v. s = u @ v \<and> snd (rd_take_until tm (rdr pre s c)) = rdr (pre @ u) v c"
      by (auto simp: rd_take_until_rdr split: option.splits intro: exI [of _ "take n s" for n])
    show "fst (rd_take_until tm (rdr pre s c)) \<noteq> Inl Panic"
      by (cases c) (simp_all add: rd_take_until_rdr split: option.splits)
    show "fst (rd_take_until tm (rdr pre s SupposedlyComplete)) \<noteq> Inl (Incomplete d)"
      by (simp add: rd_take_until_rdr split: option.splits)
  qed
next
  fix pre u v c x pre' v' c'
  assume *: "rd_take_until tm (rdr pre (u @ v) c) = (Inr x, rdr (pre @ u) v c)"
  then obtain i where i: "position (\<lambda>b. b = tm) (u @ v) = Some i" "take (Suc i) (u @ v) = u"
      "x = take i (u @ v)"
    by (auto simp: rd_take_until_rdr simp del: take_append split: option.splits)
  then have len: "length u = Suc i"
    by (metis Suc_leI length_take min.absorb2 position_eq_Some)
  with i have "position (\<lambda>b. b = tm) (u @ v') = Some i" "x = take i u"
    by (auto simp: position_eq_Some nth_append)
  with len show "rd_take_until tm (rdr pre' (u @ v') c') = (Inr x, rdr (pre' @ u) v' c')"
    by (simp add: rd_take_until_rdr)
qed (auto simp: rd_take_until_rdr position_append split: option.splits)

lemmas body_readable_rd_take_until [contract_rules] = readable_rd_take_until [THEN readable_body]

lemma body_readable_rd_take_rest [contract_rules]: "body_readable rd_take_rest"
  by unfold_locales (simp_all add: rd_take_rest_rdr)

lemma body_readable_exhausted [contract_rules]: "body_readable rd_should_be_exhausted"
  by unfold_locales (simp_all add: rd_should_be_exhausted_rdr)

lemma body_readable_rd_take_all_but [contract_rules]: "body_readable (rd_take_all_but n)"
proof
  fix s pre c d
  show "\<exists>u v. s = u @ v \<and> snd (rd_take_all_but n (rdr pre s c)) = rdr (pre @ u) v c"
    by (cases c) (auto simp: rd_take_all_but_rdr intro: exI [of _ "take m s" for m],
        simp add: rd_take_all_but_def)
  show "fst (rd_take_all_but n (rdr pre s c)) \<noteq> Inl Panic"
    by (cases c) (simp_all add: rd_take_all_but_rdr, simp add: rd_take_all_but_def)
  show "fst (rd_take_all_but n (rdr pre s SupposedlyComplete)) \<noteq> Inl (Incomplete d)"
    by (simp add: rd_take_all_but_rdr)
qed

lemma with_remaining_rdr [simp]: "with_remaining p (rdr pre s c) = p (length s) (rdr pre s c)"
  by (simp add: with_remaining_def)

lemma body_readable_with_remaining [contract_rules]:
  assumes "\<And>n. body_readable (p n)"
  shows "body_readable (with_remaining p)"
proof
  fix s pre c d
  show "\<exists>u v. s = u @ v \<and> snd (with_remaining p (rdr pre s c)) = rdr (pre @ u) v c"
    using body_readable.frame [OF assms] by simp
  show "fst (with_remaining p (rdr pre s c)) \<noteq> Inl Panic"
    using body_readable.no_panic [OF assms] by simp
  show "fst (with_remaining p (rdr pre s SupposedlyComplete)) \<noteq> Inl (Incomplete d)"
    using body_readable.complete [OF assms] by simp
qed

lemma body_readable_ereplicate [contract_rules]:
  "body_readable p \<Longrightarrow> body_readable (ereplicate n p)"
  by (induction n) (simp_all add: contract_rules)

lemma readable_ereplicate [contract_rules]: "readable p \<Longrightarrow> readable (ereplicate n p)"
  by (induction n) (simp_all add: contract_rules)

lemma rd_extract_n_eq: "rd_extract_n p n = rd_extract (ereplicate n p)"
  by (rule ext) (simp add: rd_extract_n_def rd_extract_def)

lemma readable_rd_extract_n [contract_rules]: "readable p \<Longrightarrow> readable (rd_extract_n p n)"
  by (simp add: rd_extract_n_eq contract_rules)

lemma body_readable_rd_extract_n [contract_rules]:
  "body_readable p \<Longrightarrow> body_readable (rd_extract_n p n)"
  by (simp add: rd_extract_n_eq contract_rules)

text \<open>
  A loop \<open>while r.remaining() > 0\<close> that decodes one item per turn, when each item takes at
  least one byte.
\<close>

lemma loop_contract:
  fixes loop :: "'a list \<Rightarrow> 'a list rd"
  assumes step: "\<And>acc pre s c. s \<noteq> [] \<Longrightarrow>
      loop acc (rdr pre s c) = ebind p (\<lambda>v. loop (acc @ [v])) (rdr pre s c)"
    and finish: "\<And>acc pre c. loop acc (rdr pre [] c) = (Inr acc, rdr pre [] c)"
    and p: "body_readable p"
    and dec: "\<And>s pre c x u v. s \<noteq> [] \<Longrightarrow> p (rdr pre s c) = (Inr x, rdr (pre @ u) v c) \<Longrightarrow>
      length v < length s"
  shows "(\<exists>u v. s = u @ v \<and> snd (loop acc (rdr pre s c)) = rdr (pre @ u) v c) \<and>
    fst (loop acc (rdr pre s c)) \<noteq> Inl Panic \<and>
    (c = SupposedlyComplete \<longrightarrow> fst (loop acc (rdr pre s c)) \<noteq> Inl (Incomplete d))"
  (is "?C s acc pre")
proof (induction s arbitrary: acc pre rule: length_induct)
  case (1 s)
  show ?case
  proof (cases "s = []")
    case True
    then show ?thesis by (simp add: finish)
  next
    case False
    show ?thesis
    proof (cases rule: body_readable.cases_result [OF p, of s pre c])
      case (1 x u v)
      then have run: "loop acc (rdr pre s c) = loop (acc @ [x]) (rdr (pre @ u) v c)"
        using False by (simp add: step ebind_Inr)
      have "length v < length s" using dec [OF False] 1 by blast
      then have C: "?C v (acc @ [x]) (pre @ u)" using "1.IH" by blast
      then obtain u' v' where "v = u' @ v'"
        "snd (loop (acc @ [x]) (rdr (pre @ u) v c)) = rdr ((pre @ u) @ u') v' c"
        by blast
      then have "\<exists>u v. s = u @ v \<and> snd (loop acc (rdr pre s c)) = rdr (pre @ u) v c"
        using 1(1) run by (intro exI [of _ "u @ u'"] exI [of _ v']) simp
      with C show ?thesis unfolding run by blast
    next
      case (2 e u v)
      then show ?thesis
        using False body_readable.no_panic [OF p, of pre s c] body_readable.complete [OF p, of pre s d]
        by (auto simp: step ebind_Inl)
    qed
  qed
qed

lemma body_readable_loop:
  fixes loop :: "'a list \<Rightarrow> 'a list rd"
  assumes "\<And>acc pre s c. s \<noteq> [] \<Longrightarrow>
      loop acc (rdr pre s c) = ebind p (\<lambda>v. loop (acc @ [v])) (rdr pre s c)"
    and "\<And>acc pre c. loop acc (rdr pre [] c) = (Inr acc, rdr pre [] c)"
    and "body_readable p"
    and "\<And>s pre c x u v. s \<noteq> [] \<Longrightarrow> p (rdr pre s c) = (Inr x, rdr (pre @ u) v c) \<Longrightarrow>
      length v < length s"
  shows "body_readable (loop acc)"
proof
  fix s pre c d
  have C: "(\<exists>u v. s = u @ v \<and> snd (loop acc (rdr pre s c)) = rdr (pre @ u) v c) \<and>
    fst (loop acc (rdr pre s c)) \<noteq> Inl Panic \<and>
    (c = SupposedlyComplete \<longrightarrow> fst (loop acc (rdr pre s c)) \<noteq> Inl (Incomplete d))" for c
    by (rule loop_contract [where p = p]) (fact assms)+
  show "\<exists>u v. s = u @ v \<and> snd (loop acc (rdr pre s c)) = rdr (pre @ u) v c"
    and "fst (loop acc (rdr pre s c)) \<noteq> Inl Panic"
    and "fst (loop acc (rdr pre s SupposedlyComplete)) \<noteq> Inl (Incomplete d)"
    using C [of c] C [of SupposedlyComplete] by blast+
qed

lemma elift_Inl: "elift (Inl e) = efail e" and elift_Inr: "elift (Inr x) = eret x"
  by (simp_all add: elift_def efail_def eret_def fun_eq_iff)

lemma readable_elift [contract_rules]:
  "(\<And>e. r = Inl e \<Longrightarrow> final_error e) \<Longrightarrow> readable (elift r)"
  by (cases r) (simp_all add: elift_Inl elift_Inr contract_rules)

text \<open>
  A counted section keeps the contract whatever decodes its body: the body sees the whole
  section or nothing.
\<close>

lemma readable_read_nested_generic [contract_rules]:
  assumes p: "readable p" and f: "body_readable f"
  shows "readable (read_nested_generic p f)"
proof -
  let ?g = "ebind f (\<lambda>out. ebind rd_should_be_exhausted (\<lambda>_. eret out))"
  have g: "body_readable ?g" using f by (intro contract_rules)
  have "final_error e" if "fst (?g (from_slice slice)) = Inl e" for e slice
    using that body_readable.no_panic [OF g, of "[]" slice SupposedlyComplete]
      body_readable.complete [OF g, of "[]" slice]
    by (auto simp: final_error_def from_slice_rdr)
  then show ?thesis
    unfolding read_nested_generic_def using p by (intro contract_rules)
qed

lemma readable_read_nested [contract_rules]:
  assumes "body_readable f"
  shows "readable (rd_read_nested_u8len f)" "readable (rd_read_nested_u16len f)"
    "readable (rd_read_nested_u32len f)"
  unfolding rd_read_nested_u8len_def rd_read_nested_u16len_def rd_read_nested_u32len_def
  by (intro contract_rules assms)+

lemmas body_readable_read_nested [contract_rules] = readable_read_nested [THEN readable_body]

lemma readable_take_ip [contract_rules]: "readable take_from_ipv4" "readable take_from_ipv6"
  unfolding take_from_ipv4_def take_from_ipv6_def by (intro contract_rules)+

lemmas body_readable_take_ip [contract_rules] = readable_take_ip [THEN readable_body]

section \<open>What a decoder does on given bytes\<close>

definition parses :: "'a rd \<Rightarrow> byte list \<Rightarrow> 'a \<Rightarrow> bool" where
  "parses p bs x \<longleftrightarrow> (\<forall>pre t c. p (rdr pre (bs @ t) c) = (Inr x, rdr (pre @ bs) t c))"

definition parses_all :: "'a rd \<Rightarrow> byte list \<Rightarrow> 'a \<Rightarrow> bool" where
  "parses_all p bs x \<longleftrightarrow>
     (\<forall>pre. p (rdr pre bs SupposedlyComplete) = (Inr x, rdr (pre @ bs) [] SupposedlyComplete))"

lemma parses_run [eff_simps]: "parses p bs x \<Longrightarrow> p (rdr pre (bs @ t) c) = (Inr x, rdr (pre @ bs) t c)"
  by (simp add: parses_def)

lemma parses_run_end: "parses p bs x \<Longrightarrow> p (rdr pre bs c) = (Inr x, rdr (pre @ bs) [] c)"
  using parses_run [of p bs x pre "[]" c] by simp

lemma parses_imp_all [parse_rules]: "parses p bs x \<Longrightarrow> parses_all p bs x"
  by (simp add: parses_all_def parses_run_end)

lemma parses_unique: "parses p bs x \<Longrightarrow> parses p bs y \<Longrightarrow> x = y"
  by (auto simp: parses_def)

lemma parses_prefix_unique: "parses p bs x \<Longrightarrow> parses p (bs @ t) y \<Longrightarrow> t = [] \<and> x = y"
  by (auto simp: parses_def dest!: spec [of _ "[]"] spec [of _ PossiblyIncomplete] spec [of _ "[] :: byte list"])

lemma parses_eret [parse_rules]: "parses (eret x) [] x"
  by (simp add: parses_def eret_def)

lemma parses_bind [parse_rules]:
  "parses p b1 x \<Longrightarrow> parses (f x) b2 y \<Longrightarrow> parses (ebind p f) (b1 @ b2) y"
  by (simp add: parses_def ebind_def)

lemma parses_all_bind [parse_rules]:
  "parses p b1 x \<Longrightarrow> parses_all (f x) b2 y \<Longrightarrow> parses_all (ebind p f) (b1 @ b2) y"
  by (simp add: parses_all_def parses_def ebind_def)

lemma parses_map [parse_rules]: "parses p bs x \<Longrightarrow> parses (ebind p (\<lambda>x. eret (f x))) bs (f x)"
  using parses_bind [of p bs x _ "[]", OF _ parses_eret] by simp

lemma parses_all_rd_take_rest [parse_rules]: "parses_all rd_take_rest bs bs"
  by (simp add: parses_all_def rd_take_rest_rdr)

lemma parses_rd_take [parse_rules]: "n = length bs \<Longrightarrow> parses (rd_take n) bs bs"
  by (simp add: parses_def rd_take_rdr)

lemma parses_take_from_array [parse_rules]: "n = length bs \<Longrightarrow> parses (take_from_array n) bs bs"
  by (simp add: take_from_array_eq parses_rd_take)

lemma parses_rd_take_into [parse_rules]: "n = length bs \<Longrightarrow> parses (rd_take_into n) bs bs"
  by (simp add: rd_take_into_rdr parses_rd_take)

lemma parses_rd_extract [parse_rules]: "parses p bs x \<Longrightarrow> parses (rd_extract p) bs x"
  by (simp add: parses_def)

lemma parses_rd_take_u8 [parse_rules]: "parses rd_take_u8 [x] x"
  unfolding rd_take_u8_eq using parses_map [OF parses_rd_take [of 1 "[x]"], of "\<lambda>b. b ! 0"] by simp

lemma parses_be_bytes:
  "8 dvd LENGTH('l) \<Longrightarrow> n = LENGTH('l) div 8 \<Longrightarrow>
     parses (ebind (rd_extract (take_from_array n)) (\<lambda>b. eret (from_be_bytes b)))
       (to_be_bytes (w :: 'l::len word)) w"
  using parses_map [OF parses_rd_extract [OF parses_take_from_array [of n "to_be_bytes w"]],
      of "from_be_bytes :: _ \<Rightarrow> 'l word"]
  by simp

lemma parses_take_u [parse_rules]:
  "parses rd_take_u16 (to_be_bytes w16) w16" "parses rd_take_u32 (to_be_bytes w32) w32"
  "parses rd_take_u64 (to_be_bytes w64) w64" "parses rd_take_u128 (to_be_bytes w128) w128"
  by (simp_all add: rd_take_u16_def rd_take_u32_def rd_take_u64_def rd_take_u128_def parses_be_bytes)

lemma parses_take_ip [parse_rules]:
  "parses take_from_ipv4 (octets_v4 a) a" "parses take_from_ipv6 (octets_v6 b) b"
  using parses_map [of _ _ _ "\<lambda>x. x", OF parses_take_u(2)]
    parses_map [of _ _ _ "\<lambda>x. x", OF parses_take_u(4)]
  by (simp_all add: take_from_ipv4_def take_from_ipv6_def octets_v4_def octets_v6_def)

lemma parses_ereplicate [parse_rules]:
  "list_all2 (parses p) bss xs \<Longrightarrow> n = length xs \<Longrightarrow> parses (ereplicate n p) (concat bss) xs"
proof (induction bss xs arbitrary: n rule: list_all2_induct)
  case Nil
  then show ?case by (simp add: parses_eret)
next
  case (Cons bs bss x xs)
  then have "parses (ebind (ereplicate (length xs) p) (\<lambda>xs. eret (x # xs))) (concat bss) (x # xs)"
    by (intro parses_map) simp
  with Cons show ?case by (simp add: parses_bind)
qed

text \<open>The bytes a decoder needs can be given by a single run.\<close>

lemma readable_parsesI:
  "readable p \<Longrightarrow> p (rdr pre bs c) = (Inr x, rdr (pre @ bs) [] c) \<Longrightarrow> parses p bs x"
  using readable.ok_stable [of p pre bs "[]" c x] by (simp add: parses_def)

lemma parses_read_nested:
  assumes "parses p lb len" "unat len = length bs" "parses_all f bs x"
  shows "parses (read_nested_generic p f) (lb @ bs) x"
  using assms
  by (simp add: parses_def parses_all_def read_nested_generic_def ebind_def rd_take_rdr elift_def
      from_slice_rdr rd_should_be_exhausted_rdr eret_def rd_extract_def)

text \<open>Running a decoder on the bytes of an encoder, as rewriting.\<close>

lemma run_take_u8: "rd_take_u8 (rdr pre (x # t) c) = (Inr x, rdr (pre @ [x]) t c)"
  using parses_run [OF parses_rd_take_u8, of pre x t c] by simp

lemmas run_take_u = parses_take_u [THEN parses_run] parses_take_u [THEN parses_run_end]

lemmas run_simps = ebind_def eret_def efail_def rd_take_rdr run_take_u8 run_take_u
  take_from_array_eq rd_take_into_rdr rd_take_rest_rdr rd_extract_Inr

section \<open>Encoders\<close>

text \<open>\<open>encodes e bs\<close>: the encoder succeeds and has written \<open>bs\<close>.\<close>

definition encodes :: "enc \<Rightarrow> byte list \<Rightarrow> bool" where
  "encodes e bs \<longleftrightarrow> e = (bs, Inr ())"

lemma wseq_simps [wire_simps]:
  "wseq (a, Inr u) b = (a @ fst b, snd b)"
  "wseq (a, Inl e) b = (a, Inl e)"
  by (simp_all add: wseq_def)

lemma wconcat_simps [wire_simps]:
  "wconcat [] = ([], Inr ())"
  "wconcat (e # es) = wseq e (wconcat es)"
  by (simp_all add: wconcat_def)

lemma wseq_assoc: "wseq (wseq a b) c = wseq a (wseq b c)"
  by (auto simp: wseq_def split: sum.splits)

lemma encodes_wseq: "encodes a bs \<Longrightarrow> encodes b cs \<Longrightarrow> encodes (wseq a b) (bs @ cs)"
  by (simp add: encodes_def wire_simps)

lemma try_from_usize_Some:
  "try_from_usize n = Some (w :: 'l::len word) \<longleftrightarrow> unat w = n"
  by (auto simp: try_from_usize_def unat_of_nat_small intro: unat_lt2p)

lemma try_from_usize_None:
  "(try_from_usize n :: 'l::len word option) = None \<longleftrightarrow> 2 ^ LENGTH('l) \<le> n"
  by (auto simp: try_from_usize_def)

lemma write_nested_finish_ok:
  "n = length bs \<Longrightarrow> n < 2 ^ LENGTH('l) \<Longrightarrow>
     write_nested_finish wl (bs, Inr ()) = wseq (wl (word_of_nat n :: 'l::len word)) (bs, Inr ())"
  by (simp add: write_nested_finish_def try_from_usize_def write_all_def)

section \<open>Types with both traits\<close>

text \<open>
  A type that implements \<open>Readable\<close> and \<open>Writeable\<close>: on the values \<open>valid\<close> describes
  the encoder succeeds, and the decoder reads exactly what it wrote.
\<close>

locale codec = readable take_from
  for take_from :: "'a rd" +
  fixes write_onto :: "'a \<Rightarrow> enc" and valid :: "'a \<Rightarrow> bool"
  assumes roundtrip: "valid x \<Longrightarrow> \<exists>bs. encodes (write_onto x) bs \<and> parses take_from bs x"
begin

lemma write_parses: "valid x \<Longrightarrow> write_onto x = (bs, r) \<Longrightarrow> r = Inr () \<and> parses take_from bs x"
  using roundtrip [of x] by (auto simp: encodes_def)

text \<open>Encodings identify their value and delimit themselves.\<close>

lemma self_delimiting:
  assumes "valid x" "valid y" "fst (write_onto y) = fst (write_onto x) @ t"
  shows "x = y \<and> t = []"
  using write_parses [OF assms(1)] write_parses [OF assms(2)] assms(3)
  by (metis parses_prefix_unique prod.collapse)

lemma write_inject: "valid x \<Longrightarrow> valid y \<Longrightarrow> write_onto x = write_onto y \<Longrightarrow> x = y"
  using self_delimiting [of x y "[]"] by simp

text \<open>A strict prefix of an encoding is recognised as incomplete, never as an error.\<close>

lemma prefix_incomplete:
  assumes "valid x" "fst (write_onto x) = s @ t" "t \<noteq> []"
  shows "\<exists>d. fst (take_from (rdr pre s PossiblyIncomplete)) = Inl (Incomplete d) \<and>
           0 < d \<and> d \<le> length t"
proof -
  have full: "parses take_from (s @ t) x"
    using write_parses [OF assms(1)] assms(2) by (metis prod.collapse)
  then have run: "take_from (rdr pre (s @ t) PossiblyIncomplete) =
      (Inr x, rdr (pre @ s @ t) [] PossiblyIncomplete)"
    by (rule parses_run_end)
  obtain d where d: "fst (take_from (rdr pre s PossiblyIncomplete)) = Inl (Incomplete d)"
  proof (cases rule: cases_result [of s pre PossiblyIncomplete])
    case (Ok y u v)
    then have "take_from (rdr pre (u @ v @ t) PossiblyIncomplete) =
        (Inr y, rdr (pre @ u) (v @ t) PossiblyIncomplete)"
      using ok_stable [of pre u v PossiblyIncomplete y] by simp
    with run Ok assms(3) show thesis by simp
  next
    case (Err e u v)
    then show thesis
      using that err_stable [of pre s e pre t] run by (cases "\<exists>d. e = Incomplete d") auto
  qed
  with run show ?thesis
    using incomplete_pos deficit_lower_bound [OF d, of pre t x] by simp
qed

end

interpretation u8_codec: codec rd_take_u8 write_u8 "\<lambda>_. True"
  by (intro codec.intro codec_axioms.intro contract_rules)
    (auto simp: encodes_def wire_simps intro: parse_rules)

interpretation u16_codec: codec rd_take_u16 write_u16 "\<lambda>_. True"
  by (intro codec.intro codec_axioms.intro contract_rules)
    (auto simp: encodes_def wire_simps intro: parse_rules)

interpretation u32_codec: codec rd_take_u32 write_u32 "\<lambda>_. True"
  by (intro codec.intro codec_axioms.intro contract_rules)
    (auto simp: encodes_def wire_simps intro: parse_rules)

interpretation u64_codec: codec rd_take_u64 write_u64 "\<lambda>_. True"
  by (intro codec.intro codec_axioms.intro contract_rules)
    (auto simp: encodes_def wire_simps intro: parse_rules)

interpretation u128_codec: codec rd_take_u128 write_u128 "\<lambda>_. True"
  by (intro codec.intro codec_axioms.intro contract_rules)
    (auto simp: encodes_def wire_simps intro: parse_rules)

interpretation array_codec: codec "take_from_array n" write_all "\<lambda>bs. length bs = n" for n
  by (intro codec.intro codec_axioms.intro contract_rules)
    (auto simp: encodes_def wire_simps intro: parse_rules)

interpretation ipv4_codec: codec take_from_ipv4 write_onto_ipv4 "\<lambda>_. True"
  by (intro codec.intro codec_axioms.intro contract_rules)
    (auto simp: encodes_def wire_simps intro: parse_rules)

interpretation ipv6_codec: codec take_from_ipv6 write_onto_ipv6 "\<lambda>_. True"
  by (intro codec.intro codec_axioms.intro contract_rules)
    (auto simp: encodes_def wire_simps intro: parse_rules)

end
