(* ===== verification/ChanCell.thy ===== *)
theory ChanCell
  imports Codec
begin

text \<open>
  Channel cells of the crate \<open>tor-cell\<close>.
  \<^item> \<open>chancell.rs\<close>: circuit identifiers, commands and the requirements a command has on
    the circuit identifier (\<open>allows_circid\<close>, \<open>accepts_circid_val\<close>).
  \<^item> \<open>chancell/msg.rs\<close>: one group of definitions per message body, each with the decoder
    \<open>take_from_\<dots>\<close> and the encoder \<open>encode_onto_\<dots>\<close>, and the enumeration \<open>AnyChanMsg\<close>
    with its dispatch.
  \<^item> \<open>restrict.rs\<close>: the decoder of a restricted message type.
  The bodies that delimit themselves are interpretations of the locale \<open>codec\<close>; those that
  read to the end of the cell (\<open>Vpadding\<close>, \<open>Versions\<close>, \<open>Unrecognized\<close>) keep the weaker
  contract \<open>body_readable\<close>.
\<close>

section \<open>Circuit identifiers and commands\<close>

definition CELL_DATA_LEN :: nat where
  [simp]: "CELL_DATA_LEN = 509"

text \<open>
  \<open>CircId\<close> wraps a \<open>NonZeroU32\<close>; \<open>Option<CircId>\<close> is an optional word, and
  \<open>CircId::new\<close> is the only way to make one.
\<close>

type_synonym circ_id = u32

definition CircId_new :: "u32 \<Rightarrow> circ_id option" where
  "CircId_new val = (if val = 0 then None else Some val)"

definition CircId_get_or_zero :: "circ_id option \<Rightarrow> u32" where
  "CircId_get_or_zero c = (case c of Some circ_id \<Rightarrow> circ_id | None \<Rightarrow> 0)"

type_synonym ChanCmd = u8

abbreviation (input) PADDING :: ChanCmd where "PADDING \<equiv> 0"
abbreviation (input) CREATE :: ChanCmd where "CREATE \<equiv> 1"
abbreviation (input) CREATED :: ChanCmd where "CREATED \<equiv> 2"
abbreviation (input) RELAY :: ChanCmd where "RELAY \<equiv> 3"
abbreviation (input) DESTROY :: ChanCmd where "DESTROY \<equiv> 4"
abbreviation (input) CREATE_FAST :: ChanCmd where "CREATE_FAST \<equiv> 5"
abbreviation (input) CREATED_FAST :: ChanCmd where "CREATED_FAST \<equiv> 6"
abbreviation (input) VERSIONS :: ChanCmd where "VERSIONS \<equiv> 7"
abbreviation (input) NETINFO :: ChanCmd where "NETINFO \<equiv> 8"
abbreviation (input) RELAY_EARLY :: ChanCmd where "RELAY_EARLY \<equiv> 9"
abbreviation (input) CREATE2 :: ChanCmd where "CREATE2 \<equiv> 10"
abbreviation (input) CREATED2 :: ChanCmd where "CREATED2 \<equiv> 11"
abbreviation (input) PADDING_NEGOTIATE :: ChanCmd where "PADDING_NEGOTIATE \<equiv> 12"
abbreviation (input) VPADDING :: ChanCmd where "VPADDING \<equiv> 128"
abbreviation (input) CERTS :: ChanCmd where "CERTS \<equiv> 129"
abbreviation (input) AUTH_CHALLENGE :: ChanCmd where "AUTH_CHALLENGE \<equiv> 130"
abbreviation (input) AUTHENTICATE :: ChanCmd where "AUTHENTICATE \<equiv> 131"
abbreviation (input) AUTHORIZE :: ChanCmd where "AUTHORIZE \<equiv> 132"

datatype CircIdReq = WantNone | WantSome | AnyId

definition is_var_cell :: "ChanCmd \<Rightarrow> bool" where
  "is_var_cell cmd \<longleftrightarrow> cmd = VERSIONS \<or> 128 \<le> cmd"

definition allows_circid :: "ChanCmd \<Rightarrow> CircIdReq" where
  "allows_circid cmd =
     (if cmd \<in> set [PADDING, NETINFO, PADDING_NEGOTIATE, VERSIONS, VPADDING, CERTS,
                    AUTH_CHALLENGE, AUTHENTICATE] then WantNone
      else if cmd \<in> set [CREATE, CREATED, RELAY, DESTROY, CREATE_FAST, CREATED_FAST,
                    RELAY_EARLY, CREATE2, CREATED2] then WantSome
      else AnyId)"

definition accepts_circid_val :: "ChanCmd \<Rightarrow> circ_id option \<Rightarrow> bool" where
  "accepts_circid_val cmd i =
     (case allows_circid cmd of
        WantNone \<Rightarrow> i = None
      | WantSome \<Rightarrow> i \<noteq> None
      | AnyId \<Rightarrow> True)"

section \<open>Message bodies\<close>

subsection \<open>Padding\<close>

definition take_from_padding :: "unit rd" where
  "take_from_padding = eret ()"

definition encode_onto_padding :: enc where
  [wire_simps]: "encode_onto_padding = write_all []"

definition take_from_vpadding :: "u16 rd" where
  "take_from_vpadding =
     with_remaining (\<lambda>n.
     if n > 65535 then efail (InvalidMessage ''Too many bytes in VPADDING cell'')
     else eret (word_of_nat n))"

definition encode_onto_vpadding :: "u16 \<Rightarrow> enc" where
  [wire_simps]: "encode_onto_vpadding len = write_zeros (unat len)"

subsection \<open>Handshakes of a fixed length\<close>

definition TAP_C_HANDSHAKE_LEN :: nat where
  [simp]: "TAP_C_HANDSHAKE_LEN = 128 + 16 + 42"

definition TAP_S_HANDSHAKE_LEN :: nat where
  [simp]: "TAP_S_HANDSHAKE_LEN = 128 + 20"

definition FAST_C_HANDSHAKE_LEN :: nat where
  [simp]: "FAST_C_HANDSHAKE_LEN = 20"

definition FAST_S_HANDSHAKE_LEN :: nat where
  [simp]: "FAST_S_HANDSHAKE_LEN = 20 + 20"

text \<open>The macro \<open>fixed_len_handshake!\<close> for a length \<open>len\<close>.\<close>

definition take_from_handshake :: "nat \<Rightarrow> byte list rd" where
  "take_from_handshake len = ebind (rd_take len) (\<lambda>b. eret b)"

definition encode_onto_handshake :: "byte list \<Rightarrow> enc" where
  [wire_simps]: "encode_onto_handshake handshake = write_all handshake"

subsection \<open>Create2 and Created2\<close>

type_synonym HandshakeType = u16

record create2 =
  c2_handshake_type :: HandshakeType
  c2_handshake :: "byte list"

definition take_from_create2 :: "create2 rd" where
  "take_from_create2 =
     ebind rd_take_u16 (\<lambda>handshake_type.
     ebind rd_take_u16 (\<lambda>hlen.
     ebind (rd_take (unat hlen)) (\<lambda>handshake.
     eret \<lparr>c2_handshake_type = handshake_type, c2_handshake = handshake\<rparr>)))"

text \<open>A length written as a \<open>u16\<close> (or \<open>u8\<close>), or the error \<open>BadLengthValue\<close>.\<close>

definition write_len_u16 :: "nat \<Rightarrow> enc" where
  "write_len_u16 n =
     (case try_from_usize n of None \<Rightarrow> write_err EncBadLengthValue | Some l \<Rightarrow> write_u16 l)"

definition write_len_u8 :: "nat \<Rightarrow> enc" where
  "write_len_u8 n =
     (case try_from_usize n of None \<Rightarrow> write_err EncBadLengthValue | Some l \<Rightarrow> write_u8 l)"

definition encode_onto_create2 :: "create2 \<Rightarrow> enc" where
  "encode_onto_create2 m =
     wconcat [write_u16 (c2_handshake_type m), write_len_u16 (length (c2_handshake m)),
              write_all (c2_handshake m)]"

definition take_from_created2 :: "byte list rd" where
  "take_from_created2 =
     ebind rd_take_u16 (\<lambda>hlen.
     ebind (rd_take (unat hlen)) (\<lambda>handshake. eret handshake))"

definition encode_onto_created2 :: "byte list \<Rightarrow> enc" where
  "encode_onto_created2 handshake =
     wconcat [write_len_u16 (length handshake), write_all handshake]"

subsection \<open>Relay and Destroy\<close>

definition take_from_relay :: "byte list rd" where
  "take_from_relay = ebind (rd_take CELL_DATA_LEN) (\<lambda>body. eret body)"

definition encode_onto_relay :: "byte list \<Rightarrow> enc" where
  [wire_simps]: "encode_onto_relay body = write_all body"

text \<open>
  \<open>Relay::new\<close>: a body shorter than a cell is extended with zeros; a longer one is a panic,
  here \<open>None\<close>.
\<close>

definition Relay_new :: "byte list \<Rightarrow> byte list option" where
  "Relay_new body =
     (if length body \<le> CELL_DATA_LEN
      then Some (body @ replicate (CELL_DATA_LEN - length body) 0) else None)"

type_synonym DestroyReason = u8

definition take_from_destroy :: "DestroyReason rd" where
  "take_from_destroy = ebind rd_take_u8 (\<lambda>reason. eret reason)"

definition encode_onto_destroy :: "DestroyReason \<Rightarrow> enc" where
  [wire_simps]: "encode_onto_destroy reason = write_u8 reason"

definition DestroyReason_human_str :: "DestroyReason \<Rightarrow> string" where
  "DestroyReason_human_str r =
     (case map_of
        [(0, ''No reason''), (1, ''Protocol violation''), (2, ''Internal error''),
         (3, ''Client sent a TRUNCATE command''),
         (4, ''Relay is hibernating and not accepting requests''),
         (5, ''Relay ran out of resources''), (6, ''Couldn't connect to relay''),
         (7, ''Connected to relay with different OR identity''),
         (8, ''The OR channels carrying this circuit died''),
         (9, ''Circuit expired for being too dirty or old''),
         (10, ''Circuit construction took too long''),
         (11, ''Circuit was destroyed without client truncate''),
         (12, ''No such onion service'')] r of
        Some s \<Rightarrow> s | None \<Rightarrow> ''Unrecognized reason'')"

subsection \<open>Netinfo\<close>

record netinfo =
  ni_timestamp :: u32
  ni_their_addr :: "ip_addr option"
  ni_my_addr :: "ip_addr list"

fun is_unspecified :: "ip_addr \<Rightarrow> bool" where
  "is_unspecified (V4 a) = (a = 0)"
| "is_unspecified (V6 a) = (a = 0)"

fun enc_one_netinfo_addr :: "ip_addr \<Rightarrow> enc" where
  "enc_one_netinfo_addr (V4 ipv4) = wconcat [write_u8 0x04, write_u8 4, write_all (octets_v4 ipv4)]"
| "enc_one_netinfo_addr (V6 ipv6) = wconcat [write_u8 0x06, write_u8 16, write_all (octets_v6 ipv6)]"

definition take_one_netinfo_addr :: "ip_addr option rd" where
  "take_one_netinfo_addr =
     ebind rd_take_u8 (\<lambda>atype.
     ebind rd_take_u8 (\<lambda>alen.
     ebind (rd_take (unat alen)) (\<lambda>abody.
     if atype = 0x04 \<and> alen = 4 then
       ebind (elift (index_at abody 0)) (\<lambda>b0.
       ebind (elift (index_at abody 1)) (\<lambda>b1.
       ebind (elift (index_at abody 2)) (\<lambda>b2.
       ebind (elift (index_at abody 3)) (\<lambda>b3.
       eret (Some (V4 (from_be_bytes [b0, b1, b2, b3])))))))
     else if atype = 0x06 \<and> alen = 16 then
       ebind (elift (copy_from_slice 16 abody)) (\<lambda>bytes. eret (Some (V6 (from_be_bytes bytes))))
     else eret None)))"

definition Netinfo_from_client :: "ip_addr option \<Rightarrow> netinfo" where
  "Netinfo_from_client their_addr =
     \<lparr>ni_timestamp = 0, ni_their_addr = their_addr, ni_my_addr = []\<rparr>"

definition Netinfo_from_relay :: "u32 \<Rightarrow> ip_addr option \<Rightarrow> ip_addr list \<Rightarrow> netinfo" where
  "Netinfo_from_relay timestamp their_addr my_addrs =
     \<lparr>ni_timestamp = timestamp, ni_their_addr = their_addr, ni_my_addr = my_addrs\<rparr>"

text \<open>The reported time, in seconds since the epoch.\<close>

definition Netinfo_timestamp :: "netinfo \<Rightarrow> nat option" where
  "Netinfo_timestamp m = (if ni_timestamp m = 0 then None else Some (unat (ni_timestamp m)))"

definition encode_onto_netinfo :: "netinfo \<Rightarrow> enc" where
  "encode_onto_netinfo m =
     wconcat [write_u32 (ni_timestamp m),
              enc_one_netinfo_addr
                (case ni_their_addr m of Some a \<Rightarrow> a | None \<Rightarrow> V4 0),
              write_len_u8 (length (ni_my_addr m)),
              wconcat (map enc_one_netinfo_addr (ni_my_addr m))]"

definition take_from_netinfo :: "netinfo rd" where
  "take_from_netinfo =
     ebind rd_take_u32 (\<lambda>timestamp.
     ebind take_one_netinfo_addr (\<lambda>their_addr.
     ebind rd_take_u8 (\<lambda>my_n_addrs.
     ebind (ereplicate (unat my_n_addrs) take_one_netinfo_addr) (\<lambda>my_addr.
     eret \<lparr>ni_timestamp = timestamp,
           ni_their_addr = Option.bind their_addr (\<lambda>a. if is_unspecified a then None else Some a),
           ni_my_addr = List.map_filter id my_addr\<rparr>))))"

subsection \<open>Versions\<close>

definition Versions_new :: "u16 list \<Rightarrow> u16 list option" where
  "Versions_new versions = (if length versions < 65535 div 2 then Some versions else None)"

definition encode_onto_versions :: "u16 list \<Rightarrow> enc" where
  "encode_onto_versions versions = wconcat (map write_u16 versions)"

definition encode_for_handshake :: "u16 list \<Rightarrow> encode_error + byte list" where
  "encode_for_handshake versions =
     (let v = wconcat [write_u16 0, write_u8 VERSIONS,
                       write_u16 (word_of_nat (length versions * 2)),
                       encode_onto_versions versions]
      in case snd v of Inl e \<Rightarrow> Inl e | Inr _ \<Rightarrow> Inr (fst v))"

definition best_shared_link_protocol :: "u16 list \<Rightarrow> u16 list \<Rightarrow> u16 option" where
  "best_shared_link_protocol versions my_protos =
     (let p = foldl max 0 (filter (\<lambda>p. p \<in> set versions) my_protos)
      in if p = 0 then None else Some p)"

lemma rd_take_u16_decreases:
  assumes "0 < rd_remaining r" "rd_take_u16 r = (Inr v, r')"
  shows "rd_remaining r' < rd_remaining r"
proof -
  have "reader_wf r" using assms(1) by (simp add: rd_remaining_def reader_wf_def)
  then obtain pre s c where "r = rdr pre s c" using reader_wf_imp_rdr by blast
  with assms show ?thesis
    by (auto simp: rd_take_u16_def ebind_eq_Inr eret_def take_from_array_eq rd_take_rdr
        split: if_splits)
qed

text \<open>The loop \<open>while r.remaining() > 0\<close>, with the versions read so far.\<close>

function versions_loop :: "u16 list \<Rightarrow> u16 list rd" where
  "versions_loop versions r =
     (if 0 < rd_remaining r
      then (case rd_take_u16 r of
              (Inl e, r') \<Rightarrow> (Inl e, r')
            | (Inr v, r') \<Rightarrow> versions_loop (versions @ [v]) r')
      else (Inr versions, r))"
  by auto
termination
  by (relation "measure (\<lambda>(_, r). rd_remaining r)") (auto intro: rd_take_u16_decreases [OF _ sym])

declare versions_loop.simps [simp del]

definition take_from_versions :: "u16 list rd" where
  "take_from_versions = versions_loop []"

subsection \<open>PaddingNegotiate\<close>

abbreviation (input) PADDING_NEGOTIATE_STOP :: u8 where "PADDING_NEGOTIATE_STOP \<equiv> 1"
abbreviation (input) PADDING_NEGOTIATE_START :: u8 where "PADDING_NEGOTIATE_START \<equiv> 2"

record padding_negotiate =
  pn_command :: u8
  pn_ito_low_ms :: u16
  pn_ito_high_ms :: u16

definition PaddingNegotiate_start_default :: padding_negotiate where
  "PaddingNegotiate_start_default =
     \<lparr>pn_command = PADDING_NEGOTIATE_START, pn_ito_low_ms = 0, pn_ito_high_ms = 0\<rparr>"

definition PaddingNegotiate_start :: "u16 \<Rightarrow> u16 \<Rightarrow> padding_negotiate" where
  "PaddingNegotiate_start ito_low ito_high =
     \<lparr>pn_command = PADDING_NEGOTIATE_START, pn_ito_low_ms = ito_low, pn_ito_high_ms = ito_high\<rparr>"

definition PaddingNegotiate_stop :: padding_negotiate where
  "PaddingNegotiate_stop =
     \<lparr>pn_command = PADDING_NEGOTIATE_STOP, pn_ito_low_ms = 0, pn_ito_high_ms = 0\<rparr>"

definition encode_onto_padding_negotiate :: "padding_negotiate \<Rightarrow> enc" where
  "encode_onto_padding_negotiate m =
     wconcat [write_u8 0, write_u8 (pn_command m), write_u16 (pn_ito_low_ms m),
              write_u16 (pn_ito_high_ms m)]"

definition take_from_padding_negotiate :: "padding_negotiate rd" where
  "take_from_padding_negotiate =
     ebind rd_take_u8 (\<lambda>v.
     if v \<noteq> 0 then efail (InvalidMessage ''Unrecognized padding negotiation version'')
     else
       ebind rd_take_u8 (\<lambda>cmd.
       ebind rd_take_u16 (\<lambda>ito_low_ms.
       ebind rd_take_u16 (\<lambda>ito_high_ms.
       eret \<lparr>pn_command = cmd, pn_ito_low_ms = ito_low_ms, pn_ito_high_ms = ito_high_ms\<rparr>))))"

subsection \<open>Certs\<close>

record tor_cert =
  tc_certtype :: u8
  tc_cert :: "byte list"

definition enc_one_tor_cert :: "tor_cert \<Rightarrow> enc" where
  "enc_one_tor_cert c =
     wconcat [write_u8 (tc_certtype c), write_len_u16 (length (tc_cert c)), write_all (tc_cert c)]"

definition take_one_tor_cert :: "tor_cert rd" where
  "take_one_tor_cert =
     ebind rd_take_u8 (\<lambda>certtype.
     ebind rd_take_u16 (\<lambda>certlen.
     ebind (rd_take (unat certlen)) (\<lambda>cert.
     eret \<lparr>tc_certtype = certtype, tc_cert = cert\<rparr>)))"

definition push_cert_body :: "u8 \<Rightarrow> byte list \<Rightarrow> tor_cert list \<Rightarrow> tor_cert list" where
  "push_cert_body certtype cert certs = certs @ [\<lparr>tc_certtype = certtype, tc_cert = cert\<rparr>]"

definition cert_body :: "tor_cert list \<Rightarrow> u8 \<Rightarrow> byte list option" where
  "cert_body certs tp = map_option tc_cert (find (\<lambda>c. tc_certtype c = tp) certs)"

definition encode_onto_certs :: "tor_cert list \<Rightarrow> enc" where
  "encode_onto_certs certs =
     wconcat [write_len_u8 (length certs), wconcat (map enc_one_tor_cert certs)]"

definition take_from_certs :: "tor_cert list rd" where
  "take_from_certs = ebind rd_take_u8 (\<lambda>n. ereplicate (unat n) take_one_tor_cert)"

subsection \<open>AuthChallenge and Authenticate\<close>

definition CHALLENGE_LEN :: nat where
  [simp]: "CHALLENGE_LEN = 32"

record auth_challenge =
  ac_challenge :: "byte list"
  ac_methods :: "u16 list"

definition encode_onto_auth_challenge :: "auth_challenge \<Rightarrow> enc" where
  "encode_onto_auth_challenge m =
     wconcat [write_all (ac_challenge m), write_len_u16 (length (ac_methods m)),
              wconcat (map write_u16 (ac_methods m))]"

definition take_from_auth_challenge :: "auth_challenge rd" where
  "take_from_auth_challenge =
     ebind (rd_extract (take_from_array CHALLENGE_LEN)) (\<lambda>challenge.
     ebind rd_take_u16 (\<lambda>n_methods.
     ebind (ereplicate (unat n_methods) rd_take_u16) (\<lambda>ms.
     eret \<lparr>ac_challenge = challenge, ac_methods = ms\<rparr>)))"

record authenticate =
  au_authtype :: u16
  au_auth :: "byte list"

definition encode_onto_authenticate :: "authenticate \<Rightarrow> enc" where
  "encode_onto_authenticate m =
     wconcat [write_u16 (au_authtype m), write_len_u16 (length (au_auth m)), write_all (au_auth m)]"

definition take_from_authenticate :: "authenticate rd" where
  "take_from_authenticate =
     ebind rd_take_u16 (\<lambda>authtype.
     ebind rd_take_u16 (\<lambda>authlen.
     ebind (rd_take (unat authlen)) (\<lambda>auth.
     eret \<lparr>au_authtype = authtype, au_auth = auth\<rparr>)))"

subsection \<open>Unrecognized\<close>

record unrecognized =
  un_cmd :: ChanCmd
  un_content :: "byte list"

definition encode_onto_unrecognized :: "unrecognized \<Rightarrow> enc" where
  [wire_simps]: "encode_onto_unrecognized m = write_all (un_content m)"

definition take_from_unrecognized :: "unrecognized rd" where
  "take_from_unrecognized =
     with_remaining (\<lambda>n. ebind (rd_take n) (\<lambda>content. eret \<lparr>un_cmd = 0, un_content = content\<rparr>))"

definition decode_with_cmd :: "ChanCmd \<Rightarrow> unrecognized rd" where
  "decode_with_cmd cmd = ebind take_from_unrecognized (\<lambda>u. eret (u\<lparr>un_cmd := cmd\<rparr>))"

section \<open>Any message\<close>

datatype any_chan_msg =
    Padding
  | Vpadding u16
  | Create "byte list"
  | CreateFast "byte list"
  | Create2 create2
  | Created "byte list"
  | CreatedFast "byte list"
  | Created2 "byte list"
  | Relay "byte list"
  | RelayEarly "byte list"
  | Destroy DestroyReason
  | Netinfo netinfo
  | Versions "u16 list"
  | PaddingNegotiate padding_negotiate
  | Certs "tor_cert list"
  | AuthChallenge auth_challenge
  | Authenticate authenticate
  | Unrecognized unrecognized

fun AnyChanMsg_cmd :: "any_chan_msg \<Rightarrow> ChanCmd" where
  "AnyChanMsg_cmd Padding = PADDING"
| "AnyChanMsg_cmd (Vpadding _) = VPADDING"
| "AnyChanMsg_cmd (Create _) = CREATE"
| "AnyChanMsg_cmd (CreateFast _) = CREATE_FAST"
| "AnyChanMsg_cmd (Create2 _) = CREATE2"
| "AnyChanMsg_cmd (Created _) = CREATED"
| "AnyChanMsg_cmd (CreatedFast _) = CREATED_FAST"
| "AnyChanMsg_cmd (Created2 _) = CREATED2"
| "AnyChanMsg_cmd (Relay _) = RELAY"
| "AnyChanMsg_cmd (RelayEarly _) = RELAY_EARLY"
| "AnyChanMsg_cmd (Destroy _) = DESTROY"
| "AnyChanMsg_cmd (Netinfo _) = NETINFO"
| "AnyChanMsg_cmd (Versions _) = VERSIONS"
| "AnyChanMsg_cmd (PaddingNegotiate _) = PADDING_NEGOTIATE"
| "AnyChanMsg_cmd (Certs _) = CERTS"
| "AnyChanMsg_cmd (AuthChallenge _) = AUTH_CHALLENGE"
| "AnyChanMsg_cmd (Authenticate _) = AUTHENTICATE"
| "AnyChanMsg_cmd (Unrecognized u) = un_cmd u"

fun AnyChanMsg_encode_onto :: "any_chan_msg \<Rightarrow> enc" where
  "AnyChanMsg_encode_onto Padding = encode_onto_padding"
| "AnyChanMsg_encode_onto (Vpadding m) = encode_onto_vpadding m"
| "AnyChanMsg_encode_onto (Create m) = encode_onto_handshake m"
| "AnyChanMsg_encode_onto (CreateFast m) = encode_onto_handshake m"
| "AnyChanMsg_encode_onto (Create2 m) = encode_onto_create2 m"
| "AnyChanMsg_encode_onto (Created m) = encode_onto_handshake m"
| "AnyChanMsg_encode_onto (CreatedFast m) = encode_onto_handshake m"
| "AnyChanMsg_encode_onto (Created2 m) = encode_onto_created2 m"
| "AnyChanMsg_encode_onto (Relay m) = encode_onto_relay m"
| "AnyChanMsg_encode_onto (RelayEarly m) = encode_onto_relay m"
| "AnyChanMsg_encode_onto (Destroy m) = encode_onto_destroy m"
| "AnyChanMsg_encode_onto (Netinfo m) = encode_onto_netinfo m"
| "AnyChanMsg_encode_onto (Versions m) = encode_onto_versions m"
| "AnyChanMsg_encode_onto (PaddingNegotiate m) = encode_onto_padding_negotiate m"
| "AnyChanMsg_encode_onto (Certs m) = encode_onto_certs m"
| "AnyChanMsg_encode_onto (AuthChallenge m) = encode_onto_auth_challenge m"
| "AnyChanMsg_encode_onto (Authenticate m) = encode_onto_authenticate m"
| "AnyChanMsg_encode_onto (Unrecognized m) = encode_onto_unrecognized m"

text \<open>\<open>Body::decode_from_reader\<close>, the default method: \<open>extract\<close>.\<close>

definition body_decode :: "('a \<Rightarrow> any_chan_msg) \<Rightarrow> 'a rd \<Rightarrow> any_chan_msg rd" where
  "body_decode con take_from = ebind (rd_extract take_from) (\<lambda>m. eret (con m))"

definition AnyChanMsg_decode_from_reader :: "ChanCmd \<Rightarrow> any_chan_msg rd" where
  "AnyChanMsg_decode_from_reader cmd =
     (if cmd = PADDING then body_decode (\<lambda>_. Padding) take_from_padding
      else if cmd = VPADDING then body_decode Vpadding take_from_vpadding
      else if cmd = CREATE then body_decode Create (take_from_handshake TAP_C_HANDSHAKE_LEN)
      else if cmd = CREATE_FAST then body_decode CreateFast (take_from_handshake FAST_C_HANDSHAKE_LEN)
      else if cmd = CREATE2 then body_decode Create2 take_from_create2
      else if cmd = CREATED then body_decode Created (take_from_handshake TAP_S_HANDSHAKE_LEN)
      else if cmd = CREATED_FAST
        then body_decode CreatedFast (take_from_handshake FAST_S_HANDSHAKE_LEN)
      else if cmd = CREATED2 then body_decode Created2 take_from_created2
      else if cmd = RELAY then body_decode Relay take_from_relay
      else if cmd = RELAY_EARLY then body_decode RelayEarly take_from_relay
      else if cmd = DESTROY then body_decode Destroy take_from_destroy
      else if cmd = NETINFO then body_decode Netinfo take_from_netinfo
      else if cmd = VERSIONS then body_decode Versions take_from_versions
      else if cmd = PADDING_NEGOTIATE then body_decode PaddingNegotiate take_from_padding_negotiate
      else if cmd = CERTS then body_decode Certs take_from_certs
      else if cmd = AUTH_CHALLENGE then body_decode AuthChallenge take_from_auth_challenge
      else if cmd = AUTHENTICATE then body_decode Authenticate take_from_authenticate
      else ebind (decode_with_cmd cmd) (\<lambda>u. eret (Unrecognized u)))"

text \<open>
  The type the macro \<open>restricted_msg!\<close> declares for a list of commands, with or without the
  clause \<open>_ => Unrecognized\<close>.
\<close>

definition restricted_decode_from_reader :: "ChanCmd list \<Rightarrow> bool \<Rightarrow> ChanCmd \<Rightarrow> any_chan_msg rd" where
  "restricted_decode_from_reader cases unrec cmd =
     (if cmd \<in> set cases then AnyChanMsg_decode_from_reader cmd
      else if unrec then ebind (decode_with_cmd cmd) (\<lambda>u. eret (Unrecognized u))
      else efail (InvalidMessage ''Unexpected command''))"

end
