(* ===== verification/ChanMsg_Laws.thy ===== *)
theory ChanMsg_Laws
  imports ChanCell
begin

text \<open>
  Laws of the channel messages: every body decoder keeps its contract, and every body that a
  cell can hold is read back from its encoding. The bodies that delimit themselves are
  interpretations of the locale \<open>codec\<close>.
\<close>

section \<open>Lengths and lists on the wire\<close>

lemma write_len_u16_ok [wire_simps]:
  "n < 65536 \<Longrightarrow> write_len_u16 n = (to_be_bytes (word_of_nat n :: u16), Inr ())"
  by (simp add: write_len_u16_def try_from_usize_def wire_simps)

lemma write_len_u16_err [wire_simps]:
  "65536 \<le> n \<Longrightarrow> write_len_u16 n = ([], Inl EncBadLengthValue)"
  by (simp add: write_len_u16_def try_from_usize_def wire_simps)

lemma write_len_u8_ok [wire_simps]:
  "n < 256 \<Longrightarrow> write_len_u8 n = ([word_of_nat n], Inr ())"
  by (simp add: write_len_u8_def try_from_usize_def wire_simps)

lemma write_len_u8_err [wire_simps]:
  "256 \<le> n \<Longrightarrow> write_len_u8 n = ([], Inl EncBadLengthValue)"
  by (simp add: write_len_u8_def try_from_usize_def wire_simps)

lemma unat_word_of_nat_u16 [simp]: "n < 65536 \<Longrightarrow> unat (word_of_nat n :: u16) = n"
  by (rule unat_of_nat_small) simp

lemma unat_word_of_nat_u8 [simp]: "n < 256 \<Longrightarrow> unat (word_of_nat n :: u8) = n"
  by (rule unat_of_nat_small) simp

lemma wconcat_map:
  "(\<And>x. x \<in> set xs \<Longrightarrow> f x = (g x, Inr ())) \<Longrightarrow> wconcat (map f xs) = (concat (map g xs), Inr ())"
  by (induction xs) (simp_all add: wire_simps)

lemma wconcat_map_u16 [wire_simps]:
  "wconcat (map write_u16 vs) = (concat (map to_be_bytes vs), Inr ())"
  by (rule wconcat_map) (simp add: wire_simps)

lemma parses_list:
  "(\<And>x. x \<in> set xs \<Longrightarrow> parses p (g x) (h x)) \<Longrightarrow> n = length xs \<Longrightarrow>
     parses (ereplicate n p) (concat (map g xs)) (map h xs)"
  by (rule parses_ereplicate) (auto simp: list_all2_conv_all_nth)

lemma parses_u16_list:
  "n = length vs \<Longrightarrow> parses (ereplicate n rd_take_u16) (concat (map to_be_bytes vs)) vs"
  using parses_list [of vs rd_take_u16 to_be_bytes id n] by (simp add: parse_rules)

section \<open>Bodies that delimit themselves\<close>

lemmas codecI = codec.intro [OF _ codec_axioms.intro]

interpretation handshake_codec:
  codec "take_from_handshake n" encode_onto_handshake "\<lambda>h. length h = n" for n
  by (rule codecI; unfold take_from_handshake_def)
    (intro contract_rules, auto simp: encodes_def wire_simps parses_def run_simps)

interpretation create2_codec:
  codec take_from_create2 encode_onto_create2 "\<lambda>m. length (c2_handshake m) < 65536"
  by (rule codecI; unfold take_from_create2_def)
    (intro contract_rules, auto simp: encode_onto_create2_def encodes_def wire_simps parses_def run_simps)

interpretation created2_codec:
  codec take_from_created2 encode_onto_created2 "\<lambda>h. length h < 65536"
  by (rule codecI; unfold take_from_created2_def)
    (intro contract_rules, auto simp: encode_onto_created2_def encodes_def wire_simps parses_def run_simps)

interpretation relay_codec: codec take_from_relay encode_onto_relay "\<lambda>b. length b = CELL_DATA_LEN"
  by (rule codecI; unfold take_from_relay_def)
    (intro contract_rules, auto simp: encodes_def wire_simps parses_def run_simps)

interpretation destroy_codec: codec take_from_destroy encode_onto_destroy "\<lambda>_. True"
  by (rule codecI; unfold take_from_destroy_def)
    (intro contract_rules, auto simp: encodes_def wire_simps parses_def run_simps)

interpretation padding_negotiate_codec:
  codec take_from_padding_negotiate encode_onto_padding_negotiate "\<lambda>_. True"
  by (rule codecI; unfold take_from_padding_negotiate_def)
    (intro contract_rules,
     auto simp: encode_onto_padding_negotiate_def encodes_def wire_simps parses_def run_simps)

interpretation authenticate_codec:
  codec take_from_authenticate encode_onto_authenticate "\<lambda>m. length (au_auth m) < 65536"
  by (rule codecI; unfold take_from_authenticate_def)
    (intro contract_rules,
     auto simp: encode_onto_authenticate_def encodes_def wire_simps parses_def run_simps)

interpretation tor_cert_codec:
  codec take_one_tor_cert enc_one_tor_cert "\<lambda>c. length (tc_cert c) < 65536"
  by (rule codecI; unfold take_one_tor_cert_def)
    (intro contract_rules,
     auto simp: enc_one_tor_cert_def encodes_def wire_simps parses_def run_simps)

subsection \<open>Lists of certificates, methods and addresses\<close>

definition certs_wf :: "tor_cert list \<Rightarrow> bool" where
  "certs_wf certs \<longleftrightarrow> length certs < 256 \<and> (\<forall>c\<in>set certs. length (tc_cert c) < 65536)"

lemma certs_roundtrip:
  assumes "certs_wf certs"
  shows "\<exists>bs. encodes (encode_onto_certs certs) bs \<and> parses take_from_certs bs certs"
proof -
  let ?g = "\<lambda>c. fst (enc_one_tor_cert c)"
  have c: "enc_one_tor_cert c = (?g c, Inr ())" "parses take_one_tor_cert (?g c) c" if "c \<in> set certs" for c
    using tor_cert_codec.write_parses [of c "?g c" "snd (enc_one_tor_cert c)"] that assms
    by (auto simp: certs_wf_def prod_eq_iff)
  have "wconcat (map enc_one_tor_cert certs) = (concat (map ?g certs), Inr ())"
    by (rule wconcat_map) (rule c(1))
  then have "encodes (encode_onto_certs certs) (word_of_nat (length certs) # concat (map ?g certs))"
    using assms by (simp add: encode_onto_certs_def certs_wf_def encodes_def wire_simps)
  moreover have "parses (ereplicate (length certs) take_one_tor_cert) (concat (map ?g certs)) certs"
    using parses_list [of certs take_one_tor_cert ?g id] c(2) by simp
  then have "parses take_from_certs (word_of_nat (length certs) # concat (map ?g certs)) certs"
    using assms by (simp add: take_from_certs_def certs_wf_def parses_def ebind_def run_take_u8)
  ultimately show ?thesis by blast
qed

interpretation certs_codec: codec take_from_certs encode_onto_certs certs_wf
  by (rule codecI, unfold take_from_certs_def, intro contract_rules tor_cert_codec.readable_axioms)
    (use certs_roundtrip in \<open>simp add: take_from_certs_def\<close>)

interpretation auth_challenge_codec:
  codec take_from_auth_challenge encode_onto_auth_challenge
    "\<lambda>m. length (ac_challenge m) = CHALLENGE_LEN \<and> length (ac_methods m) < 65536"
proof (rule codecI)
  show "readable take_from_auth_challenge"
    unfolding take_from_auth_challenge_def by (intro contract_rules)
  fix m :: auth_challenge
  assume *: "length (ac_challenge m) = CHALLENGE_LEN \<and> length (ac_methods m) < 65536"
  note ms = parses_u16_list [OF refl, of "ac_methods m", unfolded parses_def, rule_format]
  show "\<exists>bs. encodes (encode_onto_auth_challenge m) bs \<and> parses take_from_auth_challenge bs m"
    using * ms by (auto simp: encode_onto_auth_challenge_def take_from_auth_challenge_def encodes_def
        wire_simps parses_def run_simps rd_extract_def)
qed

fun addr_bytes :: "ip_addr \<Rightarrow> byte list" where
  "addr_bytes (V4 a) = 0x04 # 4 # octets_v4 a"
| "addr_bytes (V6 a) = 0x06 # 16 # octets_v6 a"

lemma enc_one_netinfo_addr_bytes: "enc_one_netinfo_addr a = (addr_bytes a, Inr ())"
  by (cases a) (simp_all add: wire_simps)

lemma list_of_four: "length bs = 4 \<Longrightarrow> [bs ! 0, bs ! 1, bs ! 2, bs ! 3] = bs"
  by (auto simp: length_Suc_conv eval_nat_numeral)

lemma octets_v4 [simp]: "length (octets_v4 a) = 4" "from_be_bytes (octets_v4 a) = a"
  by (simp_all add: octets_v4_def)

lemma octets_v6 [simp]: "length (octets_v6 a) = 16" "from_be_bytes (octets_v6 a) = a"
  by (simp_all add: octets_v6_def)

text \<open>The lengths that are matched are those of the addresses.\<close>

lemma take_one_netinfo_addr_eq:
  "take_one_netinfo_addr =
     ebind rd_take_u8 (\<lambda>atype.
     ebind rd_take_u8 (\<lambda>alen.
     ebind (rd_take (unat alen)) (\<lambda>abody.
     eret (if atype = 0x04 \<and> alen = 4
             then Some (V4 (from_be_bytes [abody ! 0, abody ! 1, abody ! 2, abody ! 3]))
           else if atype = 0x06 \<and> alen = 16 then Some (V6 (from_be_bytes abody))
           else None))))"
  unfolding take_one_netinfo_addr_def
  by (intro arg_cong [of _ _ "ebind rd_take_u8"] ext ebind_rd_take_cong [THEN fun_cong])
    (auto simp: index_at_def copy_from_slice_def elift_def eret_def ebind_def)

lemma parses_netinfo_addr: "parses take_one_netinfo_addr (addr_bytes a) (Some a)"
proof (cases a)
  case (V4 w)
  have "[octets_v4 w ! 0, octets_v4 w ! 1, octets_v4 w ! 2, octets_v4 w ! 3] = octets_v4 w"
    by (rule list_of_four) simp
  with V4 show ?thesis by (simp add: take_one_netinfo_addr_eq parses_def run_simps)
next
  case (V6 w)
  then show ?thesis by (simp add: take_one_netinfo_addr_eq parses_def run_simps)
qed

definition netinfo_wf :: "netinfo \<Rightarrow> bool" where
  "netinfo_wf m \<longleftrightarrow>
     (case ni_their_addr m of Some a \<Rightarrow> \<not> is_unspecified a | None \<Rightarrow> True) \<and>
     length (ni_my_addr m) < 256"

lemma map_filter_Some: "List.map_filter id (map Some xs) = xs"
  by (induction xs) (simp_all add: List.map_filter_def)

lemma netinfo_roundtrip:
  assumes "netinfo_wf m"
  shows "\<exists>bs. encodes (encode_onto_netinfo m) bs \<and> parses take_from_netinfo bs m"
proof -
  let ?a = "case ni_their_addr m of Some a \<Rightarrow> a | None \<Rightarrow> V4 0"
  let ?bs = "to_be_bytes (ni_timestamp m) @ addr_bytes ?a @
    word_of_nat (length (ni_my_addr m)) # concat (map addr_bytes (ni_my_addr m))"
  have n: "length (ni_my_addr m) < 256" using assms by (simp add: netinfo_wf_def)
  have w: "wconcat (map enc_one_netinfo_addr (ni_my_addr m)) =
      (concat (map addr_bytes (ni_my_addr m)), Inr ())"
    by (rule wconcat_map) (rule enc_one_netinfo_addr_bytes)
  have "encodes (encode_onto_netinfo m) ?bs"
    using n w by (simp add: encode_onto_netinfo_def encodes_def enc_one_netinfo_addr_bytes wire_simps)
  moreover have "parses (ereplicate (length (ni_my_addr m)) take_one_netinfo_addr)
      (concat (map addr_bytes (ni_my_addr m))) (map Some (ni_my_addr m))"
    by (rule parses_list) (rule parses_netinfo_addr, simp)
  moreover have "Option.bind (Some ?a) (\<lambda>a. if is_unspecified a then None else Some a) = ni_their_addr m"
    using assms by (auto simp: netinfo_wf_def split: option.splits)
  ultimately have "encodes (encode_onto_netinfo m) ?bs \<and> parses take_from_netinfo ?bs m"
    using n parses_netinfo_addr [of ?a]
    by (simp add: take_from_netinfo_def parses_def run_simps map_filter_Some)
  then show ?thesis by blast
qed

lemma readable_take_one_netinfo_addr [contract_rules]: "readable take_one_netinfo_addr"
  unfolding take_one_netinfo_addr_eq by (intro contract_rules)

interpretation netinfo_codec: codec take_from_netinfo encode_onto_netinfo netinfo_wf
  by (rule codecI, unfold take_from_netinfo_def, intro contract_rules)
    (use netinfo_roundtrip in \<open>simp add: take_from_netinfo_def\<close>)

section \<open>Bodies that end with the cell\<close>

lemma body_readable_vpadding [contract_rules]: "body_readable take_from_vpadding"
  unfolding take_from_vpadding_def by (intro contract_rules)

lemma body_readable_unrecognized: "body_readable take_from_unrecognized"
  unfolding take_from_unrecognized_def by (intro contract_rules)

lemma body_readable_decode_with_cmd [contract_rules]: "body_readable (decode_with_cmd cmd)"
  unfolding decode_with_cmd_def by (intro contract_rules body_readable_unrecognized)

lemma decode_with_cmd_rdr:
  "decode_with_cmd cmd (rdr pre s c) = (Inr \<lparr>un_cmd = cmd, un_content = s\<rparr>, rdr (pre @ s) [] c)"
  by (simp add: decode_with_cmd_def take_from_unrecognized_def run_simps)

text \<open>The loop of \<open>Versions\<close> reads two bytes per turn, and an odd byte at the end is an error.\<close>

lemma versions_loop_ok:
  "versions_loop acc (rdr pre (concat (map to_be_bytes vs)) c) =
     (Inr (acc @ vs), rdr (pre @ concat (map to_be_bytes vs)) [] c)"
proof (induction vs arbitrary: acc pre)
  case Nil
  show ?case by (simp add: versions_loop.simps)
next
  case (Cons v vs)
  have "0 < rd_remaining (rdr pre (to_be_bytes v @ concat (map to_be_bytes vs)) c)" by simp
  then show ?case
    using Cons.IH [of "acc @ [v]" "pre @ to_be_bytes v"]
    by (subst versions_loop.simps) (simp add: run_simps)
qed

lemma body_readable_versions_loop: "body_readable (versions_loop acc)"
proof (rule body_readable_loop [where p = rd_take_u16])
  show "versions_loop acc (rdr pre s c) =
      ebind rd_take_u16 (\<lambda>v. versions_loop (acc @ [v])) (rdr pre s c)" if "s \<noteq> []" for acc pre s c
    using that by (subst versions_loop.simps) (simp add: ebind_def)
  show "versions_loop acc (rdr pre [] c) = (Inr acc, rdr pre [] c)" for acc pre c
    by (simp add: versions_loop.simps)
  show "body_readable rd_take_u16" by (rule contract_rules)
  show "length v < length s" if "s \<noteq> []" "rd_take_u16 (rdr pre s c) = (Inr x, rdr (pre @ u) v c)"
    for s pre c x u v
    using rd_take_u16_decreases [of "rdr pre s c"] that by simp
qed

lemma body_readable_take_from_versions [contract_rules]: "body_readable take_from_versions"
  by (simp add: take_from_versions_def body_readable_versions_loop)

section \<open>Any message\<close>

lemma readable_chan_bodies [contract_rules]:
  "readable take_from_padding" "readable (take_from_handshake n)" "readable take_from_create2"
  "readable take_from_created2" "readable take_from_relay" "readable take_from_destroy"
  "readable take_from_netinfo" "readable take_from_padding_negotiate" "readable take_from_certs"
  "readable take_from_auth_challenge" "readable take_from_authenticate"
  by (simp add: take_from_padding_def contract_rules)
    (rule handshake_codec.readable_axioms create2_codec.readable_axioms
      created2_codec.readable_axioms relay_codec.readable_axioms destroy_codec.readable_axioms
      netinfo_codec.readable_axioms padding_negotiate_codec.readable_axioms
      certs_codec.readable_axioms auth_challenge_codec.readable_axioms
      authenticate_codec.readable_axioms)+

lemmas body_readable_chan_bodies [contract_rules] = readable_chan_bodies [THEN readable_body]

lemma body_readable_body_decode [contract_rules]:
  "body_readable p \<Longrightarrow> body_readable (body_decode con p)"
  unfolding body_decode_def by (intro contract_rules)

lemma body_readable_AnyChanMsg: "body_readable (AnyChanMsg_decode_from_reader cmd)"
  unfolding AnyChanMsg_decode_from_reader_def by (intro contract_rules)

interpretation any_chan_msg: body_readable "AnyChanMsg_decode_from_reader cmd" for cmd
  by (rule body_readable_AnyChanMsg)

lemma body_readable_restricted: "body_readable (restricted_decode_from_reader cases unrec cmd)"
  unfolding restricted_decode_from_reader_def
  by (intro contract_rules body_readable_AnyChanMsg)

text \<open>
  The messages that fit what their encoding can express. The lengths of fixed fields are
  those of the Rust array types; a variable part has to fit its length field.
\<close>

definition known_chan_cmds :: "ChanCmd list" where
  "known_chan_cmds =
     [PADDING, VPADDING, CREATE, CREATE_FAST, CREATE2, CREATED, CREATED_FAST, CREATED2, RELAY,
      RELAY_EARLY, DESTROY, NETINFO, VERSIONS, PADDING_NEGOTIATE, CERTS, AUTH_CHALLENGE,
      AUTHENTICATE]"

fun chan_msg_wf :: "any_chan_msg \<Rightarrow> bool" where
  "chan_msg_wf (Create h) = (length h = TAP_C_HANDSHAKE_LEN)"
| "chan_msg_wf (CreateFast h) = (length h = FAST_C_HANDSHAKE_LEN)"
| "chan_msg_wf (Create2 m) = (length (c2_handshake m) < 65536)"
| "chan_msg_wf (Created h) = (length h = TAP_S_HANDSHAKE_LEN)"
| "chan_msg_wf (CreatedFast h) = (length h = FAST_S_HANDSHAKE_LEN)"
| "chan_msg_wf (Created2 h) = (length h < 65536)"
| "chan_msg_wf (Relay b) = (length b = CELL_DATA_LEN)"
| "chan_msg_wf (RelayEarly b) = (length b = CELL_DATA_LEN)"
| "chan_msg_wf (Netinfo m) = netinfo_wf m"
| "chan_msg_wf (Certs m) = certs_wf m"
| "chan_msg_wf (AuthChallenge m) =
     (length (ac_challenge m) = CHALLENGE_LEN \<and> length (ac_methods m) < 65536)"
| "chan_msg_wf (Authenticate m) = (length (au_auth m) < 65536)"
| "chan_msg_wf (Unrecognized m) =
     (un_cmd m \<notin> set known_chan_cmds \<and>
      (is_var_cell (un_cmd m) \<or> length (un_content m) = CELL_DATA_LEN))"
| "chan_msg_wf _ = True"

subsection \<open>Bodies inside a cell\<close>

text \<open>
  What follows the encoding of a body inside its cell: nothing in a variable-length cell,
  padding up to \<open>CELL_DATA_LEN\<close> in a fixed-length one.
\<close>

definition cell_padding :: "ChanCmd \<Rightarrow> byte list \<Rightarrow> byte list \<Rightarrow> bool" where
  "cell_padding cmd bs pad \<longleftrightarrow>
     (if is_var_cell cmd then pad = [] \<and> length bs \<le> 65535
      else length bs + length pad = CELL_DATA_LEN)"

lemma body_decode_parses:
  "parses p bs x \<Longrightarrow> fst (body_decode con p (rdr pre (bs @ pad) c)) = Inr (con x)"
  by (simp add: body_decode_def parses_def ebind_def rd_extract_def eret_def)

lemma body_decode_fst:
  "fst (p r) = Inr x \<Longrightarrow> fst (body_decode con p r) = Inr (con x)"
  by (auto simp: body_decode_def ebind_def rd_extract_def eret_def split: prod.splits sum.splits)

lemma codec_body_roundtrip:
  assumes "codec p w valid" "valid x" "AnyChanMsg_encode_onto m = w x"
    and "AnyChanMsg_decode_from_reader (AnyChanMsg_cmd m) = body_decode con p" "m = con x"
  shows "\<exists>bs. encodes (AnyChanMsg_encode_onto m) bs \<and>
     (\<forall>pre pad c. cell_padding (AnyChanMsg_cmd m) bs pad \<longrightarrow>
        fst (AnyChanMsg_decode_from_reader (AnyChanMsg_cmd m) (rdr pre (bs @ pad) c)) = Inr m)"
  using codec.roundtrip [OF assms(1,2)] assms(3-5) by (auto simp: body_decode_parses)

lemmas chan_dispatch = AnyChanMsg_decode_from_reader_def

lemma vpadding_roundtrip:
  "fst (take_from_vpadding (rdr pre (replicate (unat (w :: u16)) 0) c)) = Inr w"
  using unat_u16_le [of w] by (simp add: take_from_vpadding_def eret_def)

lemmas chan_codecs = codec_body_roundtrip [OF handshake_codec.codec_axioms]
  codec_body_roundtrip [OF create2_codec.codec_axioms]
  codec_body_roundtrip [OF created2_codec.codec_axioms]
  codec_body_roundtrip [OF relay_codec.codec_axioms]
  codec_body_roundtrip [OF destroy_codec.codec_axioms]
  codec_body_roundtrip [OF netinfo_codec.codec_axioms]
  codec_body_roundtrip [OF padding_negotiate_codec.codec_axioms]
  codec_body_roundtrip [OF certs_codec.codec_axioms]
  codec_body_roundtrip [OF auth_challenge_codec.codec_axioms]
  codec_body_roundtrip [OF authenticate_codec.codec_axioms]

lemma chan_body_roundtrip:
  assumes "chan_msg_wf m"
  shows "\<exists>bs. encodes (AnyChanMsg_encode_onto m) bs \<and>
     (\<forall>pre pad c. cell_padding (AnyChanMsg_cmd m) bs pad \<longrightarrow>
        fst (AnyChanMsg_decode_from_reader (AnyChanMsg_cmd m) (rdr pre (bs @ pad) c)) = Inr m)"
  using assms
proof (cases m)
  case Padding
  then show ?thesis
    by (auto simp: encodes_def wire_simps chan_dispatch body_decode_def take_from_padding_def
        run_simps rd_extract_def)
next
  case (Vpadding x)
  then show ?thesis
    by (auto simp: encodes_def wire_simps chan_dispatch cell_padding_def is_var_cell_def
        intro!: body_decode_fst vpadding_roundtrip)
next
  case (Versions x)
  then show ?thesis
    by (auto simp: encodes_def wire_simps encode_onto_versions_def chan_dispatch cell_padding_def
        is_var_cell_def take_from_versions_def versions_loop_ok intro!: body_decode_fst)
next
  case (Unrecognized x)
  with assms show ?thesis
    by (auto simp: encodes_def wire_simps chan_dispatch known_chan_cmds_def cell_padding_def
        ebind_def decode_with_cmd_rdr eret_def)
qed (rule chan_codecs; simp add: chan_dispatch; fail)+

end
