(* ===== verification/ChanCodec.thy ===== *)
theory ChanCodec
  imports ChanMsg_Laws
begin

text \<open>
  \<open>chancell/codec.rs\<close>: the framing of channel cells on a byte stream. \<open>write_cell\<close> appends
  a cell to a buffer and \<open>decode_cell\<close> takes one from the front of a buffer; both are
  effects over the buffer (\<open>BytesMut\<close>, a list of bytes). The lemmas show what the two
  functions do to the buffer on every branch and that they invert each other.
\<close>

section \<open>Model\<close>

text \<open>\<open>tor_cell::Error\<close> (\<open>err.rs\<close>).\<close>

datatype cell_error =
    BytesErr bytes_error string
  | EncodeErr encode_error
  | Internal string
  | ChanProto string
  | CircProto string
  | BadStreamAddress
  | CantEncode string

record chan_cell =
  cc_circid :: "circ_id option"
  cc_msg :: any_chan_msg

text \<open>Overwriting the two bytes at \<open>pos\<close>.\<close>

definition set_slice2 :: "nat \<Rightarrow> byte list \<Rightarrow> byte list \<Rightarrow> byte list" where
  "set_slice2 pos b dst = take pos dst @ b @ drop (pos + 2) dst"

definition write_cell :: "chan_cell \<Rightarrow> (byte list, cell_error, unit) eff" where
  "write_cell item dst0 =
     (let cmd = AnyChanMsg_cmd (cc_msg item);
          dst1 = dst0 @ to_be_bytes (CircId_get_or_zero (cc_circid item)) @ [cmd];
          pos = length dst1
      in if is_var_cell cmd then
           (case vec_write (AnyChanMsg_encode_onto (cc_msg item)) (dst1 @ to_be_bytes (0 :: u16)) of
              (Inl e, dst) \<Rightarrow> (Inl (EncodeErr e), dst)
            | (Inr _, dst) \<Rightarrow>
                let len = length dst - pos - 2
                in if len > 65535 then (Inl (Internal ''ran out of space for varcell''), dst)
                   else (Inr (), set_slice2 pos (to_be_bytes (word_of_nat len :: u16)) dst))
         else
           (case vec_write (AnyChanMsg_encode_onto (cc_msg item)) dst1 of
              (Inl e, dst) \<Rightarrow> (Inl (EncodeErr e), dst)
            | (Inr _, dst) \<Rightarrow>
                let len = length dst - pos
                in if len > CELL_DATA_LEN then (Inl (Internal ''ran out of space for cell''), dst)
                   else (Inr (), snd (vec_write (write_zeros (CELL_DATA_LEN - len)) dst))))"

text \<open>
  The number of bytes the cell at the front of the buffer takes, for a buffer of at least
  seven bytes.
\<close>

definition cell_len :: "byte list \<Rightarrow> nat" where
  "cell_len src =
     (if is_var_cell (src ! 4) then unat (from_be_bytes [src ! 5, src ! 6] :: u16) + 7 else 514)"

definition wrap_err :: "bytes_error \<Rightarrow> cell_error" where
  "wrap_err be = BytesErr be ''channel cell''"

text \<open>
  The start of \<open>decode_cell\<close>: the command and the length, with the accesses to the buffer that
  would panic.
\<close>

definition decode_cell_len :: "byte list \<Rightarrow> bytes_error + (ChanCmd \<times> nat)" where
  "decode_cell_len src =
     (case index_at src 4 of
        Inl e \<Rightarrow> Inl e
      | Inr cmd \<Rightarrow>
          if is_var_cell cmd then
            (case slice_of src 5 7 of
               Inl e \<Rightarrow> Inl e
             | Inr two_bytes \<Rightarrow>
                 let msg_len = (from_be_bytes two_bytes :: u16)
                 in Inr (cmd, unat msg_len + 7))
          else Inr (cmd, 514))"

text \<open>The part of \<open>decode_cell\<close> after the cell has been split off, for its command.\<close>

definition decode_cell_body :: "ChanCmd \<Rightarrow> (reader, cell_error, chan_cell option) eff" where
  "decode_cell_body cmd =
     ebind (emap_err wrap_err rd_take_u32) (\<lambda>id.
     let circid = CircId_new id in
     ebind (emap_err wrap_err (rd_advance (if is_var_cell cmd then 3 else 1))) (\<lambda>_.
     ebind (emap_err wrap_err (AnyChanMsg_decode_from_reader cmd)) (\<lambda>msg.
     if \<not> accepts_circid_val cmd circid
     then efail (ChanProto ''Invalid circuit ID for cell command'')
     else eret (Some \<lparr>cc_circid = circid, cc_msg = msg\<rparr>))))"

definition decode_cell :: "(byte list, cell_error, chan_cell option) eff" where
  "decode_cell src =
     (if length src < 7 then (Inr None, src)
      else
        (case decode_cell_len src of
           Inl panic \<Rightarrow> (Inl (wrap_err panic), src)
         | Inr (cmd, len) \<Rightarrow>
             if length src < len then (Inr None, src)
             else
               (case slice_of src 0 len of
                  Inl panic \<Rightarrow> (Inl (wrap_err panic), src)
                | Inr cell \<Rightarrow> (fst (decode_cell_body cmd (from_slice cell)), drop len src))))"

section \<open>Laws\<close>

subsection \<open>What \<open>write_cell\<close> appends\<close>

definition cell_bytes :: "circ_id option \<Rightarrow> ChanCmd \<Rightarrow> byte list \<Rightarrow> byte list" where
  "cell_bytes circid cmd bs =
     to_be_bytes (CircId_get_or_zero circid) @ [cmd] @
     (if is_var_cell cmd then to_be_bytes (word_of_nat (length bs) :: u16) @ bs
      else bs @ replicate (CELL_DATA_LEN - length bs) 0)"

lemma set_slice2_append:
  "length ys = 2 \<Longrightarrow> set_slice2 (length xs) b (xs @ ys @ zs) = xs @ b @ zs"
  by (simp add: set_slice2_def)

lemma write_cell_eq:
  assumes "AnyChanMsg_encode_onto m = (bs, r)"
  shows "write_cell \<lparr>cc_circid = circid, cc_msg = m\<rparr> dst =
    (let cmd = AnyChanMsg_cmd m;
         hd = dst @ to_be_bytes (CircId_get_or_zero circid) @ [cmd]
     in case r of
          Inl e \<Rightarrow>
            (Inl (EncodeErr e), hd @ (if is_var_cell cmd then to_be_bytes (0 :: u16) else []) @ bs)
        | Inr _ \<Rightarrow>
            if is_var_cell cmd then
              if length bs > 65535
              then (Inl (Internal ''ran out of space for varcell''), hd @ to_be_bytes (0 :: u16) @ bs)
              else (Inr (), dst @ cell_bytes circid cmd bs)
            else if length bs > CELL_DATA_LEN
              then (Inl (Internal ''ran out of space for cell''), hd @ bs)
              else (Inr (), dst @ cell_bytes circid cmd bs))"
proof (cases "is_var_cell (AnyChanMsg_cmd m)")
  case True
  let ?hd = "dst @ to_be_bytes (CircId_get_or_zero circid) @ [AnyChanMsg_cmd m]"
  have "set_slice2 (length ?hd) (to_be_bytes w) (?hd @ to_be_bytes (0 :: u16) @ bs) = ?hd @ to_be_bytes w @ bs"
    for w :: u16
    by (rule set_slice2_append) simp_all
  with True assms show ?thesis
    by (simp add: write_cell_def vec_write_def cell_bytes_def Let_def split: sum.splits)
next
  case False
  with assms show ?thesis
    by (simp add: write_cell_def vec_write_def cell_bytes_def Let_def wire_simps split: sum.splits)
qed

lemma length_cell_bytes:
  "length (cell_bytes circid cmd bs) =
     (if is_var_cell cmd then 7 + length bs else 5 + max CELL_DATA_LEN (length bs))"
  by (simp add: cell_bytes_def max_def)

subsection \<open>What \<open>decode_cell\<close> takes\<close>

lemma decode_cell_len_eq: "7 \<le> length src \<Longrightarrow> decode_cell_len src = Inr (src ! 4, cell_len src)"
proof -
  assume "7 \<le> length src"
  then have "take 2 (drop 5 src) = [src ! 5, src ! 6]"
    by (auto intro!: nth_equalityI simp: nth_Cons' less_Suc_eq numeral_2_eq_2)
  with \<open>7 \<le> length src\<close> show ?thesis
    by (simp add: decode_cell_len_def index_at_def slice_of_def cell_len_def)
qed

lemma decode_cell_eq:
  "decode_cell src =
     (if length src < 7 then (Inr None, src)
      else if length src < cell_len src then (Inr None, src)
      else (fst (decode_cell_body (src ! 4) (from_slice (take (cell_len src) src))), drop (cell_len src) src))"
  by (simp add: decode_cell_def decode_cell_len_eq slice_of_def)

lemma cell_len_append: "7 \<le> length src \<Longrightarrow> cell_len (src @ t) = cell_len src"
  by (simp add: cell_len_def nth_append)

lemma cell_len_bounds: "7 \<le> cell_len src" "cell_len src \<le> 65542"
  using unat_u16_le [of "from_be_bytes [src ! 5, src ! 6]"] by (auto simp: cell_len_def)

lemma decode_cell_None: "fst (decode_cell src) = Inr None \<longleftrightarrow> length src < 7 \<or> length src < cell_len src"
  by (auto simp: decode_cell_eq decode_cell_body_def Let_def ebind_def emap_err_def efail_def
      eret_def split: prod.splits sum.splits if_splits)

lemma decode_cell_append:
  assumes "fst (decode_cell src) \<noteq> Inr None"
  shows "decode_cell (src @ t) = (fst (decode_cell src), snd (decode_cell src) @ t)"
proof -
  from assms have "7 \<le> length src" "cell_len src \<le> length src"
    by (simp_all add: decode_cell_None not_less)
  then show ?thesis
    by (simp add: decode_cell_eq Let_def cell_len_append nth_append)
qed

subsection \<open>A cell that was written is read back\<close>

definition chan_cell_wf :: "chan_cell \<Rightarrow> bool" where
  "chan_cell_wf cell \<longleftrightarrow>
     cc_circid cell \<noteq> Some 0 \<and> chan_msg_wf (cc_msg cell) \<and>
     accepts_circid_val (AnyChanMsg_cmd (cc_msg cell)) (cc_circid cell)"

lemma CircId_roundtrip: "c \<noteq> Some 0 \<Longrightarrow> CircId_new (CircId_get_or_zero c) = c"
  by (auto simp: CircId_new_def CircId_get_or_zero_def split: option.splits)

lemma nth_be4: "(to_be_bytes (w :: u32) @ x # y # z # t) ! 4 = x"
    "(to_be_bytes (w :: u32) @ x # y # z # t) ! 5 = y" "(to_be_bytes (w :: u32) @ x # y # z # t) ! 6 = z"
  by (simp_all add: nth_append)

lemma list2_conv: "length bs = 2 \<Longrightarrow> \<exists>y z. bs = [y, z]"
  by (auto simp: length_Suc_conv eval_nat_numeral)

lemma cell_len_cell_bytes:
  assumes "if is_var_cell cmd then length bs \<le> 65535 else length bs \<le> CELL_DATA_LEN"
  shows "cell_len (cell_bytes circid cmd bs @ t) = length (cell_bytes circid cmd bs)"
    and "(cell_bytes circid cmd bs @ t) ! 4 = cmd"
proof -
  show cmd: "(cell_bytes circid cmd bs @ t) ! 4 = cmd"
    by (simp add: cell_bytes_def nth_append)
  show "cell_len (cell_bytes circid cmd bs @ t) = length (cell_bytes circid cmd bs)"
  proof (cases "is_var_cell cmd")
    case True
    let ?l = "to_be_bytes (word_of_nat (length bs) :: u16)"
    obtain y z where yz: "?l = [y, z]" using list2_conv [of ?l] by auto
    then have "from_be_bytes [y, z] = (word_of_nat (length bs) :: u16)"
      using from_to_be_bytes [of "word_of_nat (length bs) :: u16"] by simp
    with True yz assms show ?thesis
      by (simp add: cell_len_def cmd length_cell_bytes) (simp add: cell_bytes_def nth_append)
  next
    case False
    with assms show ?thesis by (simp add: cell_len_def cmd length_cell_bytes)
  qed
qed

lemma decode_cell_body_cell_bytes:
  assumes "chan_cell_wf \<lparr>cc_circid = circid, cc_msg = m\<rparr>"
    and "AnyChanMsg_encode_onto m = (bs, Inr ())" "cmd = AnyChanMsg_cmd m"
    and "if is_var_cell cmd then length bs \<le> 65535 else length bs \<le> CELL_DATA_LEN"
  shows "fst (decode_cell_body cmd (from_slice (cell_bytes circid cmd bs))) =
    Inr (Some \<lparr>cc_circid = circid, cc_msg = m\<rparr>)"
proof -
  define pad h n where "pad = (if is_var_cell cmd then [] else replicate (CELL_DATA_LEN - length bs) (0 :: byte))"
    and "h = cmd # (if is_var_cell cmd then to_be_bytes (word_of_nat (length bs) :: u16) else [])"
    and n_def: "n = (if is_var_cell cmd then 3 else 1 :: nat)"
  note defs = pad_def h_def n_def
  have cb: "cell_bytes circid cmd bs = to_be_bytes (CircId_get_or_zero circid) @ h @ bs @ pad"
    and "cell_padding cmd bs pad"
    using assms(4) by (auto simp: cell_bytes_def cell_padding_def defs)
  then have dec: "fst (AnyChanMsg_decode_from_reader cmd (rdr pre (bs @ pad) SupposedlyComplete)) = Inr m" for pre
    using chan_body_roundtrip [of m] assms(1-3) by (auto simp: chan_cell_wf_def encodes_def)
  have "rd_advance n (rdr pre (h @ bs @ pad) SupposedlyComplete) =
      (Inr (), rdr (pre @ h) (bs @ pad) SupposedlyComplete)" for pre
    by (simp add: rd_advance_rdr defs)
  with dec [of "to_be_bytes (CircId_get_or_zero circid) @ h"] assms(1,3) show ?thesis
    unfolding decode_cell_body_def cb from_slice_rdr n_def [symmetric]
    by (auto simp: ebind_def emap_err_def run_take_u Let_def CircId_roundtrip chan_cell_wf_def
        eret_def split: prod.splits sum.splits)
qed

lemma write_then_decode:
  assumes wf: "chan_cell_wf cell" and w: "write_cell cell dst = (Inr (), dst')"
  obtains wire where "dst' = dst @ wire" "7 \<le> length wire" "cell_len wire = length wire"
    "decode_cell wire = (Inr (Some cell), [])"
proof -
  obtain circid m where cell: "cell = \<lparr>cc_circid = circid, cc_msg = m\<rparr>" by (cases cell) auto
  obtain bs where bs: "AnyChanMsg_encode_onto m = (bs, Inr ())"
    using chan_body_roundtrip [of m] wf cell by (auto simp: chan_cell_wf_def encodes_def)
  let ?cmd = "AnyChanMsg_cmd m"
  let ?wire = "cell_bytes circid ?cmd bs"
  have len: "if is_var_cell ?cmd then length bs \<le> 65535 else length bs \<le> CELL_DATA_LEN"
    and dst: "dst' = dst @ ?wire"
    using w unfolding cell write_cell_eq [OF bs] by (auto simp: Let_def split: if_splits)
  note cl = cell_len_cell_bytes [OF len, of circid "[]", simplified]
  have "7 \<le> length ?wire" by (simp add: length_cell_bytes max_def)
  moreover have "decode_cell ?wire = (Inr (Some cell), [])"
    using decode_cell_body_cell_bytes [OF wf [unfolded cell] bs refl len] calculation
    by (simp add: decode_cell_eq cl cell)
  ultimately show thesis using dst cl by (intro that)
qed

lemma write_cell_list:
  assumes "list_all chan_cell_wf cells" "emapM write_cell cells dst = (Inr us, dst')"
  shows "\<exists>wires. dst' = dst @ concat wires \<and>
    list_all2 (\<lambda>cell wire. decode_cell wire = (Inr (Some cell), [])) cells wires"
  using assms
proof (induction cells arbitrary: dst us)
  case Nil
  then show ?case by (auto simp: eret_def intro: exI [of _ "[]"])
next
  case (Cons cell cells)
  from Cons.prems(2) obtain d us' where
    w: "write_cell cell dst = (Inr (), d)" and ws: "emapM write_cell cells d = (Inr us', dst')"
    by (auto simp: ebind_eq_Inr eret_def)
  obtain wire where "d = dst @ wire" "decode_cell wire = (Inr (Some cell), [])"
    using write_then_decode [OF _ w] Cons.prems(1) by auto
  moreover obtain wires where "dst' = d @ concat wires"
    "list_all2 (\<lambda>cell wire. decode_cell wire = (Inr (Some cell), [])) cells wires"
    using Cons.IH [OF _ ws] Cons.prems(1) by auto
  ultimately show ?case by (intro exI [of _ "wire # wires"]) simp
qed

lemma decode_cell_list:
  assumes "list_all2 (\<lambda>cell wire. decode_cell wire = (Inr (Some cell), [])) cells wires"
  shows "ereplicate (length cells) decode_cell (concat wires @ rest) = (Inr (map Some cells), rest)"
  using assms
proof (induction cells wires rule: list_all2_induct)
  case Nil
  show ?case by (simp add: eret_def)
next
  case (Cons cell cells wire wires)
  then have "decode_cell (wire @ (concat wires @ rest)) = (Inr (Some cell), concat wires @ rest)"
    using decode_cell_append [of wire "concat wires @ rest"] by simp
  with Cons.IH show ?case by (simp add: ebind_def eret_def)
qed

section \<open>Properties\<close>

text \<open>
  C1. Cells survive the byte stream. When a sequence of cells that obey the rules for
  circuit identifiers is written to a buffer with \<open>write_cell\<close>, then calling
  \<open>decode_cell\<close> once per cell on the bytes that were appended gives back the same cells
  in the same order, and leaves exactly the bytes that follow them.
\<close>

theorem channel_stream_roundtrip:
  assumes "list_all chan_cell_wf cells"
    and "emapM write_cell cells dst = (Inr us, dst')"
  shows "\<exists>wire. dst' = dst @ wire \<and>
    (\<forall>rest. ereplicate (length cells) decode_cell (wire @ rest) = (Inr (map Some cells), rest))"
  using write_cell_list [OF assms] decode_cell_list by blast

theorem channel_stream_roundtrip_witness:
  "let cells = [\<lparr>cc_circid = Some 7, cc_msg = Destroy 9\<rparr>,
                \<lparr>cc_circid = None, cc_msg = Vpadding 3\<rparr>];
       buf = snd (emapM write_cell cells [])
   in ereplicate (length cells) decode_cell (buf @ [1, 2]) = (Inr (map Some cells), [1, 2])"
proof -
  let ?cells = "[\<lparr>cc_circid = Some 7, cc_msg = Destroy 9\<rparr>, \<lparr>cc_circid = None, cc_msg = Vpadding 3\<rparr>]"
  have "list_all chan_cell_wf ?cells"
    by (simp add: chan_cell_wf_def accepts_circid_val_def allows_circid_def)
  moreover have "emapM write_cell ?cells [] = (Inr [(), ()], snd (emapM write_cell ?cells []))"
    by (simp add: ebind_def write_cell_eq wire_simps is_var_cell_def Let_def eret_def)
  ultimately obtain wire where "snd (emapM write_cell ?cells []) = [] @ wire"
    "\<forall>rest. ereplicate (length ?cells) decode_cell (wire @ rest) = (Inr (map Some ?cells), rest)"
    using channel_stream_roundtrip [of ?cells "[]"] by blast
  then show ?thesis by (simp only: Let_def append_Nil)
qed

text \<open>
  C13. The decoder waits for a whole cell and never for more. On every strict prefix of a
  written cell \<open>decode_cell\<close> returns \<open>Ok(None)\<close> and leaves the buffer alone; and a buffer of
  65542 bytes always yields a cell or an error.
\<close>

theorem decode_cell_framing:
  assumes "chan_cell_wf cell" and "write_cell cell [] = (Inr (), wire)"
  shows "(\<forall>k<length wire. decode_cell (take k wire) = (Inr None, take k wire)) \<and>
    (\<forall>src. 65542 \<le> length src \<longrightarrow> fst (decode_cell src) \<noteq> Inr None)"
proof -
  obtain w where "wire = [] @ w" "7 \<le> length w" "cell_len w = length w"
    "decode_cell w = (Inr (Some cell), [])"
    by (rule write_then_decode [OF assms]) (rule that)
  then have len: "cell_len wire = length wire" by simp
  have "cell_len (take k wire) = length wire" if "7 \<le> k" "k < length wire" for k
  proof -
    have "cell_len (take k wire @ drop k wire) = cell_len (take k wire)"
      by (rule cell_len_append) (use that in simp)
    then show ?thesis unfolding append_take_drop_id len by (rule sym)
  qed
  then have "decode_cell (take k wire) = (Inr None, take k wire)" if "k < length wire" for k
    using that by (simp add: decode_cell_eq not_less)
  moreover have "fst (decode_cell src) \<noteq> Inr None" if "65542 \<le> length src" for src
    using that cell_len_bounds(2) [of src] by (simp add: decode_cell_None)
  ultimately show ?thesis by blast
qed

theorem decode_cell_framing_witness:
  "let cell = \<lparr>cc_circid = Some 7, cc_msg = Destroy 9\<rparr>; wire = snd (write_cell cell [])
   in decode_cell (take 300 wire) = (Inr None, take 300 wire)"
proof -
  let ?cell = "\<lparr>cc_circid = Some 7, cc_msg = Destroy 9\<rparr>"
  have "chan_cell_wf ?cell" by (simp add: chan_cell_wf_def accepts_circid_val_def allows_circid_def)
  moreover have "write_cell ?cell [] = (Inr (), snd (write_cell ?cell []))"
    and "300 < length (snd (write_cell ?cell []))"
    by (simp_all add: write_cell_eq wire_simps is_var_cell_def Let_def length_cell_bytes)
  ultimately show ?thesis using decode_cell_framing [of ?cell] by (simp add: Let_def)
qed





text \<open>
  C15. What \<open>decode_cell\<close> accepts. A decoded cell has a circuit identifier that its command
  allows and that is not zero when present, the call has removed exactly the bytes of one
  cell from the front of the buffer, and bytes that arrive later change nothing.
\<close>

theorem decode_cell_accepts:
  assumes "decode_cell src = (Inr (Some cell), rest)"
  shows "(\<exists>cmd. cmd = src ! 4 \<and> accepts_circid_val cmd (cc_circid cell)) \<and>
    cc_circid cell \<noteq> Some 0 \<and>
    src = take (cell_len src) src @ rest \<and> 7 \<le> cell_len src \<and> cell_len src \<le> length src \<and>
    decode_cell (src @ t) = (Inr (Some cell), rest @ t)"
proof -
  have "cell_len src \<le> length src" using assms by (auto simp: decode_cell_eq split: if_splits)
  moreover have "decode_cell (src @ t) = (Inr (Some cell), rest @ t)"
    using decode_cell_append [of src t] assms by simp
  ultimately show ?thesis
    using assms cell_len_bounds(1) [of src]
    by (auto simp: decode_cell_eq decode_cell_body_def Let_def ebind_def emap_err_def efail_def
        eret_def CircId_new_def split: prod.splits sum.splits if_splits)
qed

theorem decode_cell_accepts_witness:
  "\<exists>cell. decode_cell [0, 0, 0, 7, 200, 0, 2, 1, 2, 5] = (Inr (Some cell), [5]) \<and>
     cc_circid cell \<noteq> Some 0"
proof -
  let ?cell = "\<lparr>cc_circid = Some 7, cc_msg = Unrecognized \<lparr>un_cmd = 200, un_content = [1, 2]\<rparr>\<rparr>"
  have "decode_cell [0, 0, 0, 7, 200, 0, 2, 1, 2, 5] = (Inr (Some ?cell), [5])"
    by code_simp
  with decode_cell_accepts [OF this] show ?thesis by blast
qed

end
