(* ===== verification/CircMap.thy ===== *)
theory CircMap
  imports ChanCodec
begin

text \<open>
  The circuits of a channel: \<open>channel/circmap.rs\<close>, \<open>client/circuit/halfcirc.rs\<close> and
  \<open>channel/unique_id.rs\<close> of \<open>tor-proto\<close>. The two senders of an entry are the names of the
  circuit's channels; what they receive is part of the reactor's state. A random number
  generator is the function that gives its \<open>k\<close>-th sample from a range; \<open>usize\<close> counters are
  natural numbers, since a map has fewer than \<open>2 ^ 32\<close> entries.
\<close>

section \<open>Types\<close>

datatype chan_error =
    ChanProtoErr string
  | ChanInternal string
  | ChanIdRangeFull
  | ChanPanic string
  | ChanShutdown
  | OutputPending

datatype CircIdRange = RangeLow | RangeHigh

record half_circ =
  allow_relay_cells :: u16

datatype CircEnt =
    Opening nat nat
  | Open nat
  | DestroySent half_circ

record circ_map =
  cm_m :: "circ_id \<rightharpoonup> CircEnt"
  cm_range :: CircIdRange
  cm_open_count :: nat

type_synonym id_sampler = "nat \<Rightarrow> u32 \<Rightarrow> u32 \<Rightarrow> u32"

section \<open>Half-closed circuits\<close>

definition HalfCirc_new :: "u16 \<Rightarrow> half_circ" where
  "HalfCirc_new total_windows = \<lparr>allow_relay_cells = total_windows\<rparr>"

definition receive_cell :: "(half_circ, chan_error, unit) eff" where
  "receive_cell h =
     (if allow_relay_cells h = 0
      then (Inl (ChanProtoErr ''Too many cells received on destroyed circuit''), h)
      else (Inr (), h\<lparr>allow_relay_cells := allow_relay_cells h - 1\<rparr>))"

section \<open>The map\<close>

definition circ_midpoint :: u32 where
  "circ_midpoint = 0x80000000"

text \<open>\<open>sample\<close> of a range; \<open>None\<close> is the panic on a zero identifier.\<close>

definition circ_id_sample :: "id_sampler \<Rightarrow> nat \<Rightarrow> CircIdRange \<Rightarrow> circ_id option" where
  "circ_id_sample rnd k idrange =
     CircId_new (case idrange of
                   RangeLow \<Rightarrow> rnd k 1 (circ_midpoint - 1)
                 | RangeHigh \<Rightarrow> rnd k circ_midpoint (- 1))"

definition CircMap_new :: "CircIdRange \<Rightarrow> circ_map" where
  "CircMap_new idrange = \<lparr>cm_m = Map.empty, cm_range = idrange, cm_open_count = 0\<rparr>"

fun is_open_ent :: "CircEnt \<Rightarrow> bool" where
  "is_open_ent (DestroySent _) = False"
| "is_open_ent _ = True"

definition N_ATTEMPTS :: nat where
  "N_ATTEMPTS = 16"

fun circ_add_ent_loop :: "id_sampler \<Rightarrow> CircEnt \<Rightarrow> nat \<Rightarrow> nat \<Rightarrow> (circ_map, chan_error, circ_id) eff" where
  "circ_add_ent_loop rnd ent k 0 m = (Inl ChanIdRangeFull, m)"
| "circ_add_ent_loop rnd ent k (Suc n) m =
     (case circ_id_sample rnd k (cm_range m) of
        None \<Rightarrow> (Inl (ChanPanic ''Unexpected zero value''), m)
      | Some cid \<Rightarrow>
          if cm_m m cid = None
          then (Inr cid, m\<lparr>cm_m := (cm_m m)(cid \<mapsto> ent), cm_open_count := cm_open_count m + 1\<rparr>)
          else circ_add_ent_loop rnd ent (k + 1) n m)"

definition circ_add_ent :: "id_sampler \<Rightarrow> nat \<Rightarrow> nat \<Rightarrow> (circ_map, chan_error, circ_id) eff" where
  "circ_add_ent rnd createdsink sink = circ_add_ent_loop rnd (Opening createdsink sink) 0 N_ATTEMPTS"

text \<open>\<open>get_mut\<close>: an entry is changed through a guard that adjusts the count when it is dropped.\<close>

definition with_circ_ent ::
    "circ_id \<Rightarrow> 'e \<Rightarrow> (CircEnt \<Rightarrow> ('e + 'a) \<times> CircEnt) \<Rightarrow> (circ_map, 'e, 'a) eff" where
  "with_circ_ent cid missing f m =
     (case cm_m m cid of
        None \<Rightarrow> (Inl missing, m)
      | Some ent \<Rightarrow>
          (case f ent of
             (res, ent') \<Rightarrow>
               (res, m\<lparr>cm_m := (cm_m m)(cid \<mapsto> ent'),
                       cm_open_count :=
                         (if \<not> is_open_ent ent \<and> is_open_ent ent' then cm_open_count m + 1
                          else if is_open_ent ent \<and> \<not> is_open_ent ent' then cm_open_count m - 1
                          else cm_open_count m)\<rparr>)))"

text \<open>\<open>note_cell_flushed\<close>: the circuit whose padding controller is told.\<close>

definition circ_note_cell_flushed :: "circ_id \<Rightarrow> circ_map \<Rightarrow> nat option" where
  "circ_note_cell_flushed cid m =
     (case cm_m m cid of
        Some (Opening _ sink) \<Rightarrow> Some sink
      | Some (Open sink) \<Rightarrow> Some sink
      | _ \<Rightarrow> None)"

definition advance_from_opening :: "circ_id \<Rightarrow> (circ_map, chan_error, nat) eff" where
  "advance_from_opening cid m =
     (case cm_m m cid of
        Some (Opening oneshot sink) \<Rightarrow> (Inr oneshot, m\<lparr>cm_m := (cm_m m)(cid \<mapsto> Open sink)\<rparr>)
      | _ \<Rightarrow> (Inl (ChanProtoErr ''Unexpected CREATED* cell not on opening circuit''), m))"

definition destroy_sent :: "circ_id \<Rightarrow> half_circ \<Rightarrow> circ_map \<Rightarrow> circ_map" where
  "destroy_sent cid hs m =
     m\<lparr>cm_m := (cm_m m)(cid \<mapsto> DestroySent hs),
       cm_open_count :=
         (case cm_m m cid of
            Some replaced \<Rightarrow> if is_open_ent replaced then cm_open_count m - 1 else cm_open_count m
          | None \<Rightarrow> cm_open_count m)\<rparr>"

definition circ_remove :: "circ_id \<Rightarrow> circ_map \<Rightarrow> CircEnt option \<times> circ_map" where
  "circ_remove cid m =
     (case cm_m m cid of
        None \<Rightarrow> (None, m)
      | Some removed \<Rightarrow>
          (Some removed,
           m\<lparr>cm_m := (cm_m m)(cid := None),
             cm_open_count := (if is_open_ent removed then cm_open_count m - 1 else cm_open_count m)\<rparr>))"

definition open_ent_count :: "circ_map \<Rightarrow> nat" where
  "open_ent_count m = cm_open_count m"

section \<open>Invariant\<close>

definition open_ids :: "circ_map \<Rightarrow> circ_id set" where
  "open_ids m = {cid. \<exists>e. cm_m m cid = Some e \<and> is_open_ent e}"

definition circ_map_inv :: "circ_map \<Rightarrow> bool" where
  "circ_map_inv m \<longleftrightarrow> cm_open_count m = card (open_ids m)"

lemma finite_open_ids [simp]: "finite (open_ids m)"
  by (rule finite_subset [OF subset_UNIV]) simp

lemma open_ids_upd:
  "open_ids (m\<lparr>cm_m := (cm_m m)(cid := e), cm_open_count := c\<rparr>) =
     (if \<exists>x. e = Some x \<and> is_open_ent x then insert cid (open_ids m) else open_ids m - {cid})"
  "open_ids (m\<lparr>cm_m := (cm_m m)(cid := e)\<rparr>) =
     (if \<exists>x. e = Some x \<and> is_open_ent x then insert cid (open_ids m) else open_ids m - {cid})"
  by (auto simp: open_ids_def)

lemma open_ids_mem: "cid \<in> open_ids m \<longleftrightarrow> (case cm_m m cid of Some e \<Rightarrow> is_open_ent e | None \<Rightarrow> False)"
  by (auto simp: open_ids_def split: option.split)

lemma circ_map_inv_new [simp]: "circ_map_inv (CircMap_new r)"
  by (simp add: circ_map_inv_def CircMap_new_def open_ids_def)

lemma destroy_sent_inv: "circ_map_inv m \<Longrightarrow> circ_map_inv (destroy_sent cid hs m)"
  by (auto simp: circ_map_inv_def destroy_sent_def open_ids_upd open_ids_mem split: option.splits)

lemma circ_remove_inv: "circ_map_inv m \<Longrightarrow> circ_map_inv (snd (circ_remove cid m))"
  by (auto simp: circ_map_inv_def circ_remove_def open_ids_upd open_ids_mem split: option.splits)

lemma advance_inv: "circ_map_inv m \<Longrightarrow> circ_map_inv (snd (advance_from_opening cid m))"
  by (auto simp: circ_map_inv_def advance_from_opening_def open_ids_upd open_ids_mem insert_absorb
      split: option.splits CircEnt.splits)

lemma with_circ_ent_inv: "circ_map_inv m \<Longrightarrow> circ_map_inv (snd (with_circ_ent cid missing f m))"
  by (auto simp: circ_map_inv_def with_circ_ent_def open_ids_upd open_ids_mem insert_absorb
      split: option.splits prod.splits)

text \<open>Allocation: a free identifier of the map's own range, or an error and no change.\<close>

definition samples_ok :: "id_sampler \<Rightarrow> bool" where
  "samples_ok rnd \<longleftrightarrow> (\<forall>k lo hi. lo \<le> hi \<longrightarrow> lo \<le> rnd k lo hi \<and> rnd k lo hi \<le> hi)"

definition id_in_range :: "CircIdRange \<Rightarrow> circ_id \<Rightarrow> bool" where
  "id_in_range r cid = (case r of RangeLow \<Rightarrow> 1 \<le> cid \<and> cid < circ_midpoint | RangeHigh \<Rightarrow> circ_midpoint \<le> cid)"

lemma circ_id_sample_ok:
  assumes "samples_ok rnd"
  obtains cid where "circ_id_sample rnd k r = Some cid" "id_in_range r cid" "cid \<noteq> 0"
proof (cases r)
  case RangeLow
  have "1 \<le> rnd k 1 (circ_midpoint - 1) \<and> rnd k 1 (circ_midpoint - 1) \<le> circ_midpoint - 1"
    using assms by (simp add: samples_ok_def circ_midpoint_def)
  moreover from this have "rnd k 1 (circ_midpoint - 1) \<noteq> 0" by (auto simp: word_le_nat_alt)
  ultimately show thesis
    using that [of "rnd k 1 (circ_midpoint - 1)"] RangeLow
    by (auto simp: circ_id_sample_def CircId_new_def id_in_range_def circ_midpoint_def word_le_nat_alt word_less_nat_alt)
next
  case RangeHigh
  have "circ_midpoint \<le> rnd k circ_midpoint (- 1)" using assms by (simp add: samples_ok_def)
  moreover from this have "rnd k circ_midpoint (- 1) \<noteq> 0" by (auto simp: word_le_nat_alt circ_midpoint_def)
  ultimately show thesis
    using that [of "rnd k circ_midpoint (- 1)"] RangeHigh
    by (auto simp: circ_id_sample_def CircId_new_def id_in_range_def circ_midpoint_def word_le_nat_alt)
qed

lemma circ_add_ent_loop_cases:
  assumes "samples_ok rnd"
  obtains (full) "circ_add_ent_loop rnd ent k n m = (Inl ChanIdRangeFull, m)"
    | (new) cid where "circ_add_ent_loop rnd ent k n m =
        (Inr cid, m\<lparr>cm_m := (cm_m m)(cid \<mapsto> ent), cm_open_count := cm_open_count m + 1\<rparr>)"
      "cm_m m cid = None" "id_in_range (cm_range m) cid" "cid \<noteq> 0"
proof (induction n arbitrary: k thesis)
  case 0
  then show ?case by simp
next
  case (Suc n)
  obtain cid where cid: "circ_id_sample rnd k (cm_range m) = Some cid" "id_in_range (cm_range m) cid" "cid \<noteq> 0"
    by (rule circ_id_sample_ok [OF assms])
  show ?case
  proof (cases "cm_m m cid = None")
    case True
    then show ?thesis using Suc.prems(2) [of cid] cid by (simp del: fun_upd_apply)
  next
    case False
    then have eq: "circ_add_ent_loop rnd ent k (Suc n) m = circ_add_ent_loop rnd ent (k + 1) n m" using cid by auto
    show ?thesis by (rule Suc.IH [of "k + 1"]) (use Suc.prems eq in auto)
  qed
qed

lemma circ_add_inv:
  assumes "circ_map_inv m" "cm_m m cid = None" "is_open_ent ent"
  shows "circ_map_inv (m\<lparr>cm_m := (cm_m m)(cid \<mapsto> ent), cm_open_count := cm_open_count m + 1\<rparr>)"
  using assms by (auto simp: circ_map_inv_def open_ids_upd open_ids_mem)

section \<open>Unique identifiers\<close>

text \<open>\<open>CircUniqIdContext::next\<close>: the identifier, and the panic when the counter wraps.\<close>

definition circ_uniq_next :: "u64 \<Rightarrow> u64 option \<times> u64" where
  "circ_uniq_next next_circ_id =
     (let n = next_circ_id + 1 in (if n = 0 then None else Some next_circ_id, n))"

end
