(* ===== verification/PaddingTimer.thy ===== *)
theory PaddingTimer
  imports ChanCell
begin

text \<open>
  Channel padding: \<open>channel/padding.rs\<close> of \<open>tor-proto\<close>. The timer decides when a channel that has
  been idle sends a padding cell. Instants and durations are nanoseconds; the greatest instant
  of the platform and the samples of the random number generator are parameters, and the timer
  carries the number of samples drawn so far. A sleep future is the instant at which it fires.
\<close>

section \<open>Parameters\<close>

record padding_parameters =
  pp_low :: u32
  pp_high :: u32

datatype timer_error = InvalidRange | TimerBug string

definition parameters_build :: "u32 \<Rightarrow> u32 \<Rightarrow> timer_error + padding_parameters" where
  "parameters_build low high =
     (if high < low then Inl InvalidRange else Inr \<lparr>pp_low = low, pp_high = high\<rparr>)"

definition default_padding :: padding_parameters where
  "default_padding = \<lparr>pp_low = 1500, pp_high = 9500\<rparr>"

definition disabled_padding :: padding_parameters where
  "disabled_padding = \<lparr>pp_low = 0, pp_high = 0\<rparr>"

text \<open>\<open>padding_negotiate_cell\<close>: the bounds have to fit into 16 bits.\<close>

definition padding_negotiate_cell :: "padding_parameters \<Rightarrow> timer_error + padding_negotiate" where
  "padding_negotiate_cell p =
     (if unat (pp_low p) < 2 ^ 16 \<and> unat (pp_high p) < 2 ^ 16
      then Inr (PaddingNegotiate_start (ucast (pp_low p)) (ucast (pp_high p)))
      else Inl (TimerBug ''padding negotiate out of range''))"

text \<open>\<open>prepare\<close>: a uniform distribution cannot be made of an empty range.\<close>

definition prepare :: "padding_parameters \<Rightarrow> timer_error + padding_parameters" where
  "prepare p =
     (if pp_high p < pp_low p then Inl (TimerBug ''Parameters were not a valid range.'') else Inr p)"

section \<open>The timer\<close>

record padding_timer =
  pt_parameters :: "padding_parameters option"
  pt_selected_timeout :: "nat option"
  pt_trigger_at :: "nat option"
  pt_waker :: "nat option"
  pt_samples :: nat

type_synonym sampler = "nat \<Rightarrow> u32 \<Rightarrow> u32 \<Rightarrow> u32"

datatype sleep_instructions = Immediate nat | Forever | Waker nat

text \<open>\<open>select_timeout\<close>: the greater of two samples, in milliseconds.\<close>

definition select_timeout :: "sampler \<Rightarrow> nat \<Rightarrow> padding_parameters \<Rightarrow> nat" where
  "select_timeout rnd k p =
     unat (max (rnd k (pp_low p) (pp_high p)) (rnd (k + 1) (pp_low p) (pp_high p))) * 10 ^ 6"

definition timer_new :: "sampler \<Rightarrow> nat \<Rightarrow> padding_parameters \<Rightarrow> timer_error + padding_timer" where
  "timer_new rnd k p =
     (case prepare p of
        Inl e \<Rightarrow> Inl e
      | Inr p \<Rightarrow> Inr \<lparr>pt_parameters = Some p, pt_selected_timeout = Some (select_timeout rnd k p),
                     pt_trigger_at = None, pt_waker = None, pt_samples = k + 2\<rparr>)"

definition timer_new_disabled :: "nat \<Rightarrow> padding_parameters option \<Rightarrow> timer_error + padding_timer" where
  "timer_new_disabled k p =
     (let t = \<lparr>pt_parameters = None, pt_selected_timeout = None, pt_trigger_at = None, pt_waker = None,
               pt_samples = k\<rparr>
      in case p of
           None \<Rightarrow> Inr t
         | Some p \<Rightarrow> (case prepare p of Inl e \<Rightarrow> Inl e | Inr p \<Rightarrow> Inr (t\<lparr>pt_parameters := Some p\<rparr>)))"

definition timer_disable :: "padding_timer \<Rightarrow> padding_timer" where
  "timer_disable t = t\<lparr>pt_selected_timeout := None\<rparr>"

definition is_enabled :: "padding_timer \<Rightarrow> bool" where
  "is_enabled t \<longleftrightarrow> pt_selected_timeout t \<noteq> None"

definition select_fresh_timeout :: "sampler \<Rightarrow> padding_timer \<Rightarrow> padding_timer" where
  "select_fresh_timeout rnd t =
     t\<lparr>pt_selected_timeout := map_option (select_timeout rnd (pt_samples t)) (pt_parameters t),
       pt_trigger_at := None, pt_waker := None, pt_samples := pt_samples t + 2\<rparr>"

definition timer_enable :: "sampler \<Rightarrow> padding_timer \<Rightarrow> padding_timer" where
  "timer_enable rnd t = (if is_enabled t then t else select_fresh_timeout rnd t)"

definition timer_reconfigure :: "padding_parameters \<Rightarrow> (padding_timer, timer_error, unit) eff" where
  "timer_reconfigure p t =
     (case prepare p of Inl e \<Rightarrow> (Inl e, t) | Inr p \<Rightarrow> (Inr (), t\<lparr>pt_parameters := Some p\<rparr>))"

definition timer_note_cell_sent :: "padding_timer \<Rightarrow> padding_timer" where
  "timer_note_cell_sent t = t\<lparr>pt_trigger_at := None\<rparr>"

definition prepare_to_sleep :: "nat \<Rightarrow> nat \<Rightarrow> padding_timer \<Rightarrow> sleep_instructions \<times> padding_timer" where
  "prepare_to_sleep instant_max now t =
     (case pt_selected_timeout t of
        None \<Rightarrow> (Forever, t)
      | Some timeout \<Rightarrow>
     (case pt_waker t of
        Some w \<Rightarrow> (Waker w, t)
      | None \<Rightarrow>
     (case (case pt_trigger_at t of
              Some trigger_at \<Rightarrow> Some trigger_at
            | None \<Rightarrow> if instant_max < now + timeout then None else Some (now + timeout)) of
        None \<Rightarrow> (Forever, timer_disable t)
      | Some trigger_at \<Rightarrow>
          let t = t\<lparr>pt_trigger_at := Some trigger_at\<rparr>;
              remaining = trigger_at - now
          in if remaining = 0 then (Immediate now, t)
             else (Waker (now + remaining), t\<lparr>pt_waker := Some (now + remaining)\<rparr>))))"

text \<open>Polling \<open>next\<close> at an instant: whether a padding cell is to be sent. A future that is
  dropped leaves the timer as it is here, since \<open>next\<close> keeps nothing of its own.\<close>

function timer_next :: "nat \<Rightarrow> sampler \<Rightarrow> nat \<Rightarrow> padding_timer \<Rightarrow> bool \<times> padding_timer" where
  "timer_next instant_max rnd now t =
     (case prepare_to_sleep instant_max now t of
        (Forever, t) \<Rightarrow> (False, t)
      | (Immediate now, t) \<Rightarrow> (True, snd (prepare_to_sleep instant_max now (select_fresh_timeout rnd t)))
      | (Waker w, t) \<Rightarrow>
          if w \<le> now then timer_next instant_max rnd now (t\<lparr>pt_waker := None\<rparr>) else (False, t))"
  by pat_completeness auto

lemma prepare_to_sleep_Waker:
  "prepare_to_sleep instant_max now t = (Waker w, t') \<Longrightarrow> w \<le> now \<Longrightarrow> pt_waker t \<noteq> None"
  by (auto simp: prepare_to_sleep_def Let_def split: option.splits if_splits)

termination timer_next
proof (relation "measure (\<lambda>(_, _, _, t). case pt_waker t of Some _ \<Rightarrow> 1 | None \<Rightarrow> 0)", goal_cases)
  case 1
  show ?case by simp
next
  case (2 imax rnd now t si t' w)
  then have "pt_waker t \<noteq> None" by (intro prepare_to_sleep_Waker [of imax now t w t']) simp_all
  then show ?case by auto
qed

declare timer_next.simps [simp del]

section \<open>Histories\<close>

text \<open>A timer that is polled whenever the reactor goes to sleep and whenever its waker fires, with
  the current instant and the instant since which the channel has been idle: the last cell, the
  last padding, or the moment the timer was started. The reactor sends cells and changes the
  parameters at any time.\<close>

definition within :: "u32 \<Rightarrow> u32 \<Rightarrow> padding_parameters \<Rightarrow> bool" where
  "within lo hi p \<longleftrightarrow> lo \<le> pp_low p \<and> pp_low p \<le> pp_high p \<and> pp_high p \<le> hi"

inductive timer_run :: "nat \<Rightarrow> sampler \<Rightarrow> u32 \<Rightarrow> u32 \<Rightarrow> padding_timer \<Rightarrow> nat \<Rightarrow> nat \<Rightarrow> bool"
  for imax rnd lo hi where
  run_start: "within lo hi p \<Longrightarrow> timer_new rnd k p = Inr t \<Longrightarrow> now + unat hi * 10 ^ 6 \<le> imax \<Longrightarrow>
    timer_run imax rnd lo hi (snd (timer_next imax rnd now t)) now now"
| run_cell: "timer_run imax rnd lo hi t now since \<Longrightarrow> now \<le> now' \<Longrightarrow> pt_waker t = Some w \<Longrightarrow> now' < w \<Longrightarrow>
    now' + unat hi * 10 ^ 6 \<le> imax \<Longrightarrow>
    timer_run imax rnd lo hi (snd (timer_next imax rnd now' (timer_note_cell_sent t))) now' now'"
| run_poll: "timer_run imax rnd lo hi t now since \<Longrightarrow> now \<le> now' \<Longrightarrow> pt_waker t = Some w \<Longrightarrow> now' \<le> w \<Longrightarrow>
    now' + unat hi * 10 ^ 6 \<le> imax \<Longrightarrow> timer_next imax rnd now' t = (padding, t') \<Longrightarrow>
    timer_run imax rnd lo hi t' now' (if padding then now' else since)"
| run_reconfigure: "timer_run imax rnd lo hi t now since \<Longrightarrow> within lo hi p \<Longrightarrow>
    timer_run imax rnd lo hi (snd (timer_reconfigure p t)) now since"

section \<open>Bounds\<close>

definition samples_in_range :: "sampler \<Rightarrow> bool" where
  "samples_in_range rnd \<longleftrightarrow> (\<forall>k lo hi. lo \<le> hi \<longrightarrow> lo \<le> rnd k lo hi \<and> rnd k lo hi \<le> hi)"

lemma select_timeout_bounds:
  assumes "samples_in_range rnd" "within lo hi p"
  shows "unat lo * 10 ^ 6 \<le> select_timeout rnd k p" "select_timeout rnd k p \<le> unat hi * 10 ^ 6"
proof -
  let ?m = "max (rnd k (pp_low p) (pp_high p)) (rnd (k + 1) (pp_low p) (pp_high p))"
  have "pp_low p \<le> rnd j (pp_low p) (pp_high p) \<and> rnd j (pp_low p) (pp_high p) \<le> pp_high p" for j
    using assms by (simp add: samples_in_range_def within_def)
  then have "lo \<le> ?m" "?m \<le> hi" using assms(2) by (auto simp: within_def max_def intro: order_trans)
  then show "unat lo * 10 ^ 6 \<le> select_timeout rnd k p" "select_timeout rnd k p \<le> unat hi * 10 ^ 6"
    by (simp_all add: select_timeout_def word_le_nat_alt)
qed

text \<open>Between two polls the timer sleeps until its trigger time, or, when a cell was sent in the
  meantime, until a trigger time that is out of date.\<close>

definition timer_inv :: "u32 \<Rightarrow> u32 \<Rightarrow> padding_timer \<Rightarrow> nat \<Rightarrow> nat \<Rightarrow> bool" where
  "timer_inv lo hi t now since \<longleftrightarrow>
     (\<exists>T w p. pt_parameters t = Some p \<and> within lo hi p \<and> pt_selected_timeout t = Some T \<and>
        unat lo * 10 ^ 6 \<le> T \<and> T \<le> unat hi * 10 ^ 6 \<and> pt_waker t = Some w \<and> since \<le> now \<and> now < w \<and>
        (pt_trigger_at t = Some w \<and> since + T \<le> w \<and> w \<le> since + 2 * T \<and> w \<le> now + T \<or>
         pt_trigger_at t = None \<and> w \<le> since + T))"

lemma timer_next_early:
  "pt_selected_timeout t = Some T \<Longrightarrow> pt_waker t = Some w \<Longrightarrow> now < w \<Longrightarrow> timer_next imax rnd now t = (False, t)"
  by (simp add: timer_next.simps prepare_to_sleep_def)

text \<open>A timer without waker and trigger time is set to its timeout.\<close>

lemma timer_arm:
  assumes "pt_selected_timeout t = Some T" "pt_waker t = None" "pt_trigger_at t = None" "0 < T" "now + T \<le> imax"
  shows "prepare_to_sleep imax now t =
      (Waker (now + T), t\<lparr>pt_trigger_at := Some (now + T), pt_waker := Some (now + T)\<rparr>)"
    "timer_next imax rnd now t = (False, t\<lparr>pt_trigger_at := Some (now + T), pt_waker := Some (now + T)\<rparr>)"
proof -
  show "prepare_to_sleep imax now t =
      (Waker (now + T), t\<lparr>pt_trigger_at := Some (now + T), pt_waker := Some (now + T)\<rparr>)"
    using assms by (simp add: prepare_to_sleep_def)
  then show "timer_next imax rnd now t = (False, t\<lparr>pt_trigger_at := Some (now + T), pt_waker := Some (now + T)\<rparr>)"
    using assms by (simp add: timer_next.simps)
qed

lemma armed_inv:
  assumes "pt_parameters t = Some p" "within lo hi p" "pt_selected_timeout t = Some T"
    and "unat lo * 10 ^ 6 \<le> T" "T \<le> unat hi * 10 ^ 6" "0 < T"
  shows "timer_inv lo hi (t\<lparr>pt_trigger_at := Some (now + T), pt_waker := Some (now + T)\<rparr>) now now"
  using assms by (auto simp: timer_inv_def)

text \<open>When the waker fires, the timer sends padding, or, if its trigger time was out of date,
  sleeps for its timeout again.\<close>

lemma timer_fires:
  assumes inv: "timer_inv lo hi t now since" and rnd: "samples_in_range rnd" and lo: "0 < lo"
    and w: "pt_waker t = Some w" and imax: "w + unat hi * 10 ^ 6 \<le> imax"
  obtains (padding) t' where "timer_next imax rnd w t = (True, t')" "timer_inv lo hi t' w w"
      "unat lo * 10 ^ 6 \<le> w - since" "w - since \<le> 2 * (unat hi * 10 ^ 6)"
    | (again) t' where "timer_next imax rnd w t = (False, t')" "timer_inv lo hi t' w since"
      "pt_trigger_at t = None" "pt_trigger_at t' \<noteq> None"
proof -
  obtain T p where t: "pt_parameters t = Some p" "within lo hi p" "pt_selected_timeout t = Some T"
      "unat lo * 10 ^ 6 \<le> T" "T \<le> unat hi * 10 ^ 6" "since \<le> now" "now < w"
    and cases: "pt_trigger_at t = Some w \<and> since + T \<le> w \<and> w \<le> since + 2 * T \<or> pt_trigger_at t = None \<and> w \<le> since + T"
    using inv w by (auto simp: timer_inv_def)
  have "0 < unat lo" using lo by (simp add: word_less_nat_alt)
  then have pos: "0 < x" if "unat lo * 10 ^ 6 \<le> x" for x :: nat using that by (metis gr0I mult_is_0 le_zero_eq power_not_zero zero_neq_numeral)
  let ?t = "t\<lparr>pt_waker := None\<rparr>"
  have wake: "timer_next imax rnd w t = timer_next imax rnd w ?t"
    using t(3) w by (subst timer_next.simps) (simp add: prepare_to_sleep_def)
  show thesis
  proof (cases "pt_trigger_at t")
    case None
    then have "timer_next imax rnd w ?t = (False, ?t\<lparr>pt_trigger_at := Some (w + T), pt_waker := Some (w + T)\<rparr>)"
      using t pos imax by (intro timer_arm) auto
    moreover have "timer_inv lo hi (?t\<lparr>pt_trigger_at := Some (w + T), pt_waker := Some (w + T)\<rparr>) w since"
      using t cases None pos by (auto simp: timer_inv_def)
    ultimately show thesis using again wake None by simp
  next
    case (Some tr)
    with cases have tr: "tr = w" "since + T \<le> w" "w \<le> since + 2 * T" by auto
    let ?f = "select_fresh_timeout rnd ?t"
    define S where "S = select_timeout rnd (pt_samples t) p"
    have S: "unat lo * 10 ^ 6 \<le> S" "S \<le> unat hi * 10 ^ 6"
      using select_timeout_bounds [OF rnd t(2)] by (simp_all add: S_def)
    have "prepare_to_sleep imax w ?t = (Immediate w, ?t)"
      using t(3) Some tr(1) by (simp add: prepare_to_sleep_def)
    then have "timer_next imax rnd w ?t = (True, snd (prepare_to_sleep imax w ?f))"
      by (simp add: timer_next.simps)
    moreover have "prepare_to_sleep imax w ?f =
        (Waker (w + S), ?f\<lparr>pt_trigger_at := Some (w + S), pt_waker := Some (w + S)\<rparr>)"
      using t(1) S pos [OF S(1)] imax by (intro timer_arm) (auto simp: select_fresh_timeout_def S_def)
    moreover have "timer_inv lo hi (?f\<lparr>pt_trigger_at := Some (w + S), pt_waker := Some (w + S)\<rparr>) w w"
      using t(1,2) S pos [OF S(1)] by (intro armed_inv [of _ p]) (auto simp: select_fresh_timeout_def S_def)
    moreover have "unat lo * 10 ^ 6 \<le> w - since" "w - since \<le> 2 * (unat hi * 10 ^ 6)" using tr t(4,5) by auto
    ultimately show thesis using padding wake by simp
  qed
qed

lemma timer_run_inv:
  assumes "timer_run imax rnd lo hi t now since" "samples_in_range rnd" "0 < lo"
  shows "timer_inv lo hi t now since"
  using assms
proof (induction rule: timer_run.induct)
  case (run_start p k t now)
  define S where "S = select_timeout rnd k p"
  have S: "unat lo * 10 ^ 6 \<le> S" "S \<le> unat hi * 10 ^ 6"
    using select_timeout_bounds run_start by (simp_all add: S_def)
  have "0 < unat lo" using run_start by (simp add: word_less_nat_alt)
  then have pos: "0 < S" using S(1) by (metis gr0I mult_is_0 le_zero_eq power_not_zero zero_neq_numeral)
  have t: "pt_parameters t = Some p" "pt_selected_timeout t = Some S" "pt_waker t = None" "pt_trigger_at t = None"
    using run_start by (auto simp: timer_new_def prepare_def S_def split: if_splits)
  then show ?case using timer_arm [of t S now imax] armed_inv [of t p] run_start S pos by simp
next
  case (run_cell t now since now' w)
  then obtain T where T: "pt_selected_timeout t = Some T" by (auto simp: timer_inv_def)
  then have "timer_next imax rnd now' (timer_note_cell_sent t) = (False, timer_note_cell_sent t)"
    using run_cell by (intro timer_next_early) (auto simp: timer_note_cell_sent_def)
  then show ?case using run_cell by (auto simp: timer_inv_def timer_note_cell_sent_def)
next
  case (run_poll t now since now' w padding t')
  then have inv: "timer_inv lo hi t now since" by simp
  show ?case
  proof (cases "now' < w")
    case True
    obtain T where T: "pt_selected_timeout t = Some T" using inv by (auto simp: timer_inv_def)
    then have "timer_next imax rnd now' t = (False, t)" using run_poll True by (intro timer_next_early) auto
    then show ?thesis using run_poll inv True by (auto simp: timer_inv_def)
  next
    case False
    then have "now' = w" using run_poll by simp
    then show ?thesis
      using run_poll by (cases rule: timer_fires [OF inv, of rnd w imax]) auto
  qed
next
  case (run_reconfigure t now since p)
  then show ?case by (auto simp: timer_inv_def timer_reconfigure_def prepare_def within_def)
qed

section \<open>Property\<close>

text \<open>C12. When a channel sends padding: never before the lower bound of its parameters has passed
  since the last cell, and never later than twice the upper bound. The timer always has a time at
  which it wakes up; if it does not send padding then, it does so at the next one, unless a cell
  is sent before. The factor of two is reached: a cell only clears the trigger time, and the
  timer computes a new one when the old waker fires, not when it is polled after the cell.\<close>

theorem padding_gap_bounds:
  assumes "timer_run imax rnd lo hi t now since" "samples_in_range rnd" "0 < lo"
    and "now + 4 * (unat hi * 10 ^ 6) \<le> imax"
  shows "\<exists>w. pt_waker t = Some w \<and> now < w \<and>
    (if fst (timer_next imax rnd w t)
     then unat lo * 10 ^ 6 \<le> w - since \<and> w - since \<le> 2 * (unat hi * 10 ^ 6)
     else \<exists>w'. pt_waker (snd (timer_next imax rnd w t)) = Some w' \<and>
       fst (timer_next imax rnd w' (snd (timer_next imax rnd w t))) \<and>
       unat lo * 10 ^ 6 \<le> w' - since \<and> w' - since \<le> 2 * (unat hi * 10 ^ 6))"
proof -
  have inv: "timer_inv lo hi t now since" by (rule timer_run_inv [OF assms(1-3)])
  then obtain w where w: "pt_waker t = Some w" "now < w" "w \<le> now + unat hi * 10 ^ 6"
    by (auto simp: timer_inv_def)
  then have imax: "w + unat hi * 10 ^ 6 \<le> imax" using assms(4) by simp
  show ?thesis
  proof (cases rule: timer_fires [OF inv assms(2,3) w(1) imax])
    case (1 t')
    then show ?thesis using w by simp
  next
    case (2 t')
    then obtain w' where w': "pt_waker t' = Some w'" "w' \<le> w + unat hi * 10 ^ 6" by (auto simp: timer_inv_def)
    then have imax': "w' + unat hi * 10 ^ 6 \<le> imax" using w(3) assms(4) by simp
    show ?thesis
    proof (cases rule: timer_fires [OF 2(2) assms(2,3) w'(1) imax'])
      case (1 t'')
      then show ?thesis using w w' 2(1) by simp
    next
      case again: (2 t'')
      then show ?thesis using 2(4) by simp
    qed
  qed
qed

text \<open>With both bounds at 9.5 seconds and a cell one nanosecond after the start, padding comes 19
  seconds after the start.\<close>

definition top_sampler :: sampler where
  "top_sampler k lo hi = hi"

definition sample_timer :: padding_timer where
  "sample_timer = \<lparr>pt_parameters = Some \<lparr>pp_low = 9500, pp_high = 9500\<rparr>, pt_selected_timeout = Some 9500000000,
     pt_trigger_at = None, pt_waker = Some 9500000000, pt_samples = 2\<rparr>"

lemma sample_timer_run: "timer_run 1000000000000 top_sampler 9500 9500 sample_timer 1 1"
proof -
  let ?p = "\<lparr>pp_low = 9500, pp_high = 9500\<rparr>" and ?i = "1000000000000 :: nat"
  define t0 where "t0 = \<lparr>pt_parameters = Some ?p, pt_selected_timeout = Some 9500000000,
     pt_trigger_at = None, pt_waker = None, pt_samples = (2 :: nat)\<rparr>"
  have new: "timer_new top_sampler 0 ?p = Inr t0"
    by (simp add: timer_new_def prepare_def select_timeout_def top_sampler_def t0_def)
  have arm: "timer_next ?i top_sampler 0 t0 =
      (False, t0\<lparr>pt_trigger_at := Some 9500000000, pt_waker := Some 9500000000\<rparr>)"
    using timer_arm(2) [of t0 9500000000 0 ?i] by (simp add: t0_def)
  have "timer_run ?i top_sampler 9500 9500 (snd (timer_next ?i top_sampler 0 t0)) 0 0"
    by (rule run_start [OF _ new]) (simp_all add: within_def)
  then have "timer_run ?i top_sampler 9500 9500
      (snd (timer_next ?i top_sampler 1 (timer_note_cell_sent (snd (timer_next ?i top_sampler 0 t0))))) 1 1"
    by (rule run_cell [where w = 9500000000]) (simp_all add: arm)
  moreover have "timer_note_cell_sent (snd (timer_next ?i top_sampler 0 t0)) = sample_timer"
    unfolding arm by (simp add: timer_note_cell_sent_def sample_timer_def t0_def)
  moreover have "timer_next ?i top_sampler 1 sample_timer = (False, sample_timer)"
    by (rule timer_next_early [of _ 9500000000 9500000000]) (simp_all add: sample_timer_def)
  ultimately show ?thesis by simp
qed

theorem padding_gap_bounds_witness:
  "\<exists>t w'. timer_run 1000000000000 top_sampler 9500 9500 t 1 1 \<and>
     \<not> fst (timer_next 1000000000000 top_sampler 9500000000 t) \<and>
     pt_waker (snd (timer_next 1000000000000 top_sampler 9500000000 t)) = Some w' \<and> w' = 19000000000 \<and>
     fst (timer_next 1000000000000 top_sampler w' (snd (timer_next 1000000000000 top_sampler 9500000000 t)))"
proof -
  let ?i = "1000000000000 :: nat"
  have "timer_next ?i top_sampler 9500000000 sample_timer =
      timer_next ?i top_sampler 9500000000 (sample_timer\<lparr>pt_waker := None\<rparr>)"
    by (subst timer_next.simps) (simp add: prepare_to_sleep_def sample_timer_def)
  also have "\<dots> = (False, sample_timer\<lparr>pt_waker := None, pt_trigger_at := Some 19000000000, pt_waker := Some 19000000000\<rparr>)"
    using timer_arm(2) [of "sample_timer\<lparr>pt_waker := None\<rparr>" 9500000000 9500000000 ?i top_sampler]
    by (simp add: sample_timer_def)
  finally have next1: "timer_next ?i top_sampler 9500000000 sample_timer =
      (False, sample_timer\<lparr>pt_waker := None, pt_trigger_at := Some 19000000000, pt_waker := Some 19000000000\<rparr>)" .
  have "pt_waker sample_timer = Some 9500000000" by (simp add: sample_timer_def)
  then show ?thesis
    using padding_gap_bounds [OF sample_timer_run] sample_timer_run next1
    by (auto simp: samples_in_range_def top_sampler_def)
qed

end
