(* ===== verification/SinkBlocker.thy ===== *)
theory SinkBlocker
  imports Prelude
begin

text \<open>
  Blocking a sink by a policy: \<open>util/sink_blocker.rs\<close> of \<open>tor-proto\<close> with its two policies,
  \<open>boolean_policy.rs\<close> and \<open>counting_policy.rs\<close>. The sink below is the list of the items it has
  taken; what it answers when it is polled is an argument. A waker is whether one is stored.
  The trait \<open>Policy\<close> is a record of its methods, and what its documentation demands of an
  implementation is the locale \<open>sink_policy\<close>.
\<close>

section \<open>Policies\<close>

record 'p policy_ops =
  po_is_blocking :: "'p \<Rightarrow> bool"
  po_take_one :: "'p \<Rightarrow> 'p option"

datatype BooleanPolicy = Blocked | Unblocked

definition boolean_is_blocking :: "BooleanPolicy \<Rightarrow> bool" where
  "boolean_is_blocking p \<longleftrightarrow> p = Blocked"

definition boolean_take_one :: "BooleanPolicy \<Rightarrow> BooleanPolicy option" where
  "boolean_take_one p = (case p of Blocked \<Rightarrow> None | Unblocked \<Rightarrow> Some p)"

definition boolean_policy :: "BooleanPolicy policy_ops" where
  "boolean_policy = \<lparr>po_is_blocking = boolean_is_blocking, po_take_one = boolean_take_one\<rparr>"

text \<open>\<open>CountingPolicy\<close>: the number of items that may still be sent, or \<open>None\<close> for any number. The
  greatest \<open>u32\<close> is not a number of items (\<open>NonMaxU32\<close>).\<close>

type_synonym CountingPolicy = "u32 option"

definition MAX_LIMIT :: u32 where
  "MAX_LIMIT = - 2"

definition new_unlimited :: CountingPolicy where
  "new_unlimited = None"

definition new_blocked :: CountingPolicy where
  "new_blocked = Some 0"

definition new_limited :: "u32 \<Rightarrow> CountingPolicy" where
  "new_limited n = Some (if n = - 1 then MAX_LIMIT else n)"

definition policy_saturating_add :: "u32 \<Rightarrow> CountingPolicy \<Rightarrow> CountingPolicy" where
  "policy_saturating_add n p =
     (case p of
        Some current \<Rightarrow> new_limited (if unat current + unat n < 2 ^ 32 then current + n else - 1)
      | None \<Rightarrow> new_unlimited)"

definition is_unlimited :: "CountingPolicy \<Rightarrow> bool" where
  "is_unlimited p \<longleftrightarrow> p = None"

definition is_blocking :: "CountingPolicy \<Rightarrow> bool" where
  "is_blocking p \<longleftrightarrow> p = Some 0"

definition take_one :: "CountingPolicy \<Rightarrow> CountingPolicy option" where
  "take_one p = (case p of None \<Rightarrow> Some None | Some n \<Rightarrow> if n = 0 then None else Some (Some (n - 1)))"

definition counting_policy :: "CountingPolicy policy_ops" where
  "counting_policy = \<lparr>po_is_blocking = is_blocking, po_take_one = take_one\<rparr>"

section \<open>The blocker\<close>

record ('p, 'i) sink_blocker =
  sb_inner :: "'i list"
  sb_policy :: 'p
  sb_waker :: bool

datatype 'e poll = PollPending | PollReady "'e + unit"

datatype 'e send_error = SendInner 'e | SendPanic

definition SinkBlocker_new :: "'p \<Rightarrow> ('p, 'i) sink_blocker" where
  "SinkBlocker_new p = \<lparr>sb_inner = [], sb_policy = p, sb_waker = False\<rparr>"

text \<open>\<open>update_policy\<close>: whether a waker is alerted.\<close>

definition update_policy ::
    "'p policy_ops \<Rightarrow> 'p \<Rightarrow> ('p, 'i) sink_blocker \<Rightarrow> bool \<times> ('p, 'i) sink_blocker" where
  "update_policy ops new_policy sb =
     (let was_blocking = po_is_blocking ops (sb_policy sb);
          now_blocking = po_is_blocking ops new_policy;
          sb = sb\<lparr>sb_policy := new_policy\<rparr>
      in if was_blocking \<and> \<not> now_blocking then (sb_waker sb, sb\<lparr>sb_waker := False\<rparr>) else (False, sb))"

definition sb_poll_ready ::
    "'p policy_ops \<Rightarrow> 'e poll \<Rightarrow> ('p, 'i) sink_blocker \<Rightarrow> 'e poll \<times> ('p, 'i) sink_blocker" where
  "sb_poll_ready ops inner sb =
     (if po_is_blocking ops (sb_policy sb) then (PollPending, sb\<lparr>sb_waker := True\<rparr>) else (inner, sb))"

definition sb_start_send ::
    "'p policy_ops \<Rightarrow> 'e + unit \<Rightarrow> 'i \<Rightarrow> (('p, 'i) sink_blocker, 'e send_error, unit) eff" where
  "sb_start_send ops inner item sb =
     (case inner of
        Inl e \<Rightarrow> (Inl (SendInner e), sb)
      | Inr _ \<Rightarrow>
          let sb = sb\<lparr>sb_inner := sb_inner sb @ [item]\<rparr>
          in case po_take_one ops (sb_policy sb) of
               None \<Rightarrow> (Inl SendPanic, sb)
             | Some p \<Rightarrow> (Inr (), sb\<lparr>sb_policy := p\<rparr>))"

text \<open>A history of a blocker, with whether a task waits because the policy blocked it. An item is
  sent only after a poll that succeeded, and the task that sends does not wait.\<close>

inductive sb_run :: "'p policy_ops \<Rightarrow> ('p, 'i) sink_blocker \<Rightarrow> bool \<Rightarrow> bool" for ops where
  sb_start: "sb_run ops (SinkBlocker_new p) False"
| sb_poll: "sb_run ops sb waiting \<Longrightarrow>
    sb_run ops (snd (sb_poll_ready ops (inner :: unit poll) sb)) (po_is_blocking ops (sb_policy sb))"
| sb_send: "sb_run ops sb waiting \<Longrightarrow> fst (sb_poll_ready ops (PollReady (Inr ()) :: unit poll) sb) = PollReady (Inr ()) \<Longrightarrow>
    sb_run ops (snd (sb_start_send ops (res :: unit + unit) item sb)) waiting"
| sb_update: "sb_run ops sb waiting \<Longrightarrow> update_policy ops p sb = (woken, sb') \<Longrightarrow>
    sb_run ops sb' (waiting \<and> \<not> woken)"

section \<open>The contract\<close>

text \<open>\<open>take_one\<close> succeeds exactly if the policy does not block.\<close>

locale sink_policy =
  fixes ops :: "'p policy_ops"
  assumes take_one_iff: "po_take_one ops p = None \<longleftrightarrow> po_is_blocking ops p"
begin

lemma send_after_ready:
  assumes "fst (sb_poll_ready ops inner sb) = PollReady (Inr ())"
  shows "\<exists>p. po_take_one ops (sb_policy sb) = Some p \<and>
    sb_start_send ops (Inr ()) item sb = (Inr (), sb\<lparr>sb_inner := sb_inner sb @ [item], sb_policy := p\<rparr>)"
proof -
  have "\<not> po_is_blocking ops (sb_policy sb)" using assms by (auto simp: sb_poll_ready_def split: if_splits)
  then obtain p where "po_take_one ops (sb_policy sb) = Some p" using take_one_iff by (metis option.exhaust)
  then show ?thesis by (simp add: sb_start_send_def)
qed

lemma send_never_panics:
  "fst (sb_poll_ready ops inner sb) = PollReady (Inr ()) \<Longrightarrow> fst (sb_start_send ops res item sb) \<noteq> Inl SendPanic"
  using send_after_ready [of inner sb item] by (cases res) (auto simp: sb_start_send_def)

text \<open>A task that waits for the policy has its waker stored and is blocked still: when the policy
  stops blocking, the waker is alerted.\<close>

lemma waiting_is_blocked:
  "sb_run ops sb waiting \<Longrightarrow> waiting \<Longrightarrow> sb_waker sb \<and> po_is_blocking ops (sb_policy sb)"
proof (induction rule: sb_run.induct)
  case (sb_poll sb waiting inner)
  then show ?case by (simp add: sb_poll_ready_def)
next
  case (sb_send sb waiting res item)
  then show ?case by (auto simp: sb_poll_ready_def)
next
  case (sb_update sb waiting p woken sb')
  then show ?case by (auto simp: update_policy_def Let_def split: if_splits)
qed simp

lemma unblocking_wakes:
  "sb_run ops sb True \<Longrightarrow> \<not> po_is_blocking ops p \<Longrightarrow> fst (update_policy ops p sb)"
  using waiting_is_blocked by (auto simp: update_policy_def Let_def)

end

interpretation boolean: sink_policy boolean_policy
  by unfold_locales (simp add: boolean_policy_def boolean_is_blocking_def boolean_take_one_def split: BooleanPolicy.split)

interpretation counting: sink_policy counting_policy
  by unfold_locales (simp add: counting_policy_def is_blocking_def take_one_def split: option.split)

section \<open>Counting\<close>

text \<open>The count never becomes the value that is not a count.\<close>

definition counting_ok :: "CountingPolicy \<Rightarrow> bool" where
  "counting_ok p \<longleftrightarrow> p \<noteq> Some (- 1)"

lemma counting_ok_ops [simp]:
  "counting_ok new_unlimited" "counting_ok new_blocked" "counting_ok (new_limited n)"
  "counting_ok (policy_saturating_add n p)"
  by (simp_all add: counting_ok_def new_unlimited_def new_blocked_def new_limited_def MAX_LIMIT_def
      policy_saturating_add_def split: option.split)

lemma take_one_ok: "take_one p = Some p' \<Longrightarrow> counting_ok p'"
  by (auto simp: take_one_def counting_ok_def split: option.splits if_splits)

end
