(* ===== verification/ChanReactor.thy ===== *)
theory ChanReactor
  imports CircMap PaddingTimer SinkBlocker
begin

text \<open>
  The reactor of a channel: \<open>channel/reactor.rs\<close> of \<open>tor-proto\<close>, with the time stamp of a channel that is not used
  (\<open>util/ts.rs\<close>). The other ends of a circuit's channels are part of the state: whether the
  receiver still exists, and what has been sent to it. Sending to a queue that is full waits,
  so a queue has no bound here. The connection below the output accepts cells, or fails when it
  is polled; a \<open>send\<close> that finds the policy blocking never completes, because only the reactor
  changes the policy: its result is \<open>OutputPending\<close>. The padding framework (the crate
  \<open>maybenot\<close>) is the events it gives to the reactor and the list of reports it gets. The features
  \<open>circ-padding\<close> and \<open>circ-padding-manual\<close> are on, the platform is Linux, and the texts of two
  errors leave out the message or command that the code prints in them.
\<close>

section \<open>State\<close>

datatype CreateResponse =
    CrDestroy DestroyReason
  | CrCreatedFast "byte list"
  | CrCreated2 "byte list"

fun create_response :: "any_chan_msg \<Rightarrow> CreateResponse option" where
  "create_response (Destroy r) = Some (CrDestroy r)"
| "create_response (CreatedFast h) = Some (CrCreatedFast h)"
| "create_response (Created2 h) = Some (CrCreated2 h)"
| "create_response _ = None"

text \<open>The entries of the queue of outgoing cells carry what the padding framework of the circuit
  is told when they are sent.\<close>

type_synonym padding_info = nat

type_synonym queue_entry = "chan_cell \<times> padding_info option"

record special_outgoing =
  so_padding_negotiate :: "padding_negotiate option"
  so_n_padding :: u16

datatype Replace = Replaceable | NotReplaceable

datatype Bypass = BypassBlocking | DoNotBypass

record send_padding =
  sp_machine :: nat
  sp_hop :: nat
  sp_replace :: Replace
  sp_bypass :: Bypass

record start_blocking =
  is_bypassable :: bool

datatype PaddingEvent =
    SendPadding send_padding
  | StartBlocking start_blocking
  | StopBlocking

datatype padding_report =
    ReplaceablePaddingAlreadyQueued send_padding
  | QueuedDataAsPadding send_padding
  | QueuedPadding send_padding
  | QueuedData
  | FlushedChannelCell
  | FlushedRelayCell nat padding_info
  | DecryptedPadding
  | DecryptedData
  | InstallPadder "nat option"

record chan_reactor =
  rc_circs :: circ_map
  rc_created_alive :: "nat \<Rightarrow> bool"
  rc_created :: "nat \<Rightarrow> CreateResponse list"
  rc_cells_alive :: "nat \<Rightarrow> bool"
  rc_delivered :: "nat \<Rightarrow> any_chan_msg list"
  rc_cells :: "queue_entry list"
  rc_cells_closed :: bool
  rc_output :: "chan_cell list"
  rc_policy :: CountingPolicy
  rc_blocker :: "start_blocking option"
  rc_special :: special_outgoing
  rc_timer :: padding_timer
  rc_unused_since :: u64
  rc_next_circ_id :: u64
  rc_link_protocol :: u16
  rc_answers :: "(chan_error + circ_id \<times> u64) list"
  rc_lowat :: "u32 option"
  rc_reports :: "padding_report list"

datatype KistMode = TcpNotSentLowat | KistDisabled

record kist_params =
  kist_enabled :: KistMode
  tcp_notsent_lowat :: u32

record padding_updates =
  pu_enable :: "bool option"
  pu_parameters :: "padding_parameters option"
  pu_negotiate :: "padding_negotiate option"

datatype CtrlMsg =
    CtrlShutdown
  | CloseCircuit circ_id
  | AllocateCircuit nat nat
  | ConfigUpdate padding_updates
  | KistConfigUpdate kist_params
  | SetChannelPadder "nat option"

definition report :: "padding_report \<Rightarrow> chan_reactor \<Rightarrow> chan_reactor" where
  "report x r = r\<lparr>rc_reports := rc_reports r @ [x]\<rparr>"

section \<open>Special cells\<close>

definition special_next :: "special_outgoing \<Rightarrow> any_chan_msg option \<times> special_outgoing" where
  "special_next so =
     (case so_padding_negotiate so of
        Some p \<Rightarrow> (Some (PaddingNegotiate p), so\<lparr>so_padding_negotiate := None\<rparr>)
      | None \<Rightarrow>
          if so_n_padding so > 0 then (Some Padding, so\<lparr>so_n_padding := so_n_padding so - 1\<rparr>)
          else (None, so))"

definition queue_padding_cell :: "special_outgoing \<Rightarrow> special_outgoing" where
  "queue_padding_cell so =
     so\<lparr>so_n_padding := (if so_n_padding so = - 1 then - 1 else so_n_padding so + 1)\<rparr>"

section \<open>Circuits\<close>

text \<open>\<open>AtomicOptTimestamp\<close>: 0 means that the channel is in use.\<close>

definition ts_update_to :: "u64 \<Rightarrow> u64 \<Rightarrow> u64" where
  "ts_update_to now latest = max latest now"

definition ts_update_if_none :: "u64 \<Rightarrow> u64 \<Rightarrow> u64" where
  "ts_update_if_none now latest = (if latest = 0 then now else latest)"

definition ts_time_since_update_at :: "u64 \<Rightarrow> u64 \<Rightarrow> u64 option" where
  "ts_time_since_update_at now earlier =
     (if earlier \<le> now \<and> earlier \<noteq> 0 then Some (now - earlier) else None)"

definition update_disused_since :: "u64 \<Rightarrow> chan_reactor \<Rightarrow> chan_reactor" where
  "update_disused_since now r =
     (if open_ent_count (rc_circs r) = 0
      then r\<lparr>rc_unused_since := ts_update_if_none now (rc_unused_since r)\<rparr>
      else r\<lparr>rc_unused_since := 0\<rparr>)"

definition send_cell :: "chan_cell \<Rightarrow> (chan_reactor, chan_error, unit) eff" where
  "send_cell cell r =
     (case take_one (rc_policy r) of
        None \<Rightarrow> (Inl OutputPending, r)
      | Some p \<Rightarrow> (Inr (), r\<lparr>rc_output := rc_output r @ [cell], rc_policy := p\<rparr>))"

definition outbound_destroy_circ :: "u64 \<Rightarrow> circ_id \<Rightarrow> (chan_reactor, chan_error, unit) eff" where
  "outbound_destroy_circ now cid r =
     send_cell \<lparr>cc_circid = Some cid, cc_msg = Destroy 0\<rparr>
       (update_disused_since now (r\<lparr>rc_circs := destroy_sent cid (HalfCirc_new 3000) (rc_circs r)\<rparr>))"

definition deliver_relay ::
    "u64 \<Rightarrow> circ_id option \<Rightarrow> any_chan_msg \<Rightarrow> (chan_reactor, chan_error, unit) eff" where
  "deliver_relay now circid msg r =
     (case circid of
        None \<Rightarrow> (Inl (ChanProtoErr ''Relay cell without circuit ID''), r)
      | Some cid \<Rightarrow>
     (case cm_m (rc_circs r) cid of
        None \<Rightarrow> (Inl (ChanProtoErr ''Relay cell on nonexistent circuit''), r)
      | Some (Open s) \<Rightarrow>
          if rc_cells_alive r s
          then (Inr (), r\<lparr>rc_delivered := (rc_delivered r)(s := rc_delivered r s @ [msg])\<rparr>)
          else outbound_destroy_circ now cid r
      | Some (Opening _ _) \<Rightarrow>
          (Inl (ChanProtoErr ''Relay cell on pending circuit before CREATED* received''), r)
      | Some (DestroySent _) \<Rightarrow>
          (case with_circ_ent cid (ChanInternal [])
                  (\<lambda>ent. case ent of
                           DestroySent hs \<Rightarrow> (case receive_cell hs of (res, hs') \<Rightarrow> (res, DestroySent hs'))
                         | _ \<Rightarrow> (Inr (), ent)) (rc_circs r) of
             (res, circs) \<Rightarrow> (res, r\<lparr>rc_circs := circs\<rparr>))))"

definition send_created :: "nat \<Rightarrow> any_chan_msg \<Rightarrow> chan_error \<Rightarrow> (chan_reactor, chan_error, unit) eff" where
  "send_created s msg gone r =
     (case create_response msg of
        None \<Rightarrow> (Inl (ChanProtoErr ''Got a message in response to circuit creation''), r)
      | Some resp \<Rightarrow>
          if rc_created_alive r s
          then (Inr (), r\<lparr>rc_created := (rc_created r)(s := rc_created r s @ [resp])\<rparr>)
          else (Inl gone, r))"

definition deliver_created ::
    "circ_id option \<Rightarrow> any_chan_msg \<Rightarrow> (chan_reactor, chan_error, unit) eff" where
  "deliver_created circid msg r =
     (case circid of
        None \<Rightarrow> (Inl (ChanProtoErr '''Created' cell without circuit ID''), r)
      | Some cid \<Rightarrow>
          (case advance_from_opening cid (rc_circs r) of
             (Inl e, circs) \<Rightarrow> (Inl e, r\<lparr>rc_circs := circs\<rparr>)
           | (Inr target, circs) \<Rightarrow>
               send_created target msg
                 (ChanInternal ''Circuit queue rejected created message. Is it closing?'')
                 (r\<lparr>rc_circs := circs\<rparr>)))"

definition deliver_destroy ::
    "u64 \<Rightarrow> circ_id option \<Rightarrow> any_chan_msg \<Rightarrow> (chan_reactor, chan_error, unit) eff" where
  "deliver_destroy now circid msg r =
     (case circid of
        None \<Rightarrow> (Inl (ChanProtoErr '''Destroy' cell without circuit ID''), r)
      | Some cid \<Rightarrow>
          (case circ_remove cid (rc_circs r) of
             (entry, circs) \<Rightarrow>
               let r = update_disused_since now (r\<lparr>rc_circs := circs\<rparr>)
               in (case entry of
                     Some (Opening created _) \<Rightarrow>
                       send_created created msg
                         (ChanInternal ''pending circuit wasn't interested in destroy cell?'') r
                   | Some (Open s) \<Rightarrow>
                       if rc_cells_alive r s
                       then (Inr (), r\<lparr>rc_delivered := (rc_delivered r)(s := rc_delivered r s @ [msg])\<rparr>)
                       else (Inl (ChanInternal ''open circuit wasn't interested in destroy cell?''), r)
                   | Some (DestroySent _) \<Rightarrow> (Inr (), r)
                   | None \<Rightarrow> (Inl (ChanProtoErr ''Destroy for nonexistent circuit''), r))))"

definition chan_handle_cell :: "u64 \<Rightarrow> chan_cell \<Rightarrow> (chan_reactor, chan_error, unit) eff" where
  "chan_handle_cell now cell r =
     (let circid = cc_circid cell; msg = cc_msg cell;
          r = report (case msg of Padding \<Rightarrow> DecryptedPadding | Vpadding _ \<Rightarrow> DecryptedPadding | _ \<Rightarrow> DecryptedData) r
      in case msg of
           Relay _ \<Rightarrow> deliver_relay now circid msg r
         | Destroy _ \<Rightarrow> deliver_destroy now circid msg r
         | CreatedFast _ \<Rightarrow> deliver_created circid msg r
         | Created2 _ \<Rightarrow> deliver_created circid msg r
         | Padding \<Rightarrow> (Inr (), r)
         | Vpadding _ \<Rightarrow> (Inr (), r)
         | _ \<Rightarrow> (Inl (ChanProtoErr ''Unexpected cell''), r))"

section \<open>Control messages\<close>

text \<open>\<open>AllocateCircuit\<close>: the caller is sent the identifiers or the error. A panic of the map or of
  the counter ends the reactor.\<close>

definition allocate_circuit ::
    "u64 \<Rightarrow> id_sampler \<Rightarrow> nat \<Rightarrow> nat \<Rightarrow> (chan_reactor, chan_error, unit) eff" where
  "allocate_circuit now rnd created_sender sender r =
     (case circ_uniq_next (rc_next_circ_id r) of
        (None, n) \<Rightarrow>
          (Inl (ChanPanic ''Exhausted the unique circuit ID namespace on a channel''), r\<lparr>rc_next_circ_id := n\<rparr>)
      | (Some uniq, n) \<Rightarrow>
          (case circ_add_ent rnd created_sender sender (rc_circs r) of
             (Inl (ChanPanic e), circs) \<Rightarrow> (Inl (ChanPanic e), r\<lparr>rc_circs := circs, rc_next_circ_id := n\<rparr>)
           | (res, circs) \<Rightarrow>
               (Inr (), update_disused_since now
                  (r\<lparr>rc_circs := circs, rc_next_circ_id := n,
                     rc_answers := rc_answers r @ [map_sum (\<lambda>e. e) (\<lambda>cid. (cid, uniq)) res]\<rparr>))))"

definition apply_kist_params :: "kist_params \<Rightarrow> chan_reactor \<Rightarrow> chan_reactor" where
  "apply_kist_params p r =
     r\<lparr>rc_lowat := Some (case kist_enabled p of TcpNotSentLowat \<Rightarrow> tcp_notsent_lowat p | KistDisabled \<Rightarrow> - 1)\<rparr>"

definition config_update :: "sampler \<Rightarrow> padding_updates \<Rightarrow> (chan_reactor, chan_error, unit) eff" where
  "config_update srnd u r =
     (if rc_link_protocol r = 4 then (Inr (), r)
      else
     (case (case pu_parameters u of
              None \<Rightarrow> (Inr (), rc_timer r)
            | Some p \<Rightarrow> timer_reconfigure p (rc_timer r)) of
        (Inl _, t) \<Rightarrow> (Inl (ChanInternal ''Parameters were not a valid range.''), r\<lparr>rc_timer := t\<rparr>)
      | (Inr _, t) \<Rightarrow>
          let t = (case pu_enable u of
                     None \<Rightarrow> t
                   | Some enable \<Rightarrow> if enable then timer_enable srnd t else timer_disable t);
              so = (case pu_negotiate u of
                      None \<Rightarrow> rc_special r
                    | Some n \<Rightarrow> (rc_special r)\<lparr>so_padding_negotiate := Some n\<rparr>)
          in (Inr (), r\<lparr>rc_timer := t, rc_special := so\<rparr>)))"

definition handle_control ::
    "u64 \<Rightarrow> id_sampler \<Rightarrow> sampler \<Rightarrow> CtrlMsg \<Rightarrow> (chan_reactor, chan_error, unit) eff" where
  "handle_control now rnd srnd msg r =
     (case msg of
        CtrlShutdown \<Rightarrow> (Inl (ChanPanic []), r)
      | CloseCircuit cid \<Rightarrow> outbound_destroy_circ now cid r
      | AllocateCircuit created_sender sender \<Rightarrow> allocate_circuit now rnd created_sender sender r
      | ConfigUpdate u \<Rightarrow> config_update srnd u r
      | KistConfigUpdate p \<Rightarrow> (Inr (), apply_kist_params p r)
      | SetChannelPadder padder \<Rightarrow> (Inr (), report (InstallPadder padder) r))"

section \<open>Padding events\<close>

text \<open>\<open>output_is_full\<close>: polling the blocker, and the connection below it when it does not block.\<close>

definition output_is_full :: "chan_error + bool \<Rightarrow> chan_reactor \<Rightarrow> chan_error + bool" where
  "output_is_full inner r = (if is_blocking (rc_policy r) then Inr True else inner)"

definition allow_bypass :: "bool \<Rightarrow> chan_reactor \<Rightarrow> chan_reactor" where
  "allow_bypass blocking_bypassed r =
     (if blocking_bypassed then r\<lparr>rc_policy := policy_saturating_add 1 (rc_policy r)\<rparr> else r)"

definition queue_padding :: "bool \<Rightarrow> send_padding \<Rightarrow> chan_reactor \<Rightarrow> chan_reactor" where
  "queue_padding blocking_bypassed padding r =
     allow_bypass blocking_bypassed
       (report (QueuedPadding padding) (r\<lparr>rc_special := queue_padding_cell (rc_special r)\<rparr>))"

definition handle_send_padding ::
    "chan_error + bool \<Rightarrow> send_padding \<Rightarrow> (chan_reactor, chan_error, unit) eff" where
  "handle_send_padding inner padding r =
     (if sp_hop padding \<noteq> 0 then (Inl (ChanPanic ''assertion failed''), r)
      else
     (let blocking_bypassed =
            ((case rc_blocker r of Some b \<Rightarrow> is_bypassable b | None \<Rightarrow> False) \<and> sp_bypass padding = BypassBlocking);
          this_padding_blocked = (rc_blocker r \<noteq> None \<and> \<not> blocking_bypassed)
      in if sp_replace padding = Replaceable
         then (case output_is_full inner r of
                 Inl e \<Rightarrow> (Inl e, r)
               | Inr True \<Rightarrow> (Inr (), report (ReplaceablePaddingAlreadyQueued padding) r)
               | Inr False \<Rightarrow>
                   if rc_cells r \<noteq> []
                   then (if this_padding_blocked
                         then (Inr (), report (ReplaceablePaddingAlreadyQueued padding) r)
                         else (Inr (), allow_bypass blocking_bypassed (report (QueuedDataAsPadding padding) r)))
                   else (Inr (), queue_padding blocking_bypassed padding r))
         else (Inr (), queue_padding blocking_bypassed padding r)))"

definition chan_handle_padding_event ::
    "chan_error + bool \<Rightarrow> PaddingEvent \<Rightarrow> (chan_reactor, chan_error, unit) eff" where
  "chan_handle_padding_event inner action r =
     (case action of
        SendPadding p \<Rightarrow> handle_send_padding inner p r
      | StartBlocking b \<Rightarrow>
          (Inr (), r\<lparr>rc_policy := (if is_unlimited (rc_policy r) then new_blocked else rc_policy r),
                     rc_blocker := Some b\<rparr>)
      | StopBlocking \<Rightarrow> (Inr (), r\<lparr>rc_policy := new_unlimited\<rparr>))"

section \<open>Sending\<close>

text \<open>The branch of \<open>run_once\<close> for the output, when the connection can take a cell: nothing happens
  while the policy blocks, or while there is nothing to send and the padding timer is not due;
  polling the timer may change it in that case. Otherwise a cell is chosen, reported and sent.\<close>

definition note_sent :: "chan_reactor \<Rightarrow> chan_reactor" where
  "note_sent r = r\<lparr>rc_timer := timer_note_cell_sent (rc_timer r)\<rparr>"

definition chan_flush :: "queue_entry option \<Rightarrow> (chan_reactor, chan_error, unit) eff" where
  "chan_flush queued r =
     (let r = report FlushedChannelCell r
      in case queued of
           None \<Rightarrow> (Inl ChanShutdown, r)
         | Some (cell, info) \<Rightarrow>
             send_cell cell
               (case (info, cc_circid cell) of
                  (Some i, Some cid) \<Rightarrow>
                    (case circ_note_cell_flushed cid (rc_circs r) of
                       Some c \<Rightarrow> report (FlushedRelayCell c i) r
                     | None \<Rightarrow> r)
                | _ \<Rightarrow> r))"

definition run_output :: "nat \<Rightarrow> sampler \<Rightarrow> nat \<Rightarrow> (chan_reactor, chan_error, unit) eff" where
  "run_output imax srnd instant r =
     (if is_blocking (rc_policy r) then (Inr (), r)
      else
     (case special_next (rc_special r) of
        (Some m, so) \<Rightarrow>
          chan_flush (Some (\<lparr>cc_circid = None, cc_msg = m\<rparr>, None)) (note_sent (r\<lparr>rc_special := so\<rparr>))
      | (None, _) \<Rightarrow>
     (case rc_cells r of
        c # cs \<Rightarrow> chan_flush (Some c) (note_sent (r\<lparr>rc_cells := cs\<rparr>))
      | [] \<Rightarrow>
          if rc_cells_closed r then chan_flush None (note_sent r)
          else (case timer_next imax srnd instant (rc_timer r) of
                  (False, t) \<Rightarrow> (Inr (), r\<lparr>rc_timer := t\<rparr>)
                | (True, t) \<Rightarrow>
                    chan_flush (Some (\<lparr>cc_circid = None, cc_msg = Padding\<rparr>, None))
                      (note_sent (report QueuedData (r\<lparr>rc_timer := t\<rparr>)))))))"

section \<open>One round\<close>

datatype chan_event =
    EvOutput nat
  | EvOutputError chan_error
  | EvControl "CtrlMsg option"
  | EvPadding "chan_error + bool" "PaddingEvent option"
  | EvInput "(chan_error + chan_cell) option"

definition chan_run_once ::
    "nat \<Rightarrow> id_sampler \<Rightarrow> sampler \<Rightarrow> u64 \<Rightarrow> chan_event \<Rightarrow> (chan_reactor, chan_error, unit) eff" where
  "chan_run_once imax rnd srnd now ev r =
     (case ev of
        EvOutput instant \<Rightarrow> run_output imax srnd instant r
      | EvOutputError e \<Rightarrow> (Inl e, report FlushedChannelCell r)
      | EvControl None \<Rightarrow> (Inl ChanShutdown, r)
      | EvControl (Some msg) \<Rightarrow>
          if msg = CtrlShutdown then (Inl ChanShutdown, r) else handle_control now rnd srnd msg r
      | EvPadding _ None \<Rightarrow> (Inl (ChanInternal ''Padding event stream was exhausted''), r)
      | EvPadding inner (Some e) \<Rightarrow> chan_handle_padding_event inner e r
      | EvInput None \<Rightarrow> (Inl ChanShutdown, r)
      | EvInput (Some (Inl e)) \<Rightarrow> (Inl e, r)
      | EvInput (Some (Inr cell)) \<Rightarrow> chan_handle_cell now cell r)"

text \<open>\<open>Channel::new\<close>: a client takes the high identifiers, the padding timer is disabled.\<close>

definition chan_reactor_new :: "u16 \<Rightarrow> u64 \<Rightarrow> chan_reactor" where
  "chan_reactor_new link_protocol now =
     \<lparr>rc_circs = CircMap_new RangeHigh, rc_created_alive = (\<lambda>_. True), rc_created = (\<lambda>_. []),
      rc_cells_alive = (\<lambda>_. True), rc_delivered = (\<lambda>_. []), rc_cells = [], rc_cells_closed = False,
      rc_output = [], rc_policy = new_unlimited, rc_blocker = None,
      rc_special = \<lparr>so_padding_negotiate = None, so_n_padding = 0\<rparr>,
      rc_timer = projr (timer_new_disabled 0 None), rc_unused_since = ts_update_to now 0,
      rc_next_circ_id = 0, rc_link_protocol = link_protocol, rc_answers = [], rc_lowat = None,
      rc_reports = []\<rparr>"

end
