(* ===== verification/ChanReactor_Laws.thy ===== *)
theory ChanReactor_Laws
  imports ChanReactor
begin

text \<open>
  What the reactor of a channel keeps over all its rounds: the circuit map counts its open
  circuits, the channel is marked as used exactly while it has one, and an open circuit has been
  given the relay cells of its identifier, in the order of their arrival and no others.
\<close>

section \<open>Runs\<close>

text \<open>What the peer and the clients of a channel see: circuits that were given an identifier,
  with the queue they read from, requests that failed, and the cells that came in.\<close>

datatype chan_obs = ObsAlloc circ_id nat | ObsFailed nat | ObsCell chan_cell

definition chan_observed :: "chan_event \<Rightarrow> chan_reactor \<Rightarrow> chan_obs list" where
  "chan_observed ev r =
     (case ev of
        EvControl (Some (AllocateCircuit _ sender)) \<Rightarrow>
          (case last (rc_answers r) of Inr (cid, _) \<Rightarrow> [ObsAlloc cid sender] | Inl _ \<Rightarrow> [ObsFailed sender])
      | EvInput (Some (Inr cell)) \<Rightarrow> [ObsCell cell]
      | _ \<Rightarrow> [])"

fun obs_sender :: "chan_obs \<Rightarrow> nat set" where
  "obs_sender (ObsAlloc _ s) = {s}"
| "obs_sender (ObsFailed s) = {s}"
| "obs_sender (ObsCell _) = {}"

definition senders :: "chan_obs list \<Rightarrow> nat set" where
  "senders tr = (\<Union>ob \<in> set tr. obs_sender ob)"

fun is_relay :: "any_chan_msg \<Rightarrow> bool" where
  "is_relay (Relay _) = True"
| "is_relay _ = False"

text \<open>The relay cells for an identifier since it was last given to a circuit.\<close>

fun obs_relay :: "circ_id \<Rightarrow> any_chan_msg list \<Rightarrow> chan_obs \<Rightarrow> any_chan_msg list" where
  "obs_relay cid acc (ObsAlloc c _) = (if c = cid then [] else acc)"
| "obs_relay cid acc (ObsFailed _) = acc"
| "obs_relay cid acc (ObsCell cell) =
     (if cc_circid cell = Some cid \<and> is_relay (cc_msg cell) then acc @ [cc_msg cell] else acc)"

definition relays_for :: "circ_id \<Rightarrow> chan_obs list \<Rightarrow> any_chan_msg list" where
  "relays_for cid tr = foldl (obs_relay cid) [] tr"

text \<open>Rounds that end without an error, between which clients queue cells, drop the ends of their
  queues and drop the channel. The sender of a new circuit is moved into the request, so it is
  not the sender of another circuit.\<close>

inductive chan_run :: "nat \<Rightarrow> chan_obs list \<Rightarrow> chan_reactor \<Rightarrow> bool" for imax where
  chan_start: "now \<noteq> 0 \<Longrightarrow> chan_run imax [] (chan_reactor_new lp now)"
| chan_round: "chan_run imax tr r \<Longrightarrow> samples_ok rnd \<Longrightarrow> now \<noteq> 0 \<Longrightarrow>
    (\<forall>c s. ev = EvControl (Some (AllocateCircuit c s)) \<longrightarrow> s \<notin> senders tr) \<Longrightarrow>
    chan_run_once imax rnd srnd now ev r = (Inr (), r') \<Longrightarrow> chan_run imax (tr @ chan_observed ev r') r'"
| chan_queue: "chan_run imax tr r \<Longrightarrow> chan_run imax tr (r\<lparr>rc_cells := rc_cells r @ [c]\<rparr>)"
| chan_gone: "chan_run imax tr r \<Longrightarrow> chan_run imax tr (r\<lparr>rc_cells_alive := (rc_cells_alive r)(s := False)\<rparr>)"
| chan_created_gone: "chan_run imax tr r \<Longrightarrow>
    chan_run imax tr (r\<lparr>rc_created_alive := (rc_created_alive r)(s := False)\<rparr>)"
| chan_closed: "chan_run imax tr r \<Longrightarrow> chan_run imax tr (r\<lparr>rc_cells_closed := True\<rparr>)"

section \<open>The invariant\<close>

fun ent_sender :: "CircEnt \<Rightarrow> nat option" where
  "ent_sender (Opening _ s) = Some s"
| "ent_sender (Open s) = Some s"
| "ent_sender (DestroySent _) = None"

definition uses :: "circ_map \<Rightarrow> circ_id \<Rightarrow> nat \<Rightarrow> bool" where
  "uses circs cid s \<longleftrightarrow> (\<exists>e. cm_m circs cid = Some e \<and> ent_sender e = Some s)"

definition ids_ok :: "circ_map \<Rightarrow> bool" where
  "ids_ok circs \<longleftrightarrow> circ_map_inv circs \<and> cm_range circs = RangeHigh \<and>
     (\<forall>cid \<in> open_ids circs. id_in_range RangeHigh cid)"

definition senders_ok :: "chan_obs list \<Rightarrow> circ_map \<Rightarrow> bool" where
  "senders_ok tr circs \<longleftrightarrow> (\<forall>cid s. uses circs cid s \<longrightarrow> s \<in> senders tr) \<and>
     (\<forall>c1 c2 s. uses circs c1 s \<longrightarrow> uses circs c2 s \<longrightarrow> c1 = c2)"

definition routed :: "chan_obs list \<Rightarrow> circ_map \<Rightarrow> (nat \<Rightarrow> any_chan_msg list) \<Rightarrow> bool" where
  "routed tr circs delivered \<longleftrightarrow>
     (\<forall>s. s \<notin> senders tr \<longrightarrow> delivered s = []) \<and>
     (\<forall>cid s. uses circs cid s \<longrightarrow> delivered s = relays_for cid tr) \<and>
     (\<forall>cid c s. cm_m circs cid = Some (Opening c s) \<longrightarrow> delivered s = [])"

definition chan_inv :: "chan_obs list \<Rightarrow> chan_reactor \<Rightarrow> bool" where
  "chan_inv tr r \<longleftrightarrow> ids_ok (rc_circs r) \<and> senders_ok tr (rc_circs r) \<and> routed tr (rc_circs r) (rc_delivered r) \<and>
     (rc_unused_since r = 0 \<longleftrightarrow> 0 < open_ent_count (rc_circs r))"

lemma chan_inv_cong:
  "rc_circs r' = rc_circs r \<Longrightarrow> rc_delivered r' = rc_delivered r \<Longrightarrow> rc_unused_since r' = rc_unused_since r \<Longrightarrow>
   chan_inv tr r' = chan_inv tr r"
  by (simp add: chan_inv_def)

lemma obs_simps [simp]:
  "senders [] = {}" "senders (tr @ [ob]) = senders tr \<union> obs_sender ob"
  "relays_for cid [] = []" "relays_for cid (tr @ [ob]) = obs_relay cid (relays_for cid tr) ob"
  by (auto simp: senders_def relays_for_def)

lemma update_disused_simps [simp]:
  "rc_circs (update_disused_since now r) = rc_circs r"
  "rc_delivered (update_disused_since now r) = rc_delivered r"
  "rc_policy (update_disused_since now r) = rc_policy r"
  "rc_output (update_disused_since now r) = rc_output r"
  "rc_answers (update_disused_since now r) = rc_answers r"
  "rc_cells_alive (update_disused_since now r) = rc_cells_alive r"
  "now \<noteq> 0 \<Longrightarrow> rc_unused_since (update_disused_since now r) = 0 \<longleftrightarrow> 0 < open_ent_count (rc_circs r)"
  by (auto simp: update_disused_since_def ts_update_if_none_def)

lemma report_simps [simp]:
  "rc_circs (report x r) = rc_circs r" "rc_delivered (report x r) = rc_delivered r"
  "rc_unused_since (report x r) = rc_unused_since r" "rc_policy (report x r) = rc_policy r"
  "rc_cells_alive (report x r) = rc_cells_alive r" "rc_answers (report x r) = rc_answers r"
  by (simp_all add: report_def)

section \<open>Rounds that leave the circuits alone\<close>

definition same_circs :: "chan_reactor \<Rightarrow> chan_reactor \<Rightarrow> bool" where
  "same_circs r r' \<longleftrightarrow> rc_circs r' = rc_circs r \<and> rc_delivered r' = rc_delivered r \<and>
     rc_unused_since r' = rc_unused_since r"

lemma same_circs_inv: "same_circs r r' \<Longrightarrow> chan_inv tr r' = chan_inv tr r"
  unfolding same_circs_def by (elim conjE) (rule chan_inv_cong)

lemmas same_circs_keeps = same_circs_inv [THEN iffD2]

lemma send_cell_same: "same_circs r (snd (send_cell c r))"
  by (simp add: same_circs_def send_cell_def split: option.split)

lemma same_circs_trans: "same_circs a b \<Longrightarrow> same_circs b c \<Longrightarrow> same_circs a c"
  by (simp add: same_circs_def)

lemma chan_flush_same: "same_circs r (snd (chan_flush q r))"
proof -
  have "same_circs r (snd (send_cell c r'))" if "same_circs r r'" for c r'
    using that send_cell_same same_circs_trans by blast
  then show ?thesis
    by (auto simp: chan_flush_def Let_def same_circs_def split: option.splits)
qed

lemma run_output_same: "same_circs r (snd (run_output imax srnd i r))"
proof -
  have "same_circs r (snd (chan_flush q r'))" if "same_circs r r'" for q r'
    using that chan_flush_same same_circs_trans by blast
  moreover have "same_circs r r" by (simp add: same_circs_def)
  ultimately show ?thesis
    by (auto simp: run_output_def note_sent_def same_circs_def
        split: option.splits prod.splits list.splits bool.splits)
qed

lemma padding_event_same: "same_circs r (snd (chan_handle_padding_event inner e r))"
  by (auto simp: chan_handle_padding_event_def handle_send_padding_def queue_padding_def allow_bypass_def
      same_circs_def Let_def report_def split: PaddingEvent.split sum.split bool.split)

lemma config_update_same: "same_circs r (snd (config_update srnd u r))"
  by (auto simp: config_update_def same_circs_def Let_def split: option.split sum.split prod.split)

section \<open>Rounds that change the circuits\<close>

lemma outbound_destroy_simps:
  "rc_circs (snd (outbound_destroy_circ now cid r)) = destroy_sent cid (HalfCirc_new 3000) (rc_circs r)"
  "rc_delivered (snd (outbound_destroy_circ now cid r)) = rc_delivered r"
  "now \<noteq> 0 \<Longrightarrow> rc_unused_since (snd (outbound_destroy_circ now cid r)) = 0 \<longleftrightarrow>
     0 < open_ent_count (destroy_sent cid (HalfCirc_new 3000) (rc_circs r))"
  using send_cell_same
    [of "update_disused_since now (r\<lparr>rc_circs := destroy_sent cid (HalfCirc_new 3000) (rc_circs r)\<rparr>)"
        "\<lparr>cc_circid = Some cid, cc_msg = Destroy 0\<rparr>"]
  by (simp_all add: outbound_destroy_circ_def same_circs_def)

text \<open>Taking a circuit out of use, by removing it or by replacing its entry.\<close>

definition dropped :: "circ_id \<Rightarrow> circ_map \<Rightarrow> circ_map \<Rightarrow> bool" where
  "dropped cid m m' \<longleftrightarrow> circ_map_inv m' \<and> cm_range m' = cm_range m \<and>
     (\<exists>e. cm_m m' = (cm_m m)(cid := e) \<and> (\<forall>x. e = Some x \<longrightarrow> \<not> is_open_ent x))"

lemma destroy_sent_dropped: "circ_map_inv m \<Longrightarrow> dropped cid m (destroy_sent cid h m)"
  using destroy_sent_inv [of m cid h] by (auto simp: dropped_def destroy_sent_def)

lemma circ_remove_dropped: "circ_map_inv m \<Longrightarrow> dropped cid m (snd (circ_remove cid m))"
  using circ_remove_inv [of m cid]
  by (auto simp: dropped_def circ_remove_def fun_upd_idem split: option.split intro: exI [of _ None])

lemma not_open_sender: "\<not> is_open_ent e \<Longrightarrow> ent_sender e = None"
  by (cases e) simp_all

lemma dropped_uses: "dropped cid m m' \<Longrightarrow> uses m' c s \<longleftrightarrow> c \<noteq> cid \<and> uses m c s"
  by (cases "c = cid") (auto simp: dropped_def uses_def not_open_sender)

lemma dropped_ids_ok: "dropped cid m m' \<Longrightarrow> ids_ok m \<Longrightarrow> ids_ok m'"
  by (auto simp: dropped_def ids_ok_def open_ids_def split: if_splits)

lemma dropped_inv:
  assumes drop: "dropped cid (rc_circs r) (rc_circs r')" and inv: "chan_inv tr r"
    and unused: "rc_unused_since r' = 0 \<longleftrightarrow> 0 < open_ent_count (rc_circs r')"
    and log: "\<And>s. \<not> uses (rc_circs r) cid s \<Longrightarrow> rc_delivered r' s = rc_delivered r s"
    and tr: "senders tr' = senders tr" "\<And>c. c \<noteq> cid \<Longrightarrow> relays_for c tr' = relays_for c tr"
  shows "chan_inv tr' r'"
proof -
  note inv' = inv [unfolded chan_inv_def]
  have other: "rc_delivered r' s = rc_delivered r s" if "uses (rc_circs r) c s" "c \<noteq> cid" for c s
    using that inv' log unfolding senders_ok_def by blast
  have fresh: "rc_delivered r' s = []" if "s \<notin> senders tr" for s
    using that inv' log [of s] unfolding senders_ok_def routed_def by metis
  have pending: "rc_delivered r' s = []" if "cm_m (rc_circs r') c = Some (Opening x s)" for c x s
  proof -
    from that drop have "c \<noteq> cid \<and> cm_m (rc_circs r) c = Some (Opening x s)"
      by (auto simp: dropped_def split: if_splits)
    moreover from this have "uses (rc_circs r) c s" by (simp add: uses_def)
    ultimately show ?thesis using other inv' unfolding routed_def by metis
  qed
  have "routed tr' (rc_circs r') (rc_delivered r')"
    using inv' other fresh pending tr dropped_uses [OF drop] by (simp add: routed_def)
  moreover have "senders_ok tr' (rc_circs r')"
    using inv' tr(1) dropped_uses [OF drop] unfolding senders_ok_def by metis
  moreover have "ids_ok (rc_circs r')" using dropped_ids_ok drop inv' by blast
  ultimately show ?thesis using unused by (simp add: chan_inv_def)
qed

lemma outbound_destroy_keeps:
  assumes "chan_inv tr r" "now \<noteq> 0" "senders tr' = senders tr" "\<And>c. c \<noteq> cid \<Longrightarrow> relays_for c tr' = relays_for c tr"
  shows "chan_inv tr' (snd (outbound_destroy_circ now cid r))"
proof (rule dropped_inv [OF _ assms(1)])
  show "dropped cid (rc_circs r) (rc_circs (snd (outbound_destroy_circ now cid r)))"
    unfolding outbound_destroy_simps using assms(1) by (intro destroy_sent_dropped) (simp add: chan_inv_def ids_ok_def)
qed (use assms in \<open>simp_all add: outbound_destroy_simps\<close>)

text \<open>A relay cell for an open circuit.\<close>

lemma deliver_inv:
  assumes inv: "chan_inv tr r" and ent: "cm_m (rc_circs r) cid = Some (Open s)" and relay: "is_relay (cc_msg cell)"
    and cid: "cc_circid cell = Some cid"
  shows "chan_inv (tr @ [ObsCell cell])
    (r\<lparr>rc_delivered := (rc_delivered r)(s := rc_delivered r s @ [cc_msg cell])\<rparr>)"
proof -
  note inv' = inv [unfolded chan_inv_def]
  have u: "uses (rc_circs r) cid s" using ent by (simp add: uses_def)
  then have s: "s \<in> senders tr" "rc_delivered r s = relays_for cid tr"
    using inv' unfolding senders_ok_def routed_def by blast+
  have only: "c = cid" if "uses (rc_circs r) c s" for c
    using that u inv' unfolding senders_ok_def by blast
  have "routed (tr @ [ObsCell cell]) (rc_circs r) ((rc_delivered r)(s := rc_delivered r s @ [cc_msg cell]))"
    unfolding routed_def
  proof (intro conjI allI impI)
    fix t
    assume "t \<notin> senders (tr @ [ObsCell cell])"
    then show "((rc_delivered r)(s := rc_delivered r s @ [cc_msg cell])) t = []"
      using inv' s(1) by (auto simp: routed_def)
  next
    fix c t
    assume c: "uses (rc_circs r) c t"
    then have "t = s \<longleftrightarrow> c = cid" using only ent by (auto simp: uses_def)
    moreover have "rc_delivered r t = relays_for c tr" using c inv' unfolding routed_def by blast
    ultimately show "((rc_delivered r)(s := rc_delivered r s @ [cc_msg cell])) t = relays_for c (tr @ [ObsCell cell])"
      using s(2) relay cid by simp
  next
    fix c x t
    assume c: "cm_m (rc_circs r) c = Some (Opening x t)"
    then have "t \<noteq> s" using only [of c] ent by (auto simp: uses_def)
    moreover have "rc_delivered r t = []" using c inv' unfolding routed_def by blast
    ultimately show "((rc_delivered r)(s := rc_delivered r s @ [cc_msg cell])) t = []" by simp
  qed
  then show ?thesis using inv' by (simp add: chan_inv_def senders_ok_def)
qed

text \<open>A cell of another kind changes nothing of what the circuits have to be given.\<close>

lemma other_cell_inv: "\<not> is_relay (cc_msg cell) \<Longrightarrow> chan_inv (tr @ [ObsCell cell]) r = chan_inv tr r"
  by (simp add: chan_inv_def senders_ok_def routed_def)

lemma half_closed_inv:
  assumes "chan_inv tr r" "cm_m (rc_circs r) cid = Some (DestroySent h)" "cc_circid cell = Some cid"
    and "rc_circs r' = (rc_circs r)\<lparr>cm_m := (cm_m (rc_circs r))(cid \<mapsto> DestroySent h')\<rparr>"
    and "rc_delivered r' = rc_delivered r" "rc_unused_since r' = rc_unused_since r"
  shows "chan_inv (tr @ [ObsCell cell]) r'"
proof (rule dropped_inv [where cid = cid and r = r])
  have "open_ids (rc_circs r') = open_ids (rc_circs r)"
    using assms(2,4) by (auto simp: open_ids_upd open_ids_mem)
  then show "dropped cid (rc_circs r) (rc_circs r')"
    using assms(1,4) by (auto simp: dropped_def chan_inv_def ids_ok_def circ_map_inv_def)
qed (use assms in \<open>auto simp: chan_inv_def open_ent_count_def\<close>)

lemma deliver_relay_inv:
  assumes inv: "chan_inv tr r" and now: "now \<noteq> 0" and relay: "is_relay (cc_msg cell)"
    and run: "deliver_relay now (cc_circid cell) (cc_msg cell) r = (Inr (), r')"
  shows "chan_inv (tr @ [ObsCell cell]) r'"
proof -
  from run obtain cid ent where cid: "cc_circid cell = Some cid" and ent: "cm_m (rc_circs r) cid = Some ent"
    by (auto simp: deliver_relay_def split: option.splits)
  show ?thesis
  proof (cases ent)
    case (Opening c s)
    with run cid ent show ?thesis by (simp add: deliver_relay_def)
  next
    case (Open s)
    show ?thesis
    proof (cases "rc_cells_alive r s")
      case True
      with run cid ent Open show ?thesis using deliver_inv [OF inv _ relay cid] by (auto simp: deliver_relay_def)
    next
      case False
      with run cid ent Open have "r' = snd (outbound_destroy_circ now cid r)" by (simp add: deliver_relay_def)
      then show ?thesis using outbound_destroy_keeps [OF inv now, of "tr @ [ObsCell cell]" cid] cid by simp
    qed
  next
    case (DestroySent h)
    with run cid ent have "\<exists>h'. rc_circs r' = (rc_circs r)\<lparr>cm_m := (cm_m (rc_circs r))(cid \<mapsto> DestroySent h')\<rparr>"
        "rc_delivered r' = rc_delivered r" "rc_unused_since r' = rc_unused_since r"
      by (auto simp: deliver_relay_def with_circ_ent_def split: prod.splits)
    then show ?thesis using half_closed_inv [OF inv _ cid] ent DestroySent by blast
  qed
qed

lemma send_created_same: "same_circs r (snd (send_created s msg gone r))"
  by (simp add: send_created_def same_circs_def split: option.split)

lemma deliver_created_inv:
  assumes "chan_inv tr r" "deliver_created circid msg r = (Inr (), r')"
  shows "chan_inv tr r'"
proof -
  from assms(2) obtain cid c s where ent: "cm_m (rc_circs r) cid = Some (Opening c s)"
      and "r' = snd (send_created c msg (ChanInternal ''Circuit queue rejected created message. Is it closing?'')
        (r\<lparr>rc_circs := (rc_circs r)\<lparr>cm_m := (cm_m (rc_circs r))(cid \<mapsto> Open s)\<rparr>\<rparr>))"
    by (auto simp: deliver_created_def advance_from_opening_def split: option.splits CircEnt.splits)
  then have same: "chan_inv tr r' = chan_inv tr (r\<lparr>rc_circs := (rc_circs r)\<lparr>cm_m := (cm_m (rc_circs r))(cid \<mapsto> Open s)\<rparr>\<rparr>)"
    using same_circs_inv send_created_same by simp
  let ?m = "(rc_circs r)\<lparr>cm_m := (cm_m (rc_circs r))(cid \<mapsto> Open s)\<rparr>"
  have "uses ?m = uses (rc_circs r)" using ent by (auto simp: uses_def fun_eq_iff)
  moreover have "open_ids ?m = open_ids (rc_circs r)" using ent by (auto simp: open_ids_upd open_ids_mem)
  ultimately show ?thesis
    unfolding same using assms(1)
    by (auto simp: chan_inv_def ids_ok_def senders_ok_def routed_def circ_map_inv_def open_ent_count_def
        split: if_splits)
qed

lemma deliver_destroy_inv:
  assumes inv: "chan_inv tr r" and now: "now \<noteq> 0" and run: "deliver_destroy now circid msg r = (Inr (), r')"
  shows "chan_inv tr r'"
proof -
  from run obtain cid where cid: "circid = Some cid" by (auto simp: deliver_destroy_def split: option.splits)
  let ?r = "update_disused_since now (r\<lparr>rc_circs := snd (circ_remove cid (rc_circs r))\<rparr>)"
  have "rc_circs r' = rc_circs ?r \<and> rc_unused_since r' = rc_unused_since ?r \<and>
      (\<forall>s. \<not> uses (rc_circs r) cid s \<longrightarrow> rc_delivered r' s = rc_delivered r s)"
  proof (cases "cm_m (rc_circs r) cid")
    case None
    with run cid show ?thesis by (simp add: deliver_destroy_def circ_remove_def)
  next
    case (Some ent)
    show ?thesis
      using run cid Some
      by (cases ent) (auto simp: deliver_destroy_def circ_remove_def uses_def send_created_def Let_def
          split: option.splits if_splits)
  qed
  then show ?thesis
    using now inv circ_remove_dropped [of "rc_circs r" cid]
    by (intro dropped_inv [where r = r and cid = cid, OF _ inv]) (auto simp: chan_inv_def ids_ok_def)
qed

text \<open>A new circuit.\<close>

lemma allocate_inv:
  assumes inv: "chan_inv tr r" and free: "cm_m (rc_circs r) cid = None" "id_in_range RangeHigh cid" "s \<notin> senders tr"
    and r': "rc_circs r' = (rc_circs r)\<lparr>cm_m := (cm_m (rc_circs r))(cid \<mapsto> Opening c s),
        cm_open_count := cm_open_count (rc_circs r) + 1\<rparr>"
      "rc_delivered r' = rc_delivered r" "rc_unused_since r' = 0"
  shows "chan_inv (tr @ [ObsAlloc cid s]) r'"
proof -
  note inv' = inv [unfolded chan_inv_def]
  have u: "uses (rc_circs r') i t \<longleftrightarrow> i = cid \<and> t = s \<or> i \<noteq> cid \<and> uses (rc_circs r) i t" for i t
    by (auto simp: uses_def r'(1))
  have pending: "rc_delivered r t = []" if "cm_m (rc_circs r') x = Some (Opening d t)" for x d t
    using that inv' free(3) by (auto simp: r'(1) routed_def split: if_splits)
  have "circ_map_inv (rc_circs r')" unfolding r'(1) by (rule circ_add_inv) (use inv' free in \<open>auto simp: ids_ok_def\<close>)
  then have "ids_ok (rc_circs r')" using inv' free(2) by (auto simp: ids_ok_def r'(1) open_ids_upd)
  moreover have "senders_ok (tr @ [ObsAlloc cid s]) (rc_circs r')"
    using inv' free(3) by (auto simp: senders_ok_def u)
  moreover have "routed (tr @ [ObsAlloc cid s]) (rc_circs r') (rc_delivered r')"
    using inv' free(3) pending by (auto simp: routed_def u r'(2))
  ultimately show ?thesis by (simp add: chan_inv_def r' open_ent_count_def)
qed

lemma failed_allocation_inv:
  "chan_inv tr r \<Longrightarrow> rc_circs r' = rc_circs r \<Longrightarrow> rc_delivered r' = rc_delivered r \<Longrightarrow>
   (rc_unused_since r' = 0 \<longleftrightarrow> 0 < open_ent_count (rc_circs r)) \<Longrightarrow> chan_inv (tr @ [ObsFailed s]) r'"
  by (auto simp: chan_inv_def senders_ok_def routed_def)

lemma allocate_circuit_inv:
  assumes inv: "chan_inv tr r" and now: "now \<noteq> 0" and rnd: "samples_ok rnd" and fresh: "s \<notin> senders tr"
    and run: "allocate_circuit now rnd c s r = (Inr (), r')"
  shows "chan_inv (tr @ chan_observed (EvControl (Some (AllocateCircuit c s))) r') r'"
proof -
  from run obtain u n where u: "circ_uniq_next (rc_next_circ_id r) = (Some u, n)"
    by (auto simp: allocate_circuit_def split: prod.splits option.splits)
  have rng: "cm_range (rc_circs r) = RangeHigh" using inv by (simp add: chan_inv_def ids_ok_def)
  show ?thesis
  proof (rule circ_add_ent_loop_cases [OF rnd, of "Opening c s" 0 N_ATTEMPTS "rc_circs r"])
    assume "circ_add_ent_loop rnd (Opening c s) 0 N_ATTEMPTS (rc_circs r) = (Inl ChanIdRangeFull, rc_circs r)"
    with run u have r': "r' = update_disused_since now
        (r\<lparr>rc_next_circ_id := n, rc_answers := rc_answers r @ [Inl ChanIdRangeFull]\<rparr>)"
      by (simp add: allocate_circuit_def circ_add_ent_def)
    show ?thesis using failed_allocation_inv [OF inv] now by (simp add: r' chan_observed_def)
  next
    fix cid
    assume "circ_add_ent_loop rnd (Opening c s) 0 N_ATTEMPTS (rc_circs r) =
        (Inr cid, (rc_circs r)\<lparr>cm_m := (cm_m (rc_circs r))(cid \<mapsto> Opening c s), cm_open_count := cm_open_count (rc_circs r) + 1\<rparr>)"
      and free: "cm_m (rc_circs r) cid = None" "id_in_range (cm_range (rc_circs r)) cid"
    with run u have r': "r' = update_disused_since now
        (r\<lparr>rc_circs := (rc_circs r)\<lparr>cm_m := (cm_m (rc_circs r))(cid \<mapsto> Opening c s), cm_open_count := cm_open_count (rc_circs r) + 1\<rparr>,
           rc_next_circ_id := n, rc_answers := rc_answers r @ [Inr (cid, u)]\<rparr>)"
      by (simp add: allocate_circuit_def circ_add_ent_def)
    have "chan_inv (tr @ [ObsAlloc cid s]) r'"
      by (rule allocate_inv [OF inv free(1) _ fresh, of _ c]) (use now free(2) rng in \<open>simp_all add: r' open_ent_count_def\<close>)
    then show ?thesis by (simp add: chan_observed_def r')
  qed
qed

section \<open>All rounds\<close>

lemma handle_cell_other:
  "\<not> is_relay (cc_msg cell) \<Longrightarrow> chan_handle_cell now cell r = (Inr (), r') \<Longrightarrow>
   deliver_destroy now (cc_circid cell) (cc_msg cell) (report DecryptedData r) = (Inr (), r') \<or>
   deliver_created (cc_circid cell) (cc_msg cell) (report DecryptedData r) = (Inr (), r') \<or>
   r' = report DecryptedPadding r"
  by (cases "cc_msg cell") (simp_all add: chan_handle_cell_def)

lemma handle_cell_inv:
  assumes "chan_inv tr r" "now \<noteq> 0" "chan_handle_cell now cell r = (Inr (), r')"
  shows "chan_inv (tr @ [ObsCell cell]) r'"
proof -
  have rep: "chan_inv tr (report x r)" for x
    using assms(1) same_circs_inv [of r "report x r"] by (simp add: same_circs_def)
  show ?thesis
  proof (cases "is_relay (cc_msg cell)")
    case True
    then have "deliver_relay now (cc_circid cell) (cc_msg cell) (report DecryptedData r) = (Inr (), r')"
      using assms(3) by (cases "cc_msg cell") (simp_all add: chan_handle_cell_def)
    then show ?thesis by (rule deliver_relay_inv [OF rep assms(2) True])
  next
    case False
    from handle_cell_other [OF False assms(3)] consider
        "deliver_destroy now (cc_circid cell) (cc_msg cell) (report DecryptedData r) = (Inr (), r')"
      | "deliver_created (cc_circid cell) (cc_msg cell) (report DecryptedData r) = (Inr (), r')"
      | "r' = report DecryptedPadding r"
      by blast
    then have "chan_inv tr r'"
    proof cases
      case 1
      then show ?thesis by (rule deliver_destroy_inv [OF rep assms(2)])
    next
      case 2
      then show ?thesis by (rule deliver_created_inv [OF rep])
    next
      case 3
      then show ?thesis using rep by simp
    qed
    then show ?thesis using other_cell_inv [OF False] by simp
  qed
qed

lemma control_inv:
  assumes "chan_inv tr r" "now \<noteq> 0" "samples_ok rnd" "\<And>c s. msg = AllocateCircuit c s \<Longrightarrow> s \<notin> senders tr"
    and "handle_control now rnd srnd msg r = (Inr (), r')"
  shows "chan_inv (tr @ chan_observed (EvControl (Some msg)) r') r'"
proof (cases msg)
  case (CloseCircuit cid)
  then have "r' = snd (outbound_destroy_circ now cid r)" using assms(5) by (simp add: handle_control_def)
  moreover have "chan_inv tr (snd (outbound_destroy_circ now cid r))"
    by (rule outbound_destroy_keeps [OF assms(1,2)]) simp_all
  ultimately show ?thesis using CloseCircuit by (simp add: chan_observed_def)
next
  case (AllocateCircuit c s)
  then have "allocate_circuit now rnd c s r = (Inr (), r')" using assms(5) by (simp add: handle_control_def)
  then show ?thesis unfolding AllocateCircuit
    by (rule allocate_circuit_inv [OF assms(1-3) assms(4) [OF AllocateCircuit]])
next
  case (ConfigUpdate u)
  then have "r' = snd (config_update srnd u r)" using assms(5) by (simp add: handle_control_def)
  then show ?thesis using same_circs_keeps [OF config_update_same assms(1)] ConfigUpdate by (simp add: chan_observed_def)
next
  case (KistConfigUpdate p)
  then have "same_circs r r'" using assms(5) by (auto simp: handle_control_def apply_kist_params_def same_circs_def)
  then show ?thesis using same_circs_keeps [OF _ assms(1)] KistConfigUpdate by (simp add: chan_observed_def)
next
  case (SetChannelPadder p)
  then have "same_circs r r'" using assms(5) by (auto simp: handle_control_def same_circs_def)
  then show ?thesis using same_circs_keeps [OF _ assms(1)] SetChannelPadder by (simp add: chan_observed_def)
qed (use assms(5) in \<open>simp add: handle_control_def\<close>)

lemma run_once_inv:
  assumes "chan_inv tr r" "now \<noteq> 0" "samples_ok rnd" "\<And>c s. ev = EvControl (Some (AllocateCircuit c s)) \<Longrightarrow> s \<notin> senders tr"
    and run: "chan_run_once imax rnd srnd now ev r = (Inr (), r')"
  shows "chan_inv (tr @ chan_observed ev r') r'"
proof (cases ev)
  case (EvOutput i)
  then have "r' = snd (run_output imax srnd i r)" using run by (simp add: chan_run_once_def)
  then show ?thesis using same_circs_keeps [OF run_output_same assms(1)] EvOutput by (simp add: chan_observed_def)
next
  case (EvControl m)
  then obtain msg where m: "m = Some msg" "handle_control now rnd srnd msg r = (Inr (), r')"
    using run by (auto simp: chan_run_once_def split: option.splits if_splits)
  have "s \<notin> senders tr" if "msg = AllocateCircuit c s" for c s
    by (rule assms(4) [of c]) (simp add: EvControl m(1) that)
  then show ?thesis unfolding EvControl m(1) by (rule control_inv [OF assms(1-3) _ m(2)])
next
  case (EvPadding inner e)
  then obtain a where a: "e = Some a" "chan_handle_padding_event inner a r = (Inr (), r')"
    using run by (auto simp: chan_run_once_def split: option.splits)
  then have "r' = snd (chan_handle_padding_event inner a r)" by simp
  then show ?thesis using same_circs_keeps [OF padding_event_same assms(1)] EvPadding by (simp add: chan_observed_def)
next
  case (EvInput i)
  then obtain cell where i: "i = Some (Inr cell)" "chan_handle_cell now cell r = (Inr (), r')"
    using run by (auto simp: chan_run_once_def split: option.splits sum.splits)
  then show ?thesis using handle_cell_inv [OF assms(1,2) i(2)] EvInput by (simp add: chan_observed_def)
qed (use run in \<open>simp add: chan_run_once_def\<close>)

lemma chan_run_inv: "chan_run imax tr r \<Longrightarrow> chan_inv tr r"
proof (induction rule: chan_run.induct)
  case (chan_start now lp)
  then show ?case
    by (simp add: chan_inv_def ids_ok_def senders_ok_def routed_def uses_def chan_reactor_new_def CircMap_new_def
        open_ids_def circ_map_inv_def open_ent_count_def ts_update_to_def)
next
  case (chan_round tr r rnd now ev srnd r')
  show ?case by (rule run_once_inv [OF chan_round.IH _ _ _ chan_round.hyps(5)]) (use chan_round.hyps(2,3,4) in blast)+
qed (simp_all add: chan_inv_def)

section \<open>The output\<close>

text \<open>\<open>send_cell\<close> polls the blocker and sends; the branch for the output runs only when the poll
  succeeds, so it never waits inside the reactor.\<close>

definition output_of :: "chan_reactor \<Rightarrow> (CountingPolicy, chan_cell) sink_blocker" where
  "output_of r = \<lparr>sb_inner = rc_output r, sb_policy = rc_policy r, sb_waker = False\<rparr>"

lemma send_cell_blocker:
  assumes "fst (sb_poll_ready counting_policy (PollReady (Inr ())) (output_of r)) = PollReady (Inr ())"
  shows "\<exists>r'. send_cell c r = (Inr (), r') \<and>
    sb_start_send counting_policy (Inr ()) c (output_of r) = (Inr () :: unit send_error + unit, output_of r')"
  using counting.send_after_ready [OF assms, of c]
  by (auto simp: send_cell_def output_of_def counting_policy_def)

lemma send_cell_waits: "fst (send_cell c r) = Inl OutputPending \<longleftrightarrow> is_blocking (rc_policy r)"
  using counting.take_one_iff [of "rc_policy r"]
  by (auto simp: send_cell_def counting_policy_def split: option.split)

lemma send_cell_result: "fst (send_cell c r) = (if is_blocking (rc_policy r) then Inl OutputPending else Inr ())"
  using send_cell_waits [of c r] by (auto simp: send_cell_def split: option.splits)

lemma chan_flush_result:
  "\<not> is_blocking (rc_policy r) \<Longrightarrow> fst (chan_flush q r) = (if q = None then Inl ChanShutdown else Inr ())"
  by (auto simp: chan_flush_def Let_def send_cell_result split: option.split)

lemma run_output_result: "fst (run_output imax srnd i r) \<in> {Inr (), Inl ChanShutdown}"
  by (auto simp: run_output_def note_sent_def chan_flush_result split: prod.split option.split list.split bool.split)

section \<open>Properties\<close>

text \<open>C4. Over all runs of a channel's reactor (cells from the peer, requests of clients, padding
  events and output in any order, with clients that go away at any time): the number of open
  circuits that the map keeps is the number of its open entries, the channel is marked as unused
  exactly when there is none, the identifiers of the open circuits are in the client's half of
  the range and no two of them share a queue. The queue of an open circuit has been given
  exactly the relay cells that came in for its identifier since the circuit was allocated, in
  order; the queue of a circuit that waits for its CREATED cell has been given nothing.\<close>

theorem channel_routes_relay_cells:
  assumes "chan_run imax tr r"
  shows "open_ent_count (rc_circs r) = card (open_ids (rc_circs r)) \<and>
    (rc_unused_since r = 0 \<longleftrightarrow> open_ids (rc_circs r) \<noteq> {}) \<and>
    (\<forall>cid \<in> open_ids (rc_circs r). id_in_range RangeHigh cid) \<and>
    (\<forall>c1 c2 s. uses (rc_circs r) c1 s \<longrightarrow> uses (rc_circs r) c2 s \<longrightarrow> c1 = c2) \<and>
    (\<forall>cid s. cm_m (rc_circs r) cid = Some (Open s) \<longrightarrow> rc_delivered r s = relays_for cid tr) \<and>
    (\<forall>cid c s. cm_m (rc_circs r) cid = Some (Opening c s) \<longrightarrow> rc_delivered r s = [])"
proof -
  note inv = chan_run_inv [OF assms, unfolded chan_inv_def]
  have "uses (rc_circs r) cid s" if "cm_m (rc_circs r) cid = Some (Open s)" for cid s
    using that by (simp add: uses_def)
  then show ?thesis
    using inv unfolding senders_ok_def routed_def
    by (auto simp: ids_ok_def circ_map_inv_def open_ent_count_def card_gt_0_iff)
qed

lemma first_of_range: "samples_ok (\<lambda>_ lo _. lo)"
  by (simp add: samples_ok_def)

theorem channel_routes_relay_cells_witness:
  "\<exists>tr r. chan_run 9 tr r \<and> cm_m (rc_circs r) 0x80000000 = Some (Open 0) \<and>
     rc_delivered r 0 = [Relay [1], Relay [2]] \<and> relays_for 0x80000000 tr = [Relay [1], Relay [2]]"
proof -
  let ?rnd = "\<lambda>_ lo _. lo"
  let ?step = "\<lambda>ev r. snd (chan_run_once 9 ?rnd ?rnd 1 ev r)"
  let ?in = "\<lambda>m. EvInput (Some (Inr \<lparr>cc_circid = Some 0x80000000, cc_msg = m\<rparr>))"
  define r1 where "r1 = ?step (EvControl (Some (AllocateCircuit 0 0))) (chan_reactor_new 5 1)"
  define r2 where "r2 = ?step (?in (Created2 [])) r1"
  define r3 where "r3 = ?step (?in (Relay [1])) r2"
  define r4 where "r4 = ?step (?in (Relay [2])) r3"
  have attempts: "N_ATTEMPTS = Suc 15" by (simp add: N_ATTEMPTS_def)
  have add: "circ_add_ent ?rnd 0 0 (CircMap_new RangeHigh) =
      (Inr 0x80000000, \<lparr>cm_m = [0x80000000 \<mapsto> Opening 0 0], cm_range = RangeHigh, cm_open_count = 1\<rparr>)"
    unfolding circ_add_ent_def attempts circ_add_ent_loop.simps
    by (simp add: CircMap_new_def circ_id_sample_def CircId_new_def circ_midpoint_def)
  note eval = chan_run_once_def handle_control_def allocate_circuit_def circ_uniq_next_def
    chan_reactor_new_def update_disused_since_def open_ent_count_def chan_handle_cell_def deliver_created_def
    advance_from_opening_def send_created_def report_def deliver_relay_def
  have r1: "chan_run_once 9 ?rnd ?rnd 1 (EvControl (Some (AllocateCircuit 0 0))) (chan_reactor_new 5 1) = (Inr (), r1)"
      "rc_answers r1 = [Inr (0x80000000, 0)]" "cm_m (rc_circs r1) = [0x80000000 \<mapsto> Opening 0 0]"
      "rc_created_alive r1 0" "rc_cells_alive r1 0" "rc_delivered r1 0 = []"
    by (simp_all add: r1_def eval add)
  have r2: "chan_run_once 9 ?rnd ?rnd 1 (?in (Created2 [])) r1 = (Inr (), r2)"
      "cm_m (rc_circs r2) = [0x80000000 \<mapsto> Open 0]" "rc_cells_alive r2 0" "rc_delivered r2 0 = []"
    using r1 by (simp_all add: r2_def eval)
  have r3: "chan_run_once 9 ?rnd ?rnd 1 (?in (Relay [1])) r2 = (Inr (), r3)"
      "cm_m (rc_circs r3) = [0x80000000 \<mapsto> Open 0]" "rc_cells_alive r3 0"
    using r2 by (simp_all add: r3_def eval)
  have r4: "chan_run_once 9 ?rnd ?rnd 1 (?in (Relay [2])) r3 = (Inr (), r4)"
      "cm_m (rc_circs r4) = [0x80000000 \<mapsto> Open 0]"
    using r3 by (simp_all add: r4_def eval)
  note round = chan_round [OF _ first_of_range, where now = 1]
  have "chan_run 9 [] (chan_reactor_new 5 1)" by (rule chan_start) simp
  note round [OF this _ _ r1(1)]
  then have "chan_run 9 [ObsAlloc 0x80000000 0] r1" by (simp add: chan_observed_def r1(2))
  note round [OF this _ _ r2(1)]
  then have "chan_run 9 [ObsAlloc 0x80000000 0, ObsCell \<lparr>cc_circid = Some 0x80000000, cc_msg = Created2 []\<rparr>] r2"
    by (simp add: chan_observed_def)
  note round [OF this _ _ r3(1)]
  then have "chan_run 9 [ObsAlloc 0x80000000 0, ObsCell \<lparr>cc_circid = Some 0x80000000, cc_msg = Created2 []\<rparr>,
      ObsCell \<lparr>cc_circid = Some 0x80000000, cc_msg = Relay [1]\<rparr>] r3"
    by (simp add: chan_observed_def)
  note round [OF this _ _ r4(1)]
  then have run: "chan_run 9 [ObsAlloc 0x80000000 0, ObsCell \<lparr>cc_circid = Some 0x80000000, cc_msg = Created2 []\<rparr>,
      ObsCell \<lparr>cc_circid = Some 0x80000000, cc_msg = Relay [1]\<rparr>,
      ObsCell \<lparr>cc_circid = Some 0x80000000, cc_msg = Relay [2]\<rparr>] r4" (is "chan_run 9 ?tr r4")
    by (simp add: chan_observed_def)
  have "relays_for 0x80000000 ?tr = [Relay [1], Relay [2]]" by (simp add: relays_for_def)
  then show ?thesis using run r4(2) channel_routes_relay_cells [OF run] by (intro exI [of _ ?tr] exI [of _ r4]) simp
qed



text \<open>A circuit that the peer destroys and the client then drops: the entry of its identifier comes
  back, as one for which a DESTROY was sent, and a second DESTROY is sent.\<close>

lemma destroyed_circuit_comes_back:
  assumes "cm_m (rc_circs r) cid = Some (Open s)" "rc_cells_alive r s" "rc_policy r = None"
  shows "\<exists>r1. chan_handle_cell now \<lparr>cc_circid = Some cid, cc_msg = Destroy reason\<rparr> r = (Inr (), r1) \<and>
    cm_m (rc_circs r1) cid = None \<and>
    (\<exists>r2. outbound_destroy_circ now cid r1 = (Inr (), r2) \<and>
       cm_m (rc_circs r2) cid = Some (DestroySent (HalfCirc_new 3000)) \<and>
       rc_output r2 = rc_output r @ [\<lparr>cc_circid = Some cid, cc_msg = Destroy 0\<rparr>])"
  using assms
  by (simp add: chan_handle_cell_def deliver_destroy_def circ_remove_def Let_def outbound_destroy_circ_def
      send_cell_def take_one_def destroy_sent_def report_def)

end
