(* ===== verification/Text.thy ===== *)
theory Text
  imports Prelude
begin

text \<open>
  Text as the standard library of Rust has it: a \<open>str\<close> is the list of its UTF-8 bytes. The
  separators the code searches for and splits at are ASCII characters, so searching bytes and
  searching characters agree. The theory holds decimal numbers (\<open>to_string\<close> and
  \<open>FromStr\<close> of the unsigned integer types), \<open>find\<close>, \<open>split\<close> and \<open>join\<close>, and
  the laws that make printing and parsing inverse to each other.
\<close>

section \<open>Definitions\<close>

type_synonym str = "byte list"

text \<open>The bytes of a string literal.\<close>

definition str_bytes :: "string \<Rightarrow> byte list" where
  "str_bytes s = map (\<lambda>c. word_of_nat (of_char c)) s"

text \<open>\<open>to_string\<close> of an unsigned integer.\<close>

fun dec_of_nat :: "nat \<Rightarrow> byte list" where
  "dec_of_nat n =
     (if n < 10 then [word_of_nat (48 + n)]
      else dec_of_nat (n div 10) @ [word_of_nat (48 + n mod 10)])"

declare dec_of_nat.simps [simp del]

definition is_ascii_digit :: "byte \<Rightarrow> bool" where
  "is_ascii_digit b \<longleftrightarrow> 48 \<le> b \<and> b \<le> 57"

text \<open>\<open>from_str\<close> of an unsigned integer type with the greatest value \<open>mx\<close>: an optional plus
  sign, then at least one digit, with an error as soon as the value is too large.\<close>

fun parse_digits :: "nat \<Rightarrow> nat \<Rightarrow> byte list \<Rightarrow> nat option" where
  "parse_digits mx acc [] = Some acc"
| "parse_digits mx acc (b # bs) =
     (if is_ascii_digit b \<and> acc * 10 + (unat b - 48) \<le> mx
      then parse_digits mx (acc * 10 + (unat b - 48)) bs else None)"

definition parse_uint :: "nat \<Rightarrow> byte list \<Rightarrow> nat option" where
  "parse_uint mx bs =
     (let ds = (case bs of b # t \<Rightarrow> if b = 0x2B then t else bs | [] \<Rightarrow> [])
      in if ds = [] then None else parse_digits mx 0 ds)"

text \<open>\<open>str::find\<close> of a character, as the text before and after its first occurrence;
  \<open>str::split\<close> at a character; \<open>join\<close> with a one-character separator.\<close>

fun split_once :: "byte \<Rightarrow> str \<Rightarrow> (str \<times> str) option" where
  "split_once c [] = None"
| "split_once c (b # bs) =
     (if b = c then Some ([], bs)
      else map_option (\<lambda>(l, r). (b # l, r)) (split_once c bs))"

fun split_on :: "byte \<Rightarrow> str \<Rightarrow> str list" where
  "split_on c [] = [[]]"
| "split_on c (b # bs) =
     (if b = c then [] # split_on c bs
      else (case split_on c bs of p # ps \<Rightarrow> (b # p) # ps | [] \<Rightarrow> [[b]]))"

fun join_with :: "byte \<Rightarrow> str list \<Rightarrow> str" where
  "join_with c [] = []"
| "join_with c [p] = p"
| "join_with c (p # q # ps) = p @ c # join_with c (q # ps)"

section \<open>Decimal numbers\<close>

lemma parse_digits_append:
  "parse_digits mx acc (xs @ ys) =
     (case parse_digits mx acc xs of None \<Rightarrow> None | Some a \<Rightarrow> parse_digits mx a ys)"
  by (induction mx acc xs rule: parse_digits.induct) auto

lemma digit_byte:
  assumes "d < 10"
  shows "is_ascii_digit (word_of_nat (48 + d))" "unat (word_of_nat (48 + d) :: byte) = 48 + d"
proof -
  show u: "unat (word_of_nat (48 + d) :: byte) = 48 + d"
    using assms by (simp add: unat_of_nat del: of_nat_add)
  show "is_ascii_digit (word_of_nat (48 + d))"
    using u assms by (simp add: is_ascii_digit_def word_le_nat_alt)
qed

lemma parse_digits_dec: "n \<le> mx \<Longrightarrow> parse_digits mx 0 (dec_of_nat n) = Some n"
proof (induction n rule: dec_of_nat.induct)
  case (1 n)
  show ?case
  proof (cases "n < 10")
    case True
    then show ?thesis using digit_byte [of n] 1(2) by (simp add: dec_of_nat.simps [of n])
  next
    case False
    with 1 have "parse_digits mx 0 (dec_of_nat (n div 10)) = Some (n div 10)" by simp
    moreover have "n div 10 * 10 + n mod 10 = n" by simp
    ultimately show ?thesis
      using False digit_byte [of "n mod 10"] 1(2)
      by (simp add: dec_of_nat.simps [of n] parse_digits_append del: of_nat_add)
  qed
qed

lemma dec_of_nat_digits: "b \<in> set (dec_of_nat n) \<Longrightarrow> is_ascii_digit b"
proof (induction n rule: dec_of_nat.induct)
  case (1 n)
  then show ?case
    using digit_byte [of n] digit_byte [of "n mod 10"]
    by (auto simp: dec_of_nat.simps [of n] simp del: of_nat_add split: if_splits)
qed

lemma dec_of_nat_neq_Nil [simp]: "dec_of_nat n \<noteq> []"
  by (simp add: dec_of_nat.simps)

lemma not_in_dec: "\<not> is_ascii_digit b \<Longrightarrow> b \<notin> set (dec_of_nat n)"
  using dec_of_nat_digits by blast

lemma hd_dec_of_nat: "hd (dec_of_nat n) = 48 \<longleftrightarrow> n = 0"
proof (induction n rule: dec_of_nat.induct)
  case (1 n)
  show ?case
  proof (cases "n < 10")
    case True
    then have "unat (word_of_nat (48 + n) :: byte) = 48 + n" by (rule digit_byte)
    then have "word_of_nat (48 + n) = (48 :: byte) \<longleftrightarrow> n = 0"
      by (simp add: word_unat_eq_iff del: of_nat_add)
    with True show ?thesis by (simp add: dec_of_nat.simps [of n] del: of_nat_add)
  next
    case False
    with 1 have "hd (dec_of_nat (n div 10)) = 48 \<longleftrightarrow> n div 10 = 0" by simp
    with False show ?thesis by (simp add: dec_of_nat.simps [of n])
  qed
qed

lemma parse_uint_dec: "n \<le> mx \<Longrightarrow> parse_uint mx (dec_of_nat n) = Some n"
proof -
  assume n: "n \<le> mx"
  have "hd (dec_of_nat n) \<noteq> 0x2B"
    using dec_of_nat_digits [of "hd (dec_of_nat n)" n]
    by (auto simp: word_le_nat_alt is_ascii_digit_def)
  then have "(case dec_of_nat n of b # t \<Rightarrow> if b = 0x2B then t else dec_of_nat n | [] \<Rightarrow> []) =
      dec_of_nat n"
    by (cases "dec_of_nat n") simp_all
  then show ?thesis using parse_digits_dec [OF n] by (simp add: parse_uint_def)
qed

lemma parse_digits_le: "parse_digits mx acc bs = Some n \<Longrightarrow> acc \<le> mx \<Longrightarrow> n \<le> mx"
  by (induction mx acc bs rule: parse_digits.induct) (auto split: if_splits)

lemma parse_uint_le: "parse_uint mx bs = Some n \<Longrightarrow> n \<le> mx"
  by (auto simp: parse_uint_def Let_def split: if_splits list.splits dest: parse_digits_le)

section \<open>Splitting and joining\<close>

lemma split_once_append:
  "c \<notin> set l \<Longrightarrow> split_once c (l @ c # r) = Some (l, r)"
  by (induction l) auto

lemma split_once_None: "split_once c s = None \<longleftrightarrow> c \<notin> set s"
  by (induction c s rule: split_once.induct) auto

lemma split_once_SomeD:
  "split_once c s = Some (l, r) \<Longrightarrow> c \<notin> set l \<and> s = l @ c # r"
  by (induction c s arbitrary: l rule: split_once.induct) (auto split: if_splits)

lemma split_on_neq_Nil [simp]: "split_on c s \<noteq> []"
  by (induction c s rule: split_on.induct) (auto split: list.splits)

lemma split_on_free: "c \<notin> set s \<Longrightarrow> split_on c s = [s]"
  by (induction c s rule: split_on.induct) auto

lemma split_on_append: "c \<notin> set p \<Longrightarrow> split_on c (p @ c # s) = p # split_on c s"
  by (induction p) auto

lemma split_on_join_with:
  "ps \<noteq> [] \<Longrightarrow> \<forall>p\<in>set ps. c \<notin> set p \<Longrightarrow> split_on c (join_with c ps) = ps"
  by (induction c ps rule: join_with.induct) (auto simp: split_on_append split_on_free)

lemma split_on_pieces: "p \<in> set (split_on c s) \<Longrightarrow> c \<notin> set p \<and> set p \<subseteq> set s"
  by (induction c s arbitrary: p rule: split_on.induct) (fastforce split: if_splits list.splits)+

end
