(* ===== verification/RelayMsg.thy ===== *)
theory RelayMsg
  imports ChanMsg_Laws Text
begin

text \<open>
  \<open>relaycell/msg.rs\<close>, \<open>relaycell/flow_ctrl.rs\<close> and \<open>relaycell/conflux.rs\<close>: the messages
  inside relay cells. A body has a decoder \<open>decode_\<dots>\<close> and an encoder \<open>encode_\<dots>\<close>; the
  enumeration \<open>AnyRelayMsg\<close> is \<open>any_relay_msg\<close>, with the constructors of the source after
  the letter R. The crate is modelled with the feature \<open>conflux\<close>, and without \<open>hs\<close> and
  \<open>experimental-udp\<close>: the commands of onion services and UDP are then unrecognized. The
  decoders run on a reader truncated to the body, so several of them ask for the number of
  remaining bytes.
\<close>

section \<open>Text in messages\<close>

definition is_ascii :: "byte list \<Rightarrow> bool" where
  "is_ascii bs \<longleftrightarrow> list_all (\<lambda>b. b < 128) bs"

text \<open>\<open>str::from_utf8\<close>: whether the bytes are valid UTF-8.\<close>

definition utf8_cont :: "byte \<Rightarrow> bool" where
  "utf8_cont b \<longleftrightarrow> 0x80 \<le> b \<and> b \<le> 0xBF"

fun utf8_valid :: "byte list \<Rightarrow> bool" where
  "utf8_valid [] = True"
| "utf8_valid (a # bs) =
     (if a < 0x80 then utf8_valid bs
      else if 0xC2 \<le> a \<and> a \<le> 0xDF then
        (case bs of b # cs \<Rightarrow> utf8_cont b \<and> utf8_valid cs | _ \<Rightarrow> False)
      else if 0xE0 \<le> a \<and> a \<le> 0xEF then
        (case bs of
           b # c # ds \<Rightarrow>
             utf8_cont b \<and> utf8_cont c \<and> (a = 0xE0 \<longrightarrow> 0xA0 \<le> b) \<and> (a = 0xED \<longrightarrow> b \<le> 0x9F) \<and>
             utf8_valid ds
         | _ \<Rightarrow> False)
      else if 0xF0 \<le> a \<and> a \<le> 0xF4 then
        (case bs of
           b # c # d # es \<Rightarrow>
             utf8_cont b \<and> utf8_cont c \<and> utf8_cont d \<and> (a = 0xF0 \<longrightarrow> 0x90 \<le> b) \<and>
             (a = 0xF4 \<longrightarrow> b \<le> 0x8F) \<and> utf8_valid es
         | _ \<Rightarrow> False)
      else False)"

text \<open>\<open>u16::from_str\<close>.\<close>

definition parse_u16 :: "byte list \<Rightarrow> u16 option" where
  "parse_u16 bs = map_option word_of_nat (parse_uint 65535 bs)"

section \<open>Message bodies\<close>

subsection \<open>Begin\<close>

record begin_msg =
  bg_addr :: "byte list"
  bg_port :: u16
  bg_flags :: u32

text \<open>\<open>BeginFlags::from_bits_truncate\<close> keeps the three flags that are defined.\<close>

definition BeginFlags_from :: "u32 \<Rightarrow> u32" where
  "BeginFlags_from v = and v 7"

datatype IpVersionPreference = Ipv4Only | Ipv4Preferred | Ipv6Preferred | Ipv6Only

fun BeginFlags_of_pref :: "IpVersionPreference \<Rightarrow> u32" where
  "BeginFlags_of_pref Ipv4Only = BeginFlags_from 0"
| "BeginFlags_of_pref Ipv4Preferred = 1"
| "BeginFlags_of_pref Ipv6Preferred = or 1 4"
| "BeginFlags_of_pref Ipv6Only = 2"

definition ascii_lower :: "byte \<Rightarrow> byte" where
  "ascii_lower b = (if 65 \<le> b \<and> b \<le> 90 then b + 32 else b)"

text \<open>\<open>Begin::new\<close>; \<open>None\<close> is the error \<open>BadStreamAddress\<close>.\<close>

definition Begin_new :: "byte list \<Rightarrow> u16 \<Rightarrow> u32 \<Rightarrow> begin_msg option" where
  "Begin_new addr port flags =
     (if \<not> is_ascii addr then None
      else Some \<lparr>bg_addr = map ascii_lower addr, bg_port = port, bg_flags = flags\<rparr>)"

definition decode_begin_addr :: "byte list rd" where
  "decode_begin_addr r =
     (case rd_peek 1 r of
        Inl e \<Rightarrow> (Inl e, r)
      | Inr b \<Rightarrow>
          if b = [0x5B] then
            ebind (rd_advance 1) (\<lambda>_.
            ebind (rd_take_until 0x5D) (\<lambda>a.
            ebind rd_take_u8 (\<lambda>colon.
            if colon \<noteq> 0x3A then efail (InvalidMessage ''missing port in begin cell'')
            else eret a))) r
          else rd_take_until 0x3A r)"

definition decode_begin :: "begin_msg rd" where
  "decode_begin =
     ebind decode_begin_addr (\<lambda>addr.
     ebind (rd_take_until 0) (\<lambda>port.
     ebind (with_remaining (\<lambda>n. if 4 \<le> n then rd_take_u32 else eret 0)) (\<lambda>flags.
     if \<not> is_ascii addr then efail (InvalidMessage ''target address in begin cell not ascii'')
     else if \<not> utf8_valid port then efail (InvalidMessage ''port in begin cell not utf8'')
     else
       (case parse_u16 port of
          None \<Rightarrow> efail (InvalidMessage ''port in begin cell not a valid port'')
        | Some p \<Rightarrow>
            eret \<lparr>bg_addr = addr, bg_port = p, bg_flags = BeginFlags_from flags\<rparr>))))"

definition encode_begin :: "begin_msg \<Rightarrow> enc" where
  "encode_begin m =
     wconcat [if 0x3A \<in> set (bg_addr m)
                then wconcat [write_u8 0x5B, write_all (bg_addr m), write_u8 0x5D]
                else write_all (bg_addr m),
              write_u8 0x3A, write_all (dec_of_nat (unat (bg_port m))), write_u8 0,
              if bg_flags m \<noteq> 0 then write_u32 (bg_flags m) else write_all []]"

subsection \<open>Data\<close>

datatype RelayCellFormat = V0 | V1

definition MAXLEN_V0 :: nat where
  [simp]: "MAXLEN_V0 = CELL_DATA_LEN - 11"

definition MAXLEN_V1 :: nat where
  [simp]: "MAXLEN_V1 = CELL_DATA_LEN - 21"

text \<open>\<open>Data::new\<close>; the errors are the texts of \<open>CantEncode\<close>.\<close>

definition Data_new :: "byte list \<Rightarrow> string + byte list" where
  "Data_new inp =
     (if length inp > MAXLEN_V0 then Inl ''Data message too long''
      else if inp = [] then Inl ''Empty data message''
      else Inr inp)"

fun max_body_len :: "RelayCellFormat \<Rightarrow> nat" where
  "max_body_len V0 = MAXLEN_V0"
| "max_body_len V1 = MAXLEN_V1"

definition try_split_from :: "RelayCellFormat \<Rightarrow> byte list \<Rightarrow> (byte list \<times> byte list) option" where
  "try_split_from version inp =
     (if inp = [] then None
      else let len = min (length inp) (max_body_len version)
           in Some (take len inp, drop len inp))"

definition decode_data :: "byte list rd" where
  "decode_data =
     with_remaining (\<lambda>n.
     if n = 0 then efail (InvalidMessage ''Empty DATA message'') else rd_take n)"

definition encode_data :: "byte list \<Rightarrow> enc" where
  [wire_simps]: "encode_data body = write_all body"

subsection \<open>End and Connected\<close>

type_synonym EndReason = u8

abbreviation (input) END_MISC :: EndReason where "END_MISC \<equiv> 1"
abbreviation (input) END_EXITPOLICY :: EndReason where "END_EXITPOLICY \<equiv> 4"

record end_msg =
  en_reason :: EndReason
  en_addr :: "(ip_addr \<times> u32) option"

definition End_new_misc :: end_msg where
  "End_new_misc = \<lparr>en_reason = END_MISC, en_addr = None\<rparr>"

definition End_new_with_reason :: "EndReason \<Rightarrow> end_msg" where
  "End_new_with_reason reason = \<lparr>en_reason = reason, en_addr = None\<rparr>"

definition End_new_exitpolicy :: "ip_addr \<Rightarrow> u32 \<Rightarrow> end_msg" where
  "End_new_exitpolicy addr ttl = \<lparr>en_reason = END_EXITPOLICY, en_addr = Some (addr, ttl)\<rparr>"

definition decode_end :: "end_msg rd" where
  "decode_end =
     with_remaining (\<lambda>n.
     if n = 0 then eret \<lparr>en_reason = END_MISC, en_addr = None\<rparr>
     else
       ebind rd_take_u8 (\<lambda>reason.
       if reason = END_EXITPOLICY then
         ebind
           (with_remaining (\<lambda>n.
            if n = 4 \<or> n = 8 then ebind (rd_extract take_from_ipv4) (\<lambda>a. eret (Some (V4 a)))
            else if n = 16 \<or> n = 20 then ebind (rd_extract take_from_ipv6) (\<lambda>a. eret (Some (V6 a)))
            else eret None))
           (\<lambda>addr.
             case addr of
               None \<Rightarrow> eret \<lparr>en_reason = reason, en_addr = None\<rparr>
             | Some a \<Rightarrow>
                 ebind (with_remaining (\<lambda>n. if n = 4 then rd_take_u32 else eret (- 1))) (\<lambda>ttl.
                 eret \<lparr>en_reason = reason, en_addr = Some (a, ttl)\<rparr>))
       else eret \<lparr>en_reason = reason, en_addr = None\<rparr>))"

fun write_ip :: "ip_addr \<Rightarrow> enc" where
  "write_ip (V4 a) = write_onto_ipv4 a"
| "write_ip (V6 a) = write_onto_ipv6 a"

definition encode_end :: "end_msg \<Rightarrow> enc" where
  "encode_end m =
     wconcat [write_u8 (en_reason m),
              if en_reason m = END_EXITPOLICY then
                (case en_addr m of
                   Some (addr, ttl) \<Rightarrow> wconcat [write_ip addr, write_u32 ttl]
                 | None \<Rightarrow> write_all [])
              else write_all []]"

definition decode_connected :: "(ip_addr \<times> u32) option rd" where
  "decode_connected =
     with_remaining (\<lambda>n.
     if n = 0 then eret None
     else
       ebind rd_take_u32 (\<lambda>ipv4.
       ebind
         (if ipv4 = 0 then
            ebind rd_take_u8 (\<lambda>t.
            if t \<noteq> 6 then efail (InvalidMessage ''Invalid address type in CONNECTED cell'')
            else ebind (rd_extract take_from_ipv6) (\<lambda>a. eret (V6 a)))
          else eret (V4 ipv4)) (\<lambda>addr.
       ebind rd_take_u32 (\<lambda>ttl. eret (Some (addr, ttl))))))"

definition encode_connected :: "(ip_addr \<times> u32) option \<Rightarrow> enc" where
  "encode_connected m =
     (case m of
        Some (addr, ttl) \<Rightarrow>
          wconcat [case addr of
                     V4 v4 \<Rightarrow> write_onto_ipv4 v4
                   | V6 v6 \<Rightarrow> wconcat [write_u32 0, write_u8 6, write_onto_ipv6 v6],
                   write_u32 ttl]
      | None \<Rightarrow> write_all [])"

subsection \<open>Sendme\<close>

record sendme_tag =
  st_len :: nat
  st_tag :: "byte list"

definition SendmeTag_from20 :: "byte list \<Rightarrow> sendme_tag" where
  "SendmeTag_from20 value = \<lparr>st_len = 20, st_tag = value\<rparr>"

definition SendmeTag_from16 :: "byte list \<Rightarrow> sendme_tag" where
  "SendmeTag_from16 value = \<lparr>st_len = 16, st_tag = value @ drop 16 (replicate 20 0)\<rparr>"

definition SendmeTag_as_ref :: "sendme_tag \<Rightarrow> byte list" where
  "SendmeTag_as_ref t = take (st_len t) (st_tag t)"

definition SendmeTag_try_from :: "byte list \<Rightarrow> sendme_tag option" where
  "SendmeTag_try_from v =
     (if length v = 16 then Some (SendmeTag_from16 v)
      else if length v = 20 then Some (SendmeTag_from20 v)
      else None)"

definition decode_sendme :: "sendme_tag option rd" where
  "decode_sendme =
     with_remaining (\<lambda>n.
     if n = 0 then eret None
     else
       ebind rd_take_u8 (\<lambda>ver.
       if ver = 0 then eret None
       else if ver = 1 then
         ebind rd_take_u16 (\<lambda>dlen.
         ebind (rd_take (unat dlen)) (\<lambda>b.
         case SendmeTag_try_from b of
           None \<Rightarrow> efail BadLengthValue
         | Some t \<Rightarrow> eret (Some t)))
       else efail (InvalidMessage ''Unrecognized SENDME version.'')))"

definition encode_sendme :: "sendme_tag option \<Rightarrow> enc" where
  "encode_sendme m =
     (case m of
        None \<Rightarrow> write_all []
      | Some x \<Rightarrow>
          wconcat [write_u8 1, write_len_u16 (length (SendmeTag_as_ref x)),
                   write_all (SendmeTag_as_ref x)])"

subsection \<open>Extending circuits\<close>

record extend_msg =
  ex_addr :: u32
  ex_port :: u16
  ex_handshake :: "byte list"
  ex_rsaid :: "byte list"

definition decode_extend :: "extend_msg rd" where
  "decode_extend =
     ebind (rd_extract take_from_ipv4) (\<lambda>addr.
     ebind rd_take_u16 (\<lambda>port.
     ebind (rd_take TAP_C_HANDSHAKE_LEN) (\<lambda>handshake.
     ebind (rd_extract (rd_take 20)) (\<lambda>rsaid.
     eret \<lparr>ex_addr = addr, ex_port = port, ex_handshake = handshake, ex_rsaid = rsaid\<rparr>))))"

definition encode_extend :: "extend_msg \<Rightarrow> enc" where
  "encode_extend m =
     wconcat [write_onto_ipv4 (ex_addr m), write_u16 (ex_port m), write_all (ex_handshake m),
              write_all (ex_rsaid m)]"

definition decode_extended :: "byte list rd" where
  "decode_extended = ebind (rd_take TAP_S_HANDSHAKE_LEN) (\<lambda>handshake. eret handshake)"

definition encode_extended :: "byte list \<Rightarrow> enc" where
  [wire_simps]: "encode_extended handshake = write_all handshake"

text \<open>\<open>EncodedLinkSpec\<close> of the crate \<open>tor-linkspec\<close>.\<close>

record encoded_link_spec =
  ls_lstype :: u8
  ls_body :: "byte list"

definition take_from_link_spec :: "encoded_link_spec rd" where
  "take_from_link_spec =
     ebind rd_take_u8 (\<lambda>lstype.
     rd_read_nested_u8len
       (ebind rd_take_rest (\<lambda>body. eret \<lparr>ls_lstype = lstype, ls_body = body\<rparr>)))"

definition write_onto_link_spec :: "encoded_link_spec \<Rightarrow> enc" where
  "write_onto_link_spec m =
     wconcat [write_u8 (ls_lstype m), write_nested_u8len (write_all (ls_body m))]"

record extend2_msg =
  e2_linkspec :: "encoded_link_spec list"
  e2_handshake_type :: HandshakeType
  e2_handshake :: "byte list"

definition decode_extend2 :: "extend2_msg rd" where
  "decode_extend2 =
     ebind rd_take_u8 (\<lambda>n.
     ebind (rd_extract_n take_from_link_spec (unat n)) (\<lambda>linkspec.
     ebind rd_take_u16 (\<lambda>handshake_type.
     ebind rd_take_u16 (\<lambda>hlen.
     ebind (rd_take (unat hlen)) (\<lambda>handshake.
     eret \<lparr>e2_linkspec = linkspec, e2_handshake_type = handshake_type,
           e2_handshake = handshake\<rparr>)))))"

definition encode_extend2 :: "extend2_msg \<Rightarrow> enc" where
  "encode_extend2 m =
     wconcat [write_len_u8 (length (e2_linkspec m)),
              wconcat (map write_onto_link_spec (e2_linkspec m)),
              write_u16 (e2_handshake_type m),
              write_len_u16 (length (e2_handshake m)), write_all (e2_handshake m)]"

definition decode_extended2 :: "byte list rd" where
  "decode_extended2 =
     ebind rd_take_u16 (\<lambda>hlen.
     ebind (rd_take (unat hlen)) (\<lambda>handshake. eret handshake))"

definition encode_extended2 :: "byte list \<Rightarrow> enc" where
  "encode_extended2 handshake =
     wconcat [write_len_u16 (length handshake), write_all handshake]"

definition decode_truncated :: "DestroyReason rd" where
  "decode_truncated = ebind rd_take_u8 (\<lambda>reason. eret reason)"

definition encode_truncated :: "DestroyReason \<Rightarrow> enc" where
  [wire_simps]: "encode_truncated reason = write_u8 reason"

subsection \<open>Resolve and Resolved\<close>

text \<open>The lower-case hexadecimal digit of a number below 16 (\<open>{:x}\<close>).\<close>

definition hex_digit :: "byte \<Rightarrow> byte" where
  "hex_digit n = (if n < 10 then 48 + n else 87 + n)"

text \<open>\<open>Resolve\<close> holds its query.\<close>

fun Resolve_new_reverse :: "ip_addr \<Rightarrow> byte list" where
  "Resolve_new_reverse (V4 v4) =
     (let os = octets_v4 v4
      in dec_of_nat (unat (os ! 3)) @ str_bytes ''.'' @ dec_of_nat (unat (os ! 2)) @ str_bytes ''.'' @
         dec_of_nat (unat (os ! 1)) @ str_bytes ''.'' @ dec_of_nat (unat (os ! 0)) @
         str_bytes ''.in-addr.arpa'')"
| "Resolve_new_reverse (V6 v6) =
     concat (map (\<lambda>p. [hex_digit (and p 15), 0x2E, hex_digit (drop_bit 4 p), 0x2E])
               (rev (octets_v6 v6))) @ str_bytes ''ip6.arpa''"

definition decode_resolve :: "byte list rd" where
  "decode_resolve = ebind (rd_take_until 0) (\<lambda>query. eret query)"

definition encode_resolve :: "byte list \<Rightarrow> enc" where
  "encode_resolve query = wconcat [write_all query, write_u8 0]"

datatype resolved_val =
    Ip ip_addr
  | Hostname "byte list"
  | TransientError
  | NontransientError
  | UnrecognizedVal u8 "byte list"

abbreviation (input) RES_HOSTNAME :: u8 where "RES_HOSTNAME \<equiv> 0"
abbreviation (input) RES_IPV4 :: u8 where "RES_IPV4 \<equiv> 4"
abbreviation (input) RES_IPV6 :: u8 where "RES_IPV6 \<equiv> 6"
abbreviation (input) RES_ERR_TRANSIENT :: u8 where "RES_ERR_TRANSIENT \<equiv> 0xF0"
abbreviation (input) RES_ERR_NONTRANSIENT :: u8 where "RES_ERR_NONTRANSIENT \<equiv> 0xF1"

definition res_len :: "u8 \<Rightarrow> nat option" where
  "res_len tp = (if tp = RES_IPV4 then Some 4 else if tp = RES_IPV6 then Some 16 else None)"

definition take_from_resolved_val :: "resolved_val rd" where
  "take_from_resolved_val =
     ebind rd_take_u8 (\<lambda>tp.
     ebind rd_take_u8 (\<lambda>len.
     if (case res_len tp of Some expected_len \<Rightarrow> unat len \<noteq> expected_len | None \<Rightarrow> False)
     then efail (InvalidMessage ''Wrong length for RESOLVED answer'')
     else if tp = RES_HOSTNAME then ebind (rd_take (unat len)) (\<lambda>h. eret (Hostname h))
     else if tp = RES_IPV4 then ebind (rd_extract take_from_ipv4) (\<lambda>a. eret (Ip (V4 a)))
     else if tp = RES_IPV6 then ebind (rd_extract take_from_ipv6) (\<lambda>a. eret (Ip (V6 a)))
     else if tp = RES_ERR_TRANSIENT then ebind (rd_advance (unat len)) (\<lambda>_. eret TransientError)
     else if tp = RES_ERR_NONTRANSIENT then ebind (rd_advance (unat len)) (\<lambda>_. eret NontransientError)
     else ebind (rd_take (unat len)) (\<lambda>v. eret (UnrecognizedVal tp v))))"

fun write_onto_resolved_val :: "resolved_val \<Rightarrow> enc" where
  "write_onto_resolved_val (Hostname h) =
     wconcat [write_u8 RES_HOSTNAME, write_len_u8 (length h), write_all h]"
| "write_onto_resolved_val (Ip (V4 a)) =
     wconcat [write_u8 RES_IPV4, write_u8 4, write_onto_ipv4 a]"
| "write_onto_resolved_val (Ip (V6 a)) =
     wconcat [write_u8 RES_IPV6, write_u8 16, write_onto_ipv6 a]"
| "write_onto_resolved_val TransientError = wconcat [write_u8 RES_ERR_TRANSIENT, write_u8 0]"
| "write_onto_resolved_val NontransientError = wconcat [write_u8 RES_ERR_NONTRANSIENT, write_u8 0]"
| "write_onto_resolved_val (UnrecognizedVal tp v) =
     wconcat [write_u8 tp, write_len_u8 (length v), write_all v]"

definition take_from_answer :: "(resolved_val \<times> u32) rd" where
  "take_from_answer =
     ebind (rd_extract take_from_resolved_val) (\<lambda>rv.
     ebind rd_take_u32 (\<lambda>ttl. eret (rv, ttl)))"

lemma readable_take_from_resolved_val [contract_rules]: "readable take_from_resolved_val"
  unfolding take_from_resolved_val_def by (intro contract_rules)

lemma readable_take_from_answer [contract_rules]: "readable take_from_answer"
  unfolding take_from_answer_def by (intro contract_rules)

lemma take_from_answer_decreases:
  assumes "0 < rd_remaining r" "take_from_answer r = (Inr v, r')"
  shows "rd_remaining r' < rd_remaining r"
proof -
  have "reader_wf r" using assms(1) by (simp add: rd_remaining_def reader_wf_def)
  then obtain pre s c where r: "r = rdr pre s c" using reader_wf_imp_rdr by blast
  with assms(2) obtain x r1 where
    1: "rd_extract take_from_resolved_val (rdr pre s c) = (Inr x, r1)" and
    2: "ebind rd_take_u32 (\<lambda>ttl. eret (x, ttl)) r1 = (Inr v, r')"
    by (auto simp: take_from_answer_def ebind_eq_Inr)
  obtain u w where "s = u @ w" "r1 = rdr (pre @ u) w c"
    using body_readable.frame [OF body_readable_rd_extract [OF readable_body
        [OF readable_take_from_resolved_val]], of s pre c] 1 by auto
  with 2 r show ?thesis
    by (auto simp: rd_take_u32_def ebind_eq_Inr eret_def take_from_array_eq rd_take_rdr
        split: if_splits)
qed

text \<open>The loop \<open>while r.remaining() > 0\<close> of \<open>Resolved\<close>, with the answers read so far.\<close>

function resolved_loop :: "(resolved_val \<times> u32) list \<Rightarrow> (resolved_val \<times> u32) list rd" where
  "resolved_loop answers r =
     (if 0 < rd_remaining r
      then (case take_from_answer r of
              (Inl e, r') \<Rightarrow> (Inl e, r')
            | (Inr a, r') \<Rightarrow> resolved_loop (answers @ [a]) r')
      else (Inr answers, r))"
  by auto
termination
  by (relation "measure (\<lambda>(_, r). rd_remaining r)") (auto intro: take_from_answer_decreases [OF _ sym])

declare resolved_loop.simps [simp del]

definition decode_resolved :: "(resolved_val \<times> u32) list rd" where
  "decode_resolved = resolved_loop []"

definition encode_resolved :: "(resolved_val \<times> u32) list \<Rightarrow> enc" where
  "encode_resolved answers =
     wconcat (map (\<lambda>(rv, ttl). wconcat [write_onto_resolved_val rv, write_u32 ttl]) answers)"

definition Resolved_new_err :: "bool \<Rightarrow> u32 \<Rightarrow> (resolved_val \<times> u32) list" where
  "Resolved_new_err transient ttl = [(if transient then TransientError else NontransientError, ttl)]"

subsection \<open>Flow control\<close>

datatype XonKbpsEwma = Limited u32 | Unlimited

definition XonKbpsEwma_decode :: "u32 \<Rightarrow> XonKbpsEwma" where
  "XonKbpsEwma_decode k = (if k \<noteq> 0 then Limited k else Unlimited)"

fun XonKbpsEwma_encode :: "XonKbpsEwma \<Rightarrow> u32" where
  "XonKbpsEwma_encode (Limited x) = x"
| "XonKbpsEwma_encode Unlimited = 0"

definition FlowCtrlVersion_new :: "u8 \<Rightarrow> u8 option" where
  "FlowCtrlVersion_new version = (if version \<noteq> 0 then None else Some version)"

record xon =
  xon_version :: u8
  xon_kbps_ewma :: XonKbpsEwma

definition decode_xon :: "xon rd" where
  "decode_xon =
     ebind rd_take_u8 (\<lambda>v.
     case FlowCtrlVersion_new v of
       None \<Rightarrow> efail (InvalidMessage ''Unrecognized XON version.'')
     | Some version \<Rightarrow>
         ebind rd_take_u32 (\<lambda>k.
         eret \<lparr>xon_version = version, xon_kbps_ewma = XonKbpsEwma_decode k\<rparr>))"

definition encode_xon :: "xon \<Rightarrow> enc" where
  "encode_xon m = wconcat [write_u8 (xon_version m), write_u32 (XonKbpsEwma_encode (xon_kbps_ewma m))]"

definition decode_xoff :: "u8 rd" where
  "decode_xoff =
     ebind rd_take_u8 (\<lambda>v.
     case FlowCtrlVersion_new v of
       None \<Rightarrow> efail (InvalidMessage ''Unrecognized XOFF version.'')
     | Some version \<Rightarrow> eret version)"

definition encode_xoff :: "u8 \<Rightarrow> enc" where
  [wire_simps]: "encode_xoff version = write_u8 version"

subsection \<open>Conflux\<close>

definition CONFLUX_LINK_VERSION :: u8 where
  "CONFLUX_LINK_VERSION = 1"

definition V1_LINK_NONCE_LEN :: nat where
  [simp]: "V1_LINK_NONCE_LEN = 32"

record v1_link_payload =
  lp_nonce :: "byte list"
  lp_last_seqno_sent :: u64
  lp_last_seqno_recv :: u64
  lp_desired_ux :: u8

record conflux_link =
  cl_version :: u8
  cl_payload :: v1_link_payload

definition V1LinkPayload_new :: "byte list \<Rightarrow> u8 \<Rightarrow> v1_link_payload" where
  "V1LinkPayload_new nonce desired_ux =
     \<lparr>lp_nonce = nonce, lp_last_seqno_sent = 0, lp_last_seqno_recv = 0, lp_desired_ux = desired_ux\<rparr>"

definition ConfluxLink_new :: "v1_link_payload \<Rightarrow> conflux_link" where
  "ConfluxLink_new payload = \<lparr>cl_version = CONFLUX_LINK_VERSION, cl_payload = payload\<rparr>"

definition decode_v1_link_payload :: "v1_link_payload rd" where
  "decode_v1_link_payload =
     ebind (rd_extract (take_from_array V1_LINK_NONCE_LEN)) (\<lambda>nonce.
     ebind rd_take_u64 (\<lambda>last_seqno_sent.
     ebind rd_take_u64 (\<lambda>last_seqno_recv.
     ebind rd_take_u8 (\<lambda>desired_ux.
     eret \<lparr>lp_nonce = nonce, lp_last_seqno_sent = last_seqno_sent,
           lp_last_seqno_recv = last_seqno_recv, lp_desired_ux = desired_ux\<rparr>))))"

definition encode_v1_link_payload :: "v1_link_payload \<Rightarrow> enc" where
  "encode_v1_link_payload p =
     wconcat [write_all (lp_nonce p), write_u64 (lp_last_seqno_sent p),
              write_u64 (lp_last_seqno_recv p), write_u8 (lp_desired_ux p)]"

definition decode_link :: "conflux_link rd" where
  "decode_link =
     ebind rd_take_u8 (\<lambda>version.
     if version \<noteq> CONFLUX_LINK_VERSION
     then efail (InvalidMessage ''Unrecognized CONFLUX_LINK/CONFLUX_LINKED version.'')
     else ebind decode_v1_link_payload (\<lambda>payload.
          eret \<lparr>cl_version = version, cl_payload = payload\<rparr>))"

definition encode_link :: "conflux_link \<Rightarrow> enc" where
  "encode_link m = wconcat [write_u8 (cl_version m), encode_v1_link_payload (cl_payload m)]"

definition decode_switch :: "u32 rd" where
  "decode_switch = ebind rd_take_u32 (\<lambda>seqno. eret seqno)"

definition encode_switch :: "u32 \<Rightarrow> enc" where
  [wire_simps]: "encode_switch seqno = write_u32 seqno"

end
