(* ===== verification/RelayCell.thy ===== *)
theory RelayCell
  imports RelayMsg ChanCodec
begin

text \<open>
  Relay cells of the crate \<open>tor-cell\<close>.
  \<^item> \<open>relaycell.rs\<close>: commands and what they require of a stream identifier, the two cell
    formats, the decoder of cell bodies, and \<open>RelayMsgOuter\<close> with its encoders and decoders.
  \<^item> \<open>slicewriter.rs\<close>: the writer over a buffer of fixed size, which postpones an overflow
    until its data is taken out.
  \<^item> The enumeration \<open>AnyRelayMsg\<close> and its dispatch (\<open>relaycell/msg.rs\<close>, \<open>restrict.rs\<close>).
  The random padding of a cell comes from a generator that is an argument of the encoder.
\<close>

section \<open>Commands\<close>

type_synonym RelayCmd = u8

abbreviation (input) RC_BEGIN :: RelayCmd where "RC_BEGIN \<equiv> 1"
abbreviation (input) RC_DATA :: RelayCmd where "RC_DATA \<equiv> 2"
abbreviation (input) RC_END :: RelayCmd where "RC_END \<equiv> 3"
abbreviation (input) RC_CONNECTED :: RelayCmd where "RC_CONNECTED \<equiv> 4"
abbreviation (input) RC_SENDME :: RelayCmd where "RC_SENDME \<equiv> 5"
abbreviation (input) RC_EXTEND :: RelayCmd where "RC_EXTEND \<equiv> 6"
abbreviation (input) RC_EXTENDED :: RelayCmd where "RC_EXTENDED \<equiv> 7"
abbreviation (input) RC_TRUNCATE :: RelayCmd where "RC_TRUNCATE \<equiv> 8"
abbreviation (input) RC_TRUNCATED :: RelayCmd where "RC_TRUNCATED \<equiv> 9"
abbreviation (input) RC_DROP :: RelayCmd where "RC_DROP \<equiv> 10"
abbreviation (input) RC_RESOLVE :: RelayCmd where "RC_RESOLVE \<equiv> 11"
abbreviation (input) RC_RESOLVED :: RelayCmd where "RC_RESOLVED \<equiv> 12"
abbreviation (input) RC_BEGIN_DIR :: RelayCmd where "RC_BEGIN_DIR \<equiv> 13"
abbreviation (input) RC_EXTEND2 :: RelayCmd where "RC_EXTEND2 \<equiv> 14"
abbreviation (input) RC_EXTENDED2 :: RelayCmd where "RC_EXTENDED2 \<equiv> 15"
abbreviation (input) RC_CONNECT_UDP :: RelayCmd where "RC_CONNECT_UDP \<equiv> 16"
abbreviation (input) RC_CONNECTED_UDP :: RelayCmd where "RC_CONNECTED_UDP \<equiv> 17"
abbreviation (input) RC_DATAGRAM :: RelayCmd where "RC_DATAGRAM \<equiv> 18"
abbreviation (input) RC_CONFLUX_LINK :: RelayCmd where "RC_CONFLUX_LINK \<equiv> 19"
abbreviation (input) RC_CONFLUX_LINKED :: RelayCmd where "RC_CONFLUX_LINKED \<equiv> 20"
abbreviation (input) RC_CONFLUX_LINKED_ACK :: RelayCmd where "RC_CONFLUX_LINKED_ACK \<equiv> 21"
abbreviation (input) RC_CONFLUX_SWITCH :: RelayCmd where "RC_CONFLUX_SWITCH \<equiv> 22"
abbreviation (input) RC_XOFF :: RelayCmd where "RC_XOFF \<equiv> 43"
abbreviation (input) RC_XON :: RelayCmd where "RC_XON \<equiv> 44"

datatype StreamIdReq = StreamWantNone | StreamWantSome | StreamAny | StreamUnrecognized

text \<open>
  \<open>expects_streamid\<close>; 32 to 40 are the commands of onion services, \<open>ESTABLISH_INTRO\<close> to
  \<open>INTRODUCE_ACK\<close>.
\<close>

definition expects_streamid :: "RelayCmd \<Rightarrow> RelayCellFormat option \<Rightarrow> StreamIdReq" where
  "expects_streamid cmd format =
     (if cmd \<in> set [RC_BEGIN, RC_DATA, RC_END, RC_CONNECTED, RC_RESOLVE, RC_RESOLVED,
                    RC_BEGIN_DIR, RC_XOFF, RC_XON] then StreamWantSome
      else if cmd \<in> set [RC_CONNECT_UDP, RC_CONNECTED_UDP, RC_DATAGRAM] then StreamWantSome
      else if cmd \<in> set [RC_EXTEND, RC_EXTENDED, RC_TRUNCATE, RC_TRUNCATED, RC_DROP, RC_EXTEND2,
                    RC_EXTENDED2, RC_CONFLUX_LINK, RC_CONFLUX_LINKED, RC_CONFLUX_LINKED_ACK,
                    RC_CONFLUX_SWITCH, 32, 33, 34, 35, 36, 37, 38, 39, 40] then StreamWantNone
      else if cmd = RC_SENDME then
        (case format of
           Some V1 \<Rightarrow> StreamWantNone
         | Some V0 \<Rightarrow> StreamAny
         | None \<Rightarrow> StreamAny)
      else StreamUnrecognized)"

text \<open>\<open>StreamId\<close> wraps a \<open>NonZeroU16\<close>.\<close>

type_synonym stream_id = u16

definition StreamId_new :: "u16 \<Rightarrow> stream_id option" where
  "StreamId_new i = (if i = 0 then None else Some i)"

definition StreamId_get_or_zero :: "stream_id option \<Rightarrow> u16" where
  "StreamId_get_or_zero s = (case s of Some i \<Rightarrow> i | None \<Rightarrow> 0)"

definition accepts_streamid_val :: "RelayCmd \<Rightarrow> stream_id option \<Rightarrow> bool" where
  "accepts_streamid_val cmd i =
     (case expects_streamid cmd None of
        StreamWantNone \<Rightarrow> i = None
      | StreamWantSome \<Rightarrow> i \<noteq> None
      | StreamAny \<Rightarrow> True
      | StreamUnrecognized \<Rightarrow> True)"

section \<open>Any message\<close>

record relay_unrecognized =
  ru_cmd :: RelayCmd
  ru_body :: "byte list"

definition decode_relay_unrecognized :: "relay_unrecognized rd" where
  "decode_relay_unrecognized =
     with_remaining (\<lambda>n. ebind (rd_take n) (\<lambda>body. eret \<lparr>ru_cmd = 0, ru_body = body\<rparr>))"

definition relay_decode_with_cmd :: "RelayCmd \<Rightarrow> relay_unrecognized rd" where
  "relay_decode_with_cmd cmd = ebind decode_relay_unrecognized (\<lambda>u. eret (u\<lparr>ru_cmd := cmd\<rparr>))"

definition encode_relay_unrecognized :: "relay_unrecognized \<Rightarrow> enc" where
  [wire_simps]: "encode_relay_unrecognized m = write_all (ru_body m)"

text \<open>The macro \<open>empty_body!\<close>.\<close>

definition decode_empty_body :: "unit rd" where
  "decode_empty_body = eret ()"

definition encode_empty_body :: enc where
  [wire_simps]: "encode_empty_body = write_all []"

datatype any_relay_msg =
    RBegin begin_msg
  | RData "byte list"
  | REnd end_msg
  | RConnected "(ip_addr \<times> u32) option"
  | RSendme "sendme_tag option"
  | RExtend extend_msg
  | RExtended "byte list"
  | RExtend2 extend2_msg
  | RExtended2 "byte list"
  | RTruncate
  | RTruncated DestroyReason
  | RDrop
  | RResolve "byte list"
  | RResolved "(resolved_val \<times> u32) list"
  | RBeginDir
  | RConfluxLink conflux_link
  | RConfluxLinked conflux_link
  | RConfluxLinkedAck
  | RConfluxSwitch u32
  | RXon xon
  | RXoff u8
  | RUnrecognized relay_unrecognized

fun AnyRelayMsg_cmd :: "any_relay_msg \<Rightarrow> RelayCmd" where
  "AnyRelayMsg_cmd (RBegin _) = RC_BEGIN"
| "AnyRelayMsg_cmd (RData _) = RC_DATA"
| "AnyRelayMsg_cmd (REnd _) = RC_END"
| "AnyRelayMsg_cmd (RConnected _) = RC_CONNECTED"
| "AnyRelayMsg_cmd (RSendme _) = RC_SENDME"
| "AnyRelayMsg_cmd (RExtend _) = RC_EXTEND"
| "AnyRelayMsg_cmd (RExtended _) = RC_EXTENDED"
| "AnyRelayMsg_cmd (RExtend2 _) = RC_EXTEND2"
| "AnyRelayMsg_cmd (RExtended2 _) = RC_EXTENDED2"
| "AnyRelayMsg_cmd RTruncate = RC_TRUNCATE"
| "AnyRelayMsg_cmd (RTruncated _) = RC_TRUNCATED"
| "AnyRelayMsg_cmd RDrop = RC_DROP"
| "AnyRelayMsg_cmd (RResolve _) = RC_RESOLVE"
| "AnyRelayMsg_cmd (RResolved _) = RC_RESOLVED"
| "AnyRelayMsg_cmd RBeginDir = RC_BEGIN_DIR"
| "AnyRelayMsg_cmd (RConfluxLink _) = RC_CONFLUX_LINK"
| "AnyRelayMsg_cmd (RConfluxLinked _) = RC_CONFLUX_LINKED"
| "AnyRelayMsg_cmd RConfluxLinkedAck = RC_CONFLUX_LINKED_ACK"
| "AnyRelayMsg_cmd (RConfluxSwitch _) = RC_CONFLUX_SWITCH"
| "AnyRelayMsg_cmd (RXon _) = RC_XON"
| "AnyRelayMsg_cmd (RXoff _) = RC_XOFF"
| "AnyRelayMsg_cmd (RUnrecognized u) = ru_cmd u"

fun AnyRelayMsg_encode_onto :: "any_relay_msg \<Rightarrow> enc" where
  "AnyRelayMsg_encode_onto (RBegin m) = encode_begin m"
| "AnyRelayMsg_encode_onto (RData m) = encode_data m"
| "AnyRelayMsg_encode_onto (REnd m) = encode_end m"
| "AnyRelayMsg_encode_onto (RConnected m) = encode_connected m"
| "AnyRelayMsg_encode_onto (RSendme m) = encode_sendme m"
| "AnyRelayMsg_encode_onto (RExtend m) = encode_extend m"
| "AnyRelayMsg_encode_onto (RExtended m) = encode_extended m"
| "AnyRelayMsg_encode_onto (RExtend2 m) = encode_extend2 m"
| "AnyRelayMsg_encode_onto (RExtended2 m) = encode_extended2 m"
| "AnyRelayMsg_encode_onto RTruncate = encode_empty_body"
| "AnyRelayMsg_encode_onto (RTruncated m) = encode_truncated m"
| "AnyRelayMsg_encode_onto RDrop = encode_empty_body"
| "AnyRelayMsg_encode_onto (RResolve m) = encode_resolve m"
| "AnyRelayMsg_encode_onto (RResolved m) = encode_resolved m"
| "AnyRelayMsg_encode_onto RBeginDir = encode_empty_body"
| "AnyRelayMsg_encode_onto (RConfluxLink m) = encode_link m"
| "AnyRelayMsg_encode_onto (RConfluxLinked m) = encode_link m"
| "AnyRelayMsg_encode_onto RConfluxLinkedAck = encode_empty_body"
| "AnyRelayMsg_encode_onto (RConfluxSwitch m) = encode_switch m"
| "AnyRelayMsg_encode_onto (RXon m) = encode_xon m"
| "AnyRelayMsg_encode_onto (RXoff m) = encode_xoff m"
| "AnyRelayMsg_encode_onto (RUnrecognized m) = encode_relay_unrecognized m"

definition relay_body_decode :: "('a \<Rightarrow> any_relay_msg) \<Rightarrow> 'a rd \<Rightarrow> any_relay_msg rd" where
  "relay_body_decode con dec = ebind dec (\<lambda>m. eret (con m))"

definition AnyRelayMsg_decode_from_reader :: "RelayCmd \<Rightarrow> any_relay_msg rd" where
  "AnyRelayMsg_decode_from_reader cmd =
     (if cmd = RC_BEGIN then relay_body_decode RBegin decode_begin
      else if cmd = RC_DATA then relay_body_decode RData decode_data
      else if cmd = RC_END then relay_body_decode REnd decode_end
      else if cmd = RC_CONNECTED then relay_body_decode RConnected decode_connected
      else if cmd = RC_SENDME then relay_body_decode RSendme decode_sendme
      else if cmd = RC_EXTEND then relay_body_decode RExtend decode_extend
      else if cmd = RC_EXTENDED then relay_body_decode RExtended decode_extended
      else if cmd = RC_EXTEND2 then relay_body_decode RExtend2 decode_extend2
      else if cmd = RC_EXTENDED2 then relay_body_decode RExtended2 decode_extended2
      else if cmd = RC_TRUNCATE then relay_body_decode (\<lambda>_. RTruncate) decode_empty_body
      else if cmd = RC_TRUNCATED then relay_body_decode RTruncated decode_truncated
      else if cmd = RC_DROP then relay_body_decode (\<lambda>_. RDrop) decode_empty_body
      else if cmd = RC_RESOLVE then relay_body_decode RResolve decode_resolve
      else if cmd = RC_RESOLVED then relay_body_decode RResolved decode_resolved
      else if cmd = RC_BEGIN_DIR then relay_body_decode (\<lambda>_. RBeginDir) decode_empty_body
      else if cmd = RC_CONFLUX_LINK then relay_body_decode RConfluxLink decode_link
      else if cmd = RC_CONFLUX_LINKED then relay_body_decode RConfluxLinked decode_link
      else if cmd = RC_CONFLUX_LINKED_ACK then relay_body_decode (\<lambda>_. RConfluxLinkedAck) decode_empty_body
      else if cmd = RC_CONFLUX_SWITCH then relay_body_decode RConfluxSwitch decode_switch
      else if cmd = RC_XON then relay_body_decode RXon decode_xon
      else if cmd = RC_XOFF then relay_body_decode RXoff decode_xoff
      else relay_body_decode RUnrecognized (relay_decode_with_cmd cmd))"

section \<open>The slice writer\<close>

definition USIZE_MAX :: nat where
  "USIZE_MAX = 2 ^ 64 - 1"

definition saturating_add_usize :: "nat \<Rightarrow> nat \<Rightarrow> nat" where
  "saturating_add_usize a b = min (a + b) USIZE_MAX"

record slice_writer =
  sw_data :: "byte list"
  sw_offset :: nat

definition SliceWriter_new :: "byte list \<Rightarrow> slice_writer" where
  "SliceWriter_new data = \<lparr>sw_data = data, sw_offset = 0\<rparr>"

definition sw_write_all :: "byte list \<Rightarrow> slice_writer \<Rightarrow> slice_writer" where
  "sw_write_all b w =
     (let new_offset = saturating_add_usize (sw_offset w) (length b)
      in if new_offset \<le> length (sw_data w)
         then w\<lparr>sw_data := take (sw_offset w) (sw_data w) @ b @ drop new_offset (sw_data w),
                sw_offset := new_offset\<rparr>
         else w\<lparr>sw_offset := USIZE_MAX\<rparr>)"

definition sw_advance :: "nat \<Rightarrow> slice_writer \<Rightarrow> slice_writer" where
  "sw_advance n w =
     (let new_offset = saturating_add_usize (sw_offset w) n
      in if new_offset \<le> length (sw_data w) then w\<lparr>sw_offset := new_offset\<rparr>
         else w\<lparr>sw_offset := USIZE_MAX\<rparr>)"

definition sw_offset_res :: "slice_writer \<Rightarrow> nat option" where
  "sw_offset_res w = (if sw_offset w \<noteq> USIZE_MAX then Some (sw_offset w) else None)"

definition sw_try_unwrap :: "slice_writer \<Rightarrow> (byte list \<times> nat) option" where
  "sw_try_unwrap w = map_option (\<lambda>off. (sw_data w, off)) (sw_offset_res w)"

text \<open>An encoder that writes to a slice writer.\<close>

definition sw_write :: "enc \<Rightarrow> (slice_writer, encode_error, unit) eff" where
  "sw_write e w = (snd e, sw_write_all (fst e) w)"

section \<open>Encoding a cell\<close>

record relay_msg_outer =
  ro_streamid :: "stream_id option"
  ro_msg :: any_relay_msg

definition BODY_MAX_LEN_V0 :: nat where
  [simp]: "BODY_MAX_LEN_V0 = 509"

definition BODY_MAX_LEN_V1 :: nat where
  [simp]: "BODY_MAX_LEN_V1 = 509"

definition encode_to_cell_v0 :: "relay_msg_outer \<Rightarrow> encode_error + (byte list \<times> nat)" where
  "encode_to_cell_v0 m =
     (let w0 = SliceWriter_new (replicate BODY_MAX_LEN_V0 0);
          w1 = sw_write_all [AnyRelayMsg_cmd (ro_msg m)] w0;
          w2 = sw_write_all (to_be_bytes (0 :: u16)) w1;
          w3 = sw_write_all (to_be_bytes (StreamId_get_or_zero (ro_streamid m))) w2;
          w4 = sw_write_all (to_be_bytes (0 :: u32)) w3;
          w5 = sw_write_all (to_be_bytes (0 :: u16)) w4
      in case sw_write (AnyRelayMsg_encode_onto (ro_msg m)) w5 of
           (Inl e, _) \<Rightarrow> Inl e
         | (Inr _, w) \<Rightarrow>
             (case sw_try_unwrap w of
                None \<Rightarrow> Inl (EncBug ''Encoding of relay message was too long to fit into a cell!'')
              | Some (body, written) \<Rightarrow>
                  let payload_len = written - 11
                  in Inr (set_slice2 9 (to_be_bytes (word_of_nat payload_len :: u16)) body, written)))"

definition encode_to_cell_v1 :: "relay_msg_outer \<Rightarrow> encode_error + (byte list \<times> nat)" where
  "encode_to_cell_v1 m =
     (let cmd = AnyRelayMsg_cmd (ro_msg m);
          w0 = SliceWriter_new (replicate BODY_MAX_LEN_V1 0);
          w1 = sw_advance 16 w0;
          w2 = sw_write_all [cmd] w1;
          w3 = sw_advance 2 w2
      in case (case (expects_streamid cmd (Some V1), ro_streamid m) of
                 (StreamWantNone, None) \<Rightarrow> Some (w3, 16 + 1 + 2)
               | (StreamWantSome, Some i) \<Rightarrow> Some (sw_write_all (to_be_bytes i) w3, 16 + 1 + 2 + 2)
               | _ \<Rightarrow> None) of
           None \<Rightarrow> Inl (EncBug ''Tried to encode invalid stream ID'')
         | Some (w4, body_pos) \<Rightarrow>
             (case sw_write (AnyRelayMsg_encode_onto (ro_msg m)) w4 of
                (Inl e, _) \<Rightarrow> Inl e
              | (Inr _, w) \<Rightarrow>
                  (case sw_try_unwrap w of
                     None \<Rightarrow> Inl (EncBug ''Encoding of relay message was too long to fit into a cell!'')
                   | Some (body, written) \<Rightarrow>
                       let payload_len = written - body_pos
                       in Inr (set_slice2 17 (to_be_bytes (word_of_nat payload_len :: u16)) body,
                               written))))"

text \<open>
  \<open>RelayMsgOuter::encode\<close>; \<open>fill n\<close> is what \<open>rng.fill_bytes\<close> puts into a slice of length
  \<open>n\<close>.
\<close>

definition relay_encode :: "RelayCellFormat \<Rightarrow> (nat \<Rightarrow> byte list) \<Rightarrow> relay_msg_outer \<Rightarrow> cell_error + byte list" where
  "relay_encode format fill m =
     (case (case format of V0 \<Rightarrow> encode_to_cell_v0 m | V1 \<Rightarrow> encode_to_cell_v1 m) of
        Inl e \<Rightarrow> Inl (EncodeErr e)
      | Inr (body, enc_len) \<Rightarrow>
          Inr (if enc_len < CELL_DATA_LEN - 4
               then take (enc_len + 4) body @ fill (length body - (enc_len + 4)) else body))"

section \<open>Decoding a cell\<close>

text \<open>\<open>UnparsedRelayMsg\<close>: the body of the cell, with its format.\<close>

datatype unparsed_relay_msg = UnparsedV0 "byte list" | UnparsedV1 "byte list"

record incomplete_info =
  ii_cmd :: RelayCmd
  ii_stream_id :: "stream_id option"
  ii_total_msg_len :: nat
  ii_num_bytes_present :: nat

record decoder_result =
  dr_msgs :: "unparsed_relay_msg list"
  dr_incomplete :: "incomplete_info option"

text \<open>\<open>RelayCellDecoder::decode\<close>; the state of the decoder is its format.\<close>

fun decoder_decode :: "RelayCellFormat \<Rightarrow> byte list \<Rightarrow> decoder_result" where
  "decoder_decode V0 cell = \<lparr>dr_msgs = [UnparsedV0 cell], dr_incomplete = None\<rparr>"
| "decoder_decode V1 cell = \<lparr>dr_msgs = [UnparsedV1 cell], dr_incomplete = None\<rparr>"

definition from_singleton_body :: "RelayCellFormat \<Rightarrow> byte list \<Rightarrow> bytes_error + unparsed_relay_msg" where
  "from_singleton_body version body =
     (let res = decoder_decode version body
      in case dr_msgs res of
           [] \<Rightarrow> Inl MissingData
         | msg # later \<Rightarrow>
             if dr_incomplete res \<noteq> None then Inl ExtraneousBytes
             else if later \<noteq> [] then Inl ExtraneousBytes
             else Inr msg)"

fun unparsed_cmd :: "unparsed_relay_msg \<Rightarrow> RelayCmd" where
  "unparsed_cmd (UnparsedV0 body) = body ! 0"
| "unparsed_cmd (UnparsedV1 body) = body ! 16"

text \<open>The two bytes at a position, as a big-endian number.\<close>

definition u16_at :: "nat \<Rightarrow> byte list \<Rightarrow> u16" where
  "u16_at pos body = from_be_bytes (take 2 (drop pos body))"

fun unparsed_stream_id :: "unparsed_relay_msg \<Rightarrow> stream_id option" where
  "unparsed_stream_id (UnparsedV0 body) = StreamId_new (u16_at 3 body)"
| "unparsed_stream_id (UnparsedV1 body) =
     (case expects_streamid (unparsed_cmd (UnparsedV1 body)) (Some V1) of
        StreamWantNone \<Rightarrow> None
      | StreamUnrecognized \<Rightarrow> None
      | StreamAny \<Rightarrow> None
      | StreamWantSome \<Rightarrow> StreamId_new (u16_at 19 body))"

definition unparsed_data_len :: "unparsed_relay_msg \<Rightarrow> bytes_error + u16" where
  "unparsed_data_len u =
     (if unparsed_cmd u \<noteq> RC_DATA then Inr 0
      else
        let len = (case u of UnparsedV0 body \<Rightarrow> u16_at 9 body | UnparsedV1 body \<Rightarrow> u16_at 17 body);
            mx = (case u of UnparsedV0 _ \<Rightarrow> BODY_MAX_LEN_V0 | UnparsedV1 _ \<Rightarrow> BODY_MAX_LEN_V1)
        in if unat len > mx then Inl BadLengthValue else Inr len)"

definition decoder_result_cmds :: "decoder_result \<Rightarrow> RelayCmd list" where
  "decoder_result_cmds res =
     map unparsed_cmd (dr_msgs res) @
     (case dr_incomplete res of None \<Rightarrow> [] | Some c \<Rightarrow> [ii_cmd c])"

definition is_padding :: "decoder_result \<Rightarrow> bool" where
  "is_padding res \<longleftrightarrow>
     list_all (\<lambda>m. unparsed_cmd m = RC_DROP) (dr_msgs res) \<and>
     (case dr_incomplete res of None \<Rightarrow> True | Some incomplete \<Rightarrow> ii_cmd incomplete = RC_DROP)"

text \<open>The end of both decoders: truncate the reader to the length and decode the body.\<close>

definition decode_truncated_body :: "RelayCmd \<Rightarrow> nat \<Rightarrow> stream_id option \<Rightarrow> relay_msg_outer rd" where
  "decode_truncated_body cmd len streamid r =
     (if rd_remaining r < len then (Inl (InvalidMessage ''Insufficient data in relay cell''), r)
      else
        ebind (AnyRelayMsg_decode_from_reader cmd) (\<lambda>msg.
          eret \<lparr>ro_streamid = streamid, ro_msg = msg\<rparr>) (rd_truncate len r))"

definition decode_v0_from_reader :: "relay_msg_outer rd" where
  "decode_v0_from_reader =
     ebind rd_take_u8 (\<lambda>cmd.
     ebind (rd_advance 2) (\<lambda>_.
     ebind rd_take_u16 (\<lambda>sid.
     ebind (rd_advance 4) (\<lambda>_.
     ebind rd_take_u16 (\<lambda>len.
     decode_truncated_body cmd (unat len) (StreamId_new sid))))))"

definition decode_v1_from_reader :: "relay_msg_outer rd" where
  "decode_v1_from_reader =
     ebind (rd_advance 16) (\<lambda>_.
     ebind rd_take_u8 (\<lambda>cmd.
     ebind rd_take_u16 (\<lambda>len.
     ebind
       (case expects_streamid cmd (Some V1) of
          StreamWantNone \<Rightarrow> eret None
        | StreamWantSome \<Rightarrow>
            ebind rd_take_u16 (\<lambda>sid.
              case StreamId_new sid of
                None \<Rightarrow> efail (InvalidMessage ''Zero-valued stream ID with relay command'')
              | Some i \<Rightarrow> eret (Some i))
        | StreamUnrecognized \<Rightarrow> efail (InvalidMessage ''Unrecognized relay command'')
        | StreamAny \<Rightarrow> efail (InvalidMessage ''Unrecognized relay command'')) (\<lambda>streamid.
     decode_truncated_body cmd (unat len) streamid))))"

fun unparsed_decode :: "unparsed_relay_msg \<Rightarrow> bytes_error + relay_msg_outer" where
  "unparsed_decode (UnparsedV0 body) = fst (decode_v0_from_reader (from_slice body))"
| "unparsed_decode (UnparsedV1 body) = fst (decode_v1_from_reader (from_slice body))"

definition decode_singleton :: "RelayCellFormat \<Rightarrow> byte list \<Rightarrow> bytes_error + relay_msg_outer" where
  "decode_singleton version body =
     (case from_singleton_body version body of Inl e \<Rightarrow> Inl e | Inr u \<Rightarrow> unparsed_decode u)"

text \<open>The constants for the space a message has in a cell.\<close>

definition PAYLOAD_MAX_SIZE_V0 :: nat where
  "PAYLOAD_MAX_SIZE_V0 = BODY_MAX_LEN_V0 - (1 + 2 + 2 + 4 + 2)"

definition PAYLOAD_MAX_SIZE_V1_WITHOUT_STREAM_ID :: nat where
  "PAYLOAD_MAX_SIZE_V1_WITHOUT_STREAM_ID = BODY_MAX_LEN_V1 - (16 + 1 + 2)"

definition PAYLOAD_MAX_SIZE_V1_WITH_STREAM_ID :: nat where
  "PAYLOAD_MAX_SIZE_V1_WITH_STREAM_ID = BODY_MAX_LEN_V1 - (16 + 1 + 2 + 2)"

definition PAYLOAD_MAX_SIZE_ALL :: nat where
  "PAYLOAD_MAX_SIZE_ALL =
     min PAYLOAD_MAX_SIZE_V0
       (min PAYLOAD_MAX_SIZE_V1_WITH_STREAM_ID PAYLOAD_MAX_SIZE_V1_WITHOUT_STREAM_ID)"

definition PAYLOAD_MAX_SIZE_ANY :: nat where
  "PAYLOAD_MAX_SIZE_ANY =
     max PAYLOAD_MAX_SIZE_V0
       (max PAYLOAD_MAX_SIZE_V1_WITH_STREAM_ID PAYLOAD_MAX_SIZE_V1_WITHOUT_STREAM_ID)"

end
