(* ===== verification/RelayMsg_Laws.thy ===== *)
theory RelayMsg_Laws
  imports RelayCell
begin

text \<open>
  Laws of the relay messages. Every decoder keeps the contract \<open>body_readable\<close>, and every
  message that \<open>relay_msg_wf\<close> admits is read back from its encoding when the reader ends with
  the body. \<open>relay_msg_wf\<close> states what the encodings can express: lengths that fit their
  fields, and addresses that the text form of \<open>Begin\<close> and the binary form of \<open>Connected\<close>
  distinguish.
\<close>

section \<open>Decimal numbers\<close>

lemma parse_u16_dec: "parse_u16 (dec_of_nat (unat (p :: u16))) = Some p"
  using unat_u16_le [of p] by (simp add: parse_u16_def parse_uint_dec)

lemma utf8_valid_ascii: "is_ascii bs \<Longrightarrow> utf8_valid bs"
  by (induction bs rule: utf8_valid.induct) (simp_all add: is_ascii_def)

lemma is_ascii_dec: "is_ascii (dec_of_nat n)"
proof -
  have "b < 128" if "b \<in> set (dec_of_nat n)" for b
    using dec_of_nat_digits [OF that] by (auto simp: is_ascii_digit_def word_le_nat_alt word_less_nat_alt)
  then show ?thesis by (simp add: is_ascii_def list_all_iff)
qed

lemma no_nul_dec: "0 \<notin> set (dec_of_nat n)"
  using dec_of_nat_digits [of 0 n] by (auto simp: is_ascii_digit_def word_le_nat_alt)

section \<open>Bodies\<close>

lemma run_take_until:
  "tm \<notin> set xs \<Longrightarrow> rd_take_until tm (rdr pre (xs @ tm # t) c) = (Inr xs, rdr (pre @ xs @ [tm]) t c)"
proof -
  assume "tm \<notin> set xs"
  then have "position (\<lambda>b. b = tm) (xs @ tm # t) = Some (length xs)"
    by (auto simp: position_append position_eq_None split: option.splits
        dest: position_eq_None [THEN iffD1, rotated])
      (simp add: position_eq_Some, metis nth_mem)
  then show ?thesis by (simp add: rd_take_until_rdr)
qed

text \<open>
  The decoder returns \<open>x\<close> on a reader that ends with what the encoder \<open>e\<close> writes.
\<close>

definition reads_back :: "'a rd \<Rightarrow> enc \<Rightarrow> 'a \<Rightarrow> bool" where
  "reads_back dec e x \<longleftrightarrow>
     (\<exists>bs. encodes e bs \<and> (\<forall>pre c. fst (dec (rdr pre bs c)) = Inr x))"

lemma reads_backI:
  "snd e = Inr () \<Longrightarrow> (\<And>pre c. fst (dec (rdr pre (fst e) c)) = Inr x) \<Longrightarrow> reads_back dec e x"
  by (cases e) (auto simp: reads_back_def encodes_def)

lemma codec_reads_back: "codec p w valid \<Longrightarrow> valid x \<Longrightarrow> reads_back p (w x) x"
  using codec.roundtrip [of p w valid x] parses_run_end [of p _ x] by (fastforce simp: reads_back_def)

lemma relay_body_decode_reads_back:
  "reads_back dec e x \<Longrightarrow> reads_back (relay_body_decode con dec) e (con x)"
  unfolding reads_back_def relay_body_decode_def
  by (elim exE conjE, rule exI, rule conjI, assumption)
    (auto simp: ebind_def eret_def fst_def split: prod.splits sum.splits)

definition begin_wf :: "begin_msg \<Rightarrow> bool" where
  "begin_wf m \<longleftrightarrow>
     is_ascii (bg_addr m) \<and> BeginFlags_from (bg_flags m) = bg_flags m \<and>
     (if 0x3A \<in> set (bg_addr m) then 0x5D \<notin> set (bg_addr m)
      else \<not> (\<exists>t. bg_addr m = 0x5B # t))"

definition begin_addr_bytes :: "byte list \<Rightarrow> byte list" where
  "begin_addr_bytes addr = (if 0x3A \<in> set addr then [0x5B] @ addr @ [0x5D] else addr) @ [0x3A]"

lemma decode_begin_addr_ok:
  assumes "if 0x3A \<in> set addr then 0x5D \<notin> set addr else \<not> (\<exists>t. addr = 0x5B # t)"
  shows "decode_begin_addr (rdr pre (begin_addr_bytes addr @ t) c) =
    (Inr addr, rdr (pre @ begin_addr_bytes addr) t c)"
proof (cases "0x3A \<in> set addr")
  case True
  with assms show ?thesis
    by (simp add: decode_begin_addr_def begin_addr_bytes_def rd_peek_rdr ebind_def rd_advance_rdr
        run_take_until run_take_u8 eret_def)
next
  case False
  then have "take 1 (addr @ 0x3A # t) \<noteq> [0x5B]" using assms by (cases addr) auto
  with False show ?thesis
    by (simp add: decode_begin_addr_def begin_addr_bytes_def rd_peek_rdr run_take_until)
qed

lemma begin_roundtrip:
  assumes "begin_wf m"
  shows "reads_back decode_begin (encode_begin m) m"
proof -
  obtain addr port flags where m: "m = \<lparr>bg_addr = addr, bg_port = port, bg_flags = flags\<rparr>"
    by (cases m)
  let ?f = "if flags \<noteq> 0 then to_be_bytes flags else []"
  have enc: "encode_begin \<lparr>bg_addr = addr, bg_port = port, bg_flags = flags\<rparr> =
      (begin_addr_bytes addr @ dec_of_nat (unat port) @ 0 # ?f, Inr ())"
    by (simp add: encode_begin_def begin_addr_bytes_def wire_simps)
  have "if 0x3A \<in> set addr then 0x5D \<notin> set addr else \<not> (\<exists>t. addr = 0x5B # t)"
    and "is_ascii addr" "and flags 7 = flags"
    using assms by (auto simp: m begin_wf_def BeginFlags_from_def split: if_splits)
  then show ?thesis
    by (intro reads_backI) (simp_all add: enc decode_begin_def ebind_def decode_begin_addr_ok
        run_take_until no_nul_dec run_take_u utf8_valid_ascii is_ascii_dec parse_u16_dec eret_def
        BeginFlags_from_def m)
qed

lemma data_roundtrip: "body \<noteq> [] \<Longrightarrow> reads_back decode_data (encode_data body) body"
  by (rule reads_backI) (auto simp: wire_simps decode_data_def rd_take_rdr)

definition end_wf :: "end_msg \<Rightarrow> bool" where
  "end_wf m \<longleftrightarrow> (en_addr m = None \<or> en_reason m = END_EXITPOLICY)"

lemma run_take_ip:
  "rd_extract take_from_ipv4 (rdr pre (octets_v4 a @ t) c) = (Inr a, rdr (pre @ octets_v4 a) t c)"
  "rd_extract take_from_ipv6 (rdr pre (octets_v6 b @ t) c) = (Inr b, rdr (pre @ octets_v6 b) t c)"
  using parses_take_ip [THEN parses_rd_extract, THEN parses_run] by blast+

lemma end_roundtrip:
  assumes "end_wf m"
  shows "reads_back decode_end (encode_end m) m"
proof (cases "en_addr m")
  case None
  then show ?thesis
    by (cases m) (intro reads_backI, simp_all add: encode_end_def wire_simps decode_end_def run_simps)
next
  case (Some at)
  then obtain addr ttl where "at = (addr, ttl)" "en_reason m = END_EXITPOLICY"
    using assms by (cases at) (auto simp: end_wf_def)
  with Some show ?thesis
    by (cases m; cases addr; intro reads_backI)
      (simp_all add: encode_end_def wire_simps decode_end_def run_simps run_take_ip)
qed

definition connected_wf :: "(ip_addr \<times> u32) option \<Rightarrow> bool" where
  "connected_wf m \<longleftrightarrow> (case m of Some (V4 a, _) \<Rightarrow> a \<noteq> 0 | _ \<Rightarrow> True)"

lemma run_take_u32_octets:
  "rd_take_u32 (rdr pre (octets_v4 a @ t) c) = (Inr a, rdr (pre @ octets_v4 a) t c)"
  by (simp add: octets_v4_def run_take_u)

lemma connected_roundtrip:
  assumes "connected_wf m"
  shows "reads_back decode_connected (encode_connected m) m"
proof (cases m)
  case None
  then show ?thesis
    by (intro reads_backI) (simp_all add: encode_connected_def wire_simps decode_connected_def eret_def)
next
  case (Some at)
  obtain addr ttl where "at = (addr, ttl)" by (cases at)
  with Some assms show ?thesis
    by (cases addr; intro reads_backI)
      (simp_all add: encode_connected_def wire_simps decode_connected_def run_simps run_take_ip
        run_take_u32_octets connected_wf_def)
qed

text \<open>A tag is one of the two that \<open>From\<close> makes, so it is 16 or 20 bytes.\<close>

definition sendme_tag_wf :: "sendme_tag \<Rightarrow> bool" where
  "sendme_tag_wf t \<longleftrightarrow>
     (st_len t = 16 \<or> st_len t = 20) \<and> length (st_tag t) = 20 \<and>
     drop (st_len t) (st_tag t) = replicate (20 - st_len t) 0"

lemma SendmeTag_try_from_as_ref:
  assumes "sendme_tag_wf t"
  shows "SendmeTag_try_from (SendmeTag_as_ref t) = Some t"
    and "length (SendmeTag_as_ref t) = st_len t"
proof -
  show len: "length (SendmeTag_as_ref t) = st_len t"
    using assms by (auto simp: sendme_tag_wf_def SendmeTag_as_ref_def)
  have "st_tag t = take (st_len t) (st_tag t) @ replicate (20 - st_len t) 0"
    using assms append_take_drop_id [of "st_len t" "st_tag t"] by (simp add: sendme_tag_wf_def)
  with assms len show "SendmeTag_try_from (SendmeTag_as_ref t) = Some t"
    by (cases t) (auto simp: SendmeTag_try_from_def SendmeTag_from16_def SendmeTag_from20_def
        sendme_tag_wf_def SendmeTag_as_ref_def drop_replicate)
qed

lemma sendme_roundtrip:
  assumes "pred_option sendme_tag_wf m"
  shows "reads_back decode_sendme (encode_sendme m) m"
proof (cases m)
  case None
  then show ?thesis
    by (intro reads_backI) (simp_all add: encode_sendme_def wire_simps decode_sendme_def eret_def)
next
  case (Some t)
  with assms have t: "sendme_tag_wf t" by simp
  then have len: "length (SendmeTag_as_ref t) < 65536"
    using SendmeTag_try_from_as_ref(2) [OF t] by (auto simp: sendme_tag_wf_def)
  have enc: "encode_sendme (Some t) = (1 # to_be_bytes (word_of_nat (length (SendmeTag_as_ref t)) :: u16) @ SendmeTag_as_ref t, Inr ())"
    using len by (simp add: encode_sendme_def wire_simps)
  show ?thesis
    using len Some by (intro reads_backI)
      (simp_all add: enc decode_sendme_def run_simps SendmeTag_try_from_as_ref(1) [OF t])
qed

subsection \<open>Bodies that delimit themselves\<close>

interpretation extend_codec: codec decode_extend encode_extend
    "\<lambda>m. length (ex_handshake m) = TAP_C_HANDSHAKE_LEN \<and> length (ex_rsaid m) = 20"
  by (rule codecI; unfold decode_extend_def)
    (intro contract_rules, auto simp: encode_extend_def encodes_def wire_simps parses_def run_simps
      run_take_ip rd_extract_def [of "rd_take 20"])

interpretation extended_codec: codec decode_extended encode_extended
    "\<lambda>h. length h = TAP_S_HANDSHAKE_LEN"
  by (rule codecI; unfold decode_extended_def)
    (intro contract_rules, auto simp: encodes_def wire_simps parses_def run_simps)

interpretation extended2_codec: codec decode_extended2 encode_extended2 "\<lambda>h. length h < 65536"
  by (rule codecI; unfold decode_extended2_def)
    (intro contract_rules, auto simp: encode_extended2_def encodes_def wire_simps parses_def run_simps)

interpretation truncated_codec: codec decode_truncated encode_truncated "\<lambda>_. True"
  by (rule codecI; unfold decode_truncated_def)
    (intro contract_rules, auto simp: encodes_def wire_simps parses_def run_simps)

interpretation resolve_codec: codec decode_resolve encode_resolve "\<lambda>q. 0 \<notin> set q"
  by (rule codecI; unfold decode_resolve_def)
    (intro contract_rules, auto simp: encode_resolve_def encodes_def wire_simps parses_def run_simps
      run_take_until)

interpretation switch_codec: codec decode_switch encode_switch "\<lambda>_. True"
  by (rule codecI; unfold decode_switch_def)
    (intro contract_rules, auto simp: encodes_def wire_simps parses_def run_simps)

interpretation xoff_codec: codec decode_xoff encode_xoff "\<lambda>v. v = 0"
  by (rule codecI; unfold decode_xoff_def)
    (intro contract_rules, auto simp: encodes_def wire_simps parses_def run_simps FlowCtrlVersion_new_def)

definition xon_wf :: "xon \<Rightarrow> bool" where
  "xon_wf m \<longleftrightarrow> xon_version m = 0 \<and> xon_kbps_ewma m \<noteq> Limited 0"

lemma XonKbpsEwma_roundtrip: "k \<noteq> Limited 0 \<Longrightarrow> XonKbpsEwma_decode (XonKbpsEwma_encode k) = k"
  by (cases k) (auto simp: XonKbpsEwma_decode_def)

interpretation xon_codec: codec decode_xon encode_xon xon_wf
  by (rule codecI; unfold decode_xon_def)
    (intro contract_rules, auto simp: encode_xon_def encodes_def wire_simps parses_def run_simps
      FlowCtrlVersion_new_def xon_wf_def XonKbpsEwma_roundtrip)

interpretation link_payload_codec: codec decode_v1_link_payload encode_v1_link_payload
    "\<lambda>p. length (lp_nonce p) = V1_LINK_NONCE_LEN"
  by (rule codecI; unfold decode_v1_link_payload_def)
    (intro contract_rules, auto simp: encode_v1_link_payload_def encodes_def wire_simps parses_def
      run_simps rd_extract_def)

definition link_wf :: "conflux_link \<Rightarrow> bool" where
  "link_wf m \<longleftrightarrow> cl_version m = CONFLUX_LINK_VERSION \<and> length (lp_nonce (cl_payload m)) = V1_LINK_NONCE_LEN"

interpretation link_codec: codec decode_link encode_link link_wf
proof (rule codecI)
  show "readable decode_link"
    unfolding decode_link_def by (intro contract_rules link_payload_codec.readable_axioms)
  fix m
  assume "link_wf m"
  then obtain bs where bs: "encode_v1_link_payload (cl_payload m) = (bs, Inr ())"
    "parses decode_v1_link_payload bs (cl_payload m)"
    using link_payload_codec.roundtrip [of "cl_payload m"] by (auto simp: encodes_def link_wf_def)
  with \<open>link_wf m\<close> show "\<exists>bs. encodes (encode_link m) bs \<and> parses decode_link bs m"
    by (cases m) (auto simp: encode_link_def decode_link_def encodes_def wire_simps parses_def run_simps
        link_wf_def)
qed

interpretation link_spec_codec: codec take_from_link_spec write_onto_link_spec
    "\<lambda>m. length (ls_body m) < 256"
proof (rule codecI)
  show "readable take_from_link_spec"
    unfolding take_from_link_spec_def by (intro contract_rules)
  fix m :: encoded_link_spec
  assume *: "length (ls_body m) < 256"
  let ?l = "word_of_nat (length (ls_body m)) :: u8"
  have "write_onto_link_spec m = (ls_lstype m # ?l # ls_body m, Inr ())"
    using * by (simp add: write_onto_link_spec_def write_nested_u8len_def write_nested_finish_ok wire_simps)
  moreover have "parses (rd_read_nested_u8len
      (ebind rd_take_rest (\<lambda>body. eret \<lparr>ls_lstype = ls_lstype m, ls_body = body\<rparr>))) ([?l] @ ls_body m) m"
    unfolding rd_read_nested_u8len_def
    by (rule parses_read_nested [OF parses_rd_take_u8])
      (use * in \<open>simp_all add: parses_all_def run_simps\<close>)
  then have "parses take_from_link_spec ([ls_lstype m] @ [?l] @ ls_body m) m"
    unfolding take_from_link_spec_def by (intro parses_bind [OF parses_rd_take_u8])
  ultimately show "\<exists>bs. encodes (write_onto_link_spec m) bs \<and> parses take_from_link_spec bs m"
    by (auto simp: encodes_def)
qed

definition extend2_wf :: "extend2_msg \<Rightarrow> bool" where
  "extend2_wf m \<longleftrightarrow>
     length (e2_linkspec m) < 256 \<and> (\<forall>l\<in>set (e2_linkspec m). length (ls_body l) < 256) \<and>
     length (e2_handshake m) < 65536"

interpretation extend2_codec: codec decode_extend2 encode_extend2 extend2_wf
proof (rule codecI)
  show "readable decode_extend2"
    unfolding decode_extend2_def by (intro contract_rules link_spec_codec.readable_axioms)
  fix m
  assume wf: "extend2_wf m"
  let ?g = "\<lambda>l. fst (write_onto_link_spec l)"
  have l: "write_onto_link_spec l = (?g l, Inr ())" "parses take_from_link_spec (?g l) l"
    if "l \<in> set (e2_linkspec m)" for l
    using link_spec_codec.write_parses [of l "?g l" "snd (write_onto_link_spec l)"] that wf
    by (auto simp: extend2_wf_def prod_eq_iff)
  have "wconcat (map write_onto_link_spec (e2_linkspec m)) = (concat (map ?g (e2_linkspec m)), Inr ())"
    by (rule wconcat_map) (rule l(1))
  moreover have "parses (ereplicate (length (e2_linkspec m)) take_from_link_spec)
      (concat (map ?g (e2_linkspec m))) (e2_linkspec m)"
    using parses_list [of "e2_linkspec m" take_from_link_spec ?g id] l(2) by simp
  ultimately show "\<exists>bs. encodes (encode_extend2 m) bs \<and> parses decode_extend2 bs m"
    using wf by (cases m) (auto simp: encode_extend2_def decode_extend2_def encodes_def wire_simps
        parses_def run_simps extend2_wf_def rd_extract_n_eq rd_extract_def)
qed

subsection \<open>Resolved\<close>

fun resolved_val_wf :: "resolved_val \<Rightarrow> bool" where
  "resolved_val_wf (Hostname h) = (length h < 256)"
| "resolved_val_wf (UnrecognizedVal tp v) =
     (length v < 256 \<and> tp \<notin> {RES_HOSTNAME, RES_IPV4, RES_IPV6, RES_ERR_TRANSIENT, RES_ERR_NONTRANSIENT})"
| "resolved_val_wf _ = True"

lemma resolved_val_roundtrip:
  assumes "resolved_val_wf v"
  shows "\<exists>bs. encodes (write_onto_resolved_val v) bs \<and> parses take_from_resolved_val bs v"
proof (cases v)
  case (Ip a)
  then show ?thesis
    by (cases a) (auto simp: encodes_def wire_simps parses_def take_from_resolved_val_def run_simps
        res_len_def run_take_ip)
next
  case (UnrecognizedVal tp x)
  with assms show ?thesis
    by (auto simp: encodes_def wire_simps parses_def take_from_resolved_val_def run_simps res_len_def)
qed (use assms in \<open>auto simp: encodes_def wire_simps parses_def take_from_resolved_val_def run_simps
    res_len_def rd_advance_rdr\<close>)

interpretation resolved_val_codec: codec take_from_resolved_val write_onto_resolved_val resolved_val_wf
  by (rule codecI) (rule contract_rules, rule resolved_val_roundtrip)

interpretation answer_codec: codec take_from_answer
    "\<lambda>(rv, ttl). wconcat [write_onto_resolved_val rv, write_u32 ttl]" "\<lambda>(rv, _). resolved_val_wf rv"
proof (rule codecI)
  show "readable take_from_answer" by (rule contract_rules)
  fix x :: "resolved_val \<times> u32"
  assume "case x of (rv, _) \<Rightarrow> resolved_val_wf rv"
  then obtain rv ttl bs where "x = (rv, ttl)" "write_onto_resolved_val rv = (bs, Inr ())"
    "parses take_from_resolved_val bs rv"
    using resolved_val_roundtrip [of "fst x"] by (cases x) (auto simp: encodes_def)
  then show "\<exists>bs. encodes (case x of (rv, ttl) \<Rightarrow> wconcat [write_onto_resolved_val rv, write_u32 ttl]) bs \<and>
      parses take_from_answer bs x"
    by (auto simp: encodes_def wire_simps take_from_answer_def parses_def run_simps rd_extract_def)
qed

lemma resolved_loop_ok:
  assumes "list_all2 (parses take_from_answer) bss xs" "\<forall>bs\<in>set bss. bs \<noteq> []"
  shows "resolved_loop acc (rdr pre (concat bss) c) = (Inr (acc @ xs), rdr (pre @ concat bss) [] c)"
  using assms
proof (induction bss xs arbitrary: acc pre rule: list_all2_induct)
  case Nil
  show ?case by (simp add: resolved_loop.simps)
next
  case (Cons bs bss x xs)
  then have "0 < rd_remaining (rdr pre (bs @ concat bss) c)" by simp
  with Cons show ?case
    using Cons.IH [of "acc @ [x]" "pre @ bs"]
    by (subst resolved_loop.simps) (simp add: parses_run [OF Cons.hyps(1)])
qed

lemma resolved_roundtrip:
  assumes "\<forall>a\<in>set answers. resolved_val_wf (fst a)"
  shows "reads_back decode_resolved (encode_resolved answers) answers"
proof -
  let ?f = "\<lambda>(rv, ttl). wconcat [write_onto_resolved_val rv, write_u32 ttl]"
  let ?g = "\<lambda>a. fst (?f a)"
  have a: "?f a = (?g a, Inr ())" "parses take_from_answer (?g a) a" if "a \<in> set answers" for a
    using answer_codec.write_parses [of a "?g a" "snd (?f a)"] that assms
    by (auto simp: case_prod_beta prod_eq_iff)
  have enc: "encode_resolved answers = (concat (map ?g answers), Inr ())"
    unfolding encode_resolved_def by (rule wconcat_map) (rule a(1))
  have "?g a \<noteq> []" if "a \<in> set answers" for a
  proof
    assume "?g a = []"
    with a(2) [OF that] have "fst (take_from_answer (rdr [] [] PossiblyIncomplete)) = Inr a"
      by (simp add: parses_def)
    then show False
      by (simp add: take_from_answer_def take_from_resolved_val_def ebind_def rd_extract_def
          rd_take_u8_def rd_take_rdr)
  qed
  moreover have "list_all2 (parses take_from_answer) (map ?g answers) answers"
    using a(2) by (auto simp: list_all2_conv_all_nth)
  ultimately have "resolved_loop [] (rdr pre (concat (map ?g answers)) c) =
      (Inr answers, rdr (pre @ concat (map ?g answers)) [] c)" for pre c
    using resolved_loop_ok [of "map ?g answers" answers "[]"] by auto
  with enc show ?thesis
    by (intro reads_backI) (simp_all add: decode_resolved_def)
qed

lemma relay_decode_with_cmd_rdr:
  "relay_decode_with_cmd cmd (rdr pre s c) = (Inr \<lparr>ru_cmd = cmd, ru_body = s\<rparr>, rdr (pre @ s) [] c)"
  by (simp add: relay_decode_with_cmd_def decode_relay_unrecognized_def run_simps)

section \<open>Any message\<close>

definition known_relay_cmds :: "RelayCmd list" where
  "known_relay_cmds =
     [RC_BEGIN, RC_DATA, RC_END, RC_CONNECTED, RC_SENDME, RC_EXTEND, RC_EXTENDED, RC_EXTEND2,
      RC_EXTENDED2, RC_TRUNCATE, RC_TRUNCATED, RC_DROP, RC_RESOLVE, RC_RESOLVED, RC_BEGIN_DIR,
      RC_CONFLUX_LINK, RC_CONFLUX_LINKED, RC_CONFLUX_LINKED_ACK, RC_CONFLUX_SWITCH, RC_XON, RC_XOFF]"

fun relay_msg_wf :: "any_relay_msg \<Rightarrow> bool" where
  "relay_msg_wf (RBegin m) = begin_wf m"
| "relay_msg_wf (RData m) = (m \<noteq> [])"
| "relay_msg_wf (REnd m) = end_wf m"
| "relay_msg_wf (RConnected m) = connected_wf m"
| "relay_msg_wf (RSendme m) = pred_option sendme_tag_wf m"
| "relay_msg_wf (RExtend m) =
     (length (ex_handshake m) = TAP_C_HANDSHAKE_LEN \<and> length (ex_rsaid m) = 20)"
| "relay_msg_wf (RExtended m) = (length m = TAP_S_HANDSHAKE_LEN)"
| "relay_msg_wf (RExtend2 m) = extend2_wf m"
| "relay_msg_wf (RExtended2 m) = (length m < 65536)"
| "relay_msg_wf (RResolve m) = (0 \<notin> set m)"
| "relay_msg_wf (RResolved m) = (\<forall>a\<in>set m. resolved_val_wf (fst a))"
| "relay_msg_wf (RConfluxLink m) = link_wf m"
| "relay_msg_wf (RConfluxLinked m) = link_wf m"
| "relay_msg_wf (RXon m) = xon_wf m"
| "relay_msg_wf (RXoff m) = (m = 0)"
| "relay_msg_wf (RUnrecognized m) = (ru_cmd m \<notin> set known_relay_cmds)"
| "relay_msg_wf _ = True"

lemma empty_body_roundtrip:
  "reads_back (relay_body_decode (\<lambda>_. k) decode_empty_body) encode_empty_body k"
  by (rule reads_backI) (simp_all add: wire_simps relay_body_decode_def decode_empty_body_def eret_def)

lemma unrecognized_roundtrip:
  "ru_cmd m = cmd \<Longrightarrow> reads_back (relay_decode_with_cmd cmd) (encode_relay_unrecognized m) m"
  by (rule reads_backI) (auto simp: wire_simps relay_decode_with_cmd_rdr)

lemmas relay_reads_back = relay_body_decode_reads_back [OF begin_roundtrip]
  relay_body_decode_reads_back [OF data_roundtrip] relay_body_decode_reads_back [OF end_roundtrip]
  relay_body_decode_reads_back [OF connected_roundtrip] relay_body_decode_reads_back [OF sendme_roundtrip]
  relay_body_decode_reads_back [OF resolved_roundtrip] empty_body_roundtrip
  relay_body_decode_reads_back [OF unrecognized_roundtrip]
  relay_body_decode_reads_back [OF codec_reads_back [OF extend_codec.codec_axioms]]
  relay_body_decode_reads_back [OF codec_reads_back [OF extended_codec.codec_axioms]]
  relay_body_decode_reads_back [OF codec_reads_back [OF extend2_codec.codec_axioms]]
  relay_body_decode_reads_back [OF codec_reads_back [OF extended2_codec.codec_axioms]]
  relay_body_decode_reads_back [OF codec_reads_back [OF truncated_codec.codec_axioms]]
  relay_body_decode_reads_back [OF codec_reads_back [OF resolve_codec.codec_axioms]]
  relay_body_decode_reads_back [OF codec_reads_back [OF link_codec.codec_axioms]]
  relay_body_decode_reads_back [OF codec_reads_back [OF switch_codec.codec_axioms]]
  relay_body_decode_reads_back [OF codec_reads_back [OF xon_codec.codec_axioms]]
  relay_body_decode_reads_back [OF codec_reads_back [OF xoff_codec.codec_axioms]]

lemma relay_msg_reads_back:
  "relay_msg_wf m \<Longrightarrow>
     reads_back (AnyRelayMsg_decode_from_reader (AnyRelayMsg_cmd m)) (AnyRelayMsg_encode_onto m) m"
  by (cases m; simp add: AnyRelayMsg_decode_from_reader_def known_relay_cmds_def relay_reads_back)

subsection \<open>The contract of every decoder\<close>

lemma body_readable_decode_begin_addr [contract_rules]: "body_readable decode_begin_addr"
proof (subst body_readable_cong)
  let ?p = "ebind (rd_advance 1) (\<lambda>_. ebind (rd_take_until 0x5D) (\<lambda>a. ebind rd_take_u8 (\<lambda>colon.
     if colon \<noteq> 0x3A then efail (InvalidMessage ''missing port in begin cell'') else eret a)))"
  let ?q = "\<lambda>r. case rd_peek 1 r of Inl e \<Rightarrow> (Inl e, r) | Inr b \<Rightarrow> if b = [0x5B] then ?p r else rd_take_until 0x3A r"
  show "decode_begin_addr (rdr pre s c) = ?q (rdr pre s c)" for pre s c
    by (simp add: decode_begin_addr_def)
  have p: "body_readable ?p" and q: "body_readable (rd_take_until 0x3A)" by (intro contract_rules)+
  show "body_readable ?q"
  proof
    fix s pre c d
    show "\<exists>u v. s = u @ v \<and> snd (?q (rdr pre s c)) = rdr (pre @ u) v c"
      using body_readable.frame [OF p] body_readable.frame [OF q] by (simp add: rd_peek_rdr)
    show "fst (?q (rdr pre s c)) \<noteq> Inl Panic"
      using body_readable.no_panic [OF p] body_readable.no_panic [OF q]
      by (cases c) (simp_all add: rd_peek_rdr)
    show "fst (?q (rdr pre s SupposedlyComplete)) \<noteq> Inl (Incomplete d)"
      using body_readable.complete [OF p] body_readable.complete [OF q] by (simp add: rd_peek_rdr)
  qed
qed

lemma body_readable_relay_bodies [contract_rules]:
  "body_readable decode_data" "body_readable decode_sendme" "body_readable decode_connected"
  "body_readable decode_end" "body_readable decode_begin" "body_readable decode_relay_unrecognized"
  unfolding decode_data_def decode_sendme_def decode_connected_def decode_end_def decode_begin_def
    decode_relay_unrecognized_def
  by (intro contract_rules)+

lemma body_readable_decode_resolved [contract_rules]: "body_readable decode_resolved"
  unfolding decode_resolved_def
proof (rule body_readable_loop [where p = take_from_answer and loop = resolved_loop])
  show "resolved_loop acc (rdr pre s c) =
      ebind take_from_answer (\<lambda>v. resolved_loop (acc @ [v])) (rdr pre s c)" if "s \<noteq> []" for acc pre s c
    using that by (subst resolved_loop.simps) (simp add: ebind_def)
  show "resolved_loop acc (rdr pre [] c) = (Inr acc, rdr pre [] c)" for acc pre c
    by (simp add: resolved_loop.simps)
  show "body_readable take_from_answer" by (rule readable_body) (rule contract_rules)
  show "length v < length s" if "s \<noteq> []" "take_from_answer (rdr pre s c) = (Inr x, rdr (pre @ u) v c)"
    for s pre c x u v
    using take_from_answer_decreases [of "rdr pre s c"] that by simp
qed

lemma readable_relay_bodies:
  "readable decode_extend" "readable decode_extended" "readable decode_extend2"
  "readable decode_extended2" "readable decode_truncated" "readable decode_resolve"
  "readable decode_link" "readable decode_switch" "readable decode_xon" "readable decode_xoff"
  "readable decode_empty_body"
  by (rule extend_codec.readable_axioms extended_codec.readable_axioms
      extend2_codec.readable_axioms extended2_codec.readable_axioms truncated_codec.readable_axioms
      resolve_codec.readable_axioms link_codec.readable_axioms switch_codec.readable_axioms
      xon_codec.readable_axioms xoff_codec.readable_axioms)+
    (simp add: decode_empty_body_def contract_rules)

lemmas body_readable_relay_codecs [contract_rules] = readable_relay_bodies [THEN readable_body]

lemma body_readable_relay_body_decode [contract_rules]:
  "body_readable p \<Longrightarrow> body_readable (relay_body_decode con p)"
  unfolding relay_body_decode_def by (intro contract_rules)

lemma body_readable_relay_decode_with_cmd [contract_rules]: "body_readable (relay_decode_with_cmd cmd)"
  unfolding relay_decode_with_cmd_def by (intro contract_rules)

lemma body_readable_AnyRelayMsg [contract_rules]: "body_readable (AnyRelayMsg_decode_from_reader cmd)"
  unfolding AnyRelayMsg_decode_from_reader_def by (intro contract_rules)

interpretation any_relay_msg: body_readable "AnyRelayMsg_decode_from_reader cmd" for cmd
  by (rule contract_rules)

end
