(* ===== verification/RelayCell_Laws.thy ===== *)
theory RelayCell_Laws
  imports RelayMsg_Laws
begin

text \<open>
  Laws of relay cells: what the slice writer holds, what the two encoders write, and that the
  decoders read it back whatever random padding follows.
\<close>

section \<open>The slice writer\<close>

definition sw_state :: "byte list \<Rightarrow> byte list \<Rightarrow> slice_writer" where
  "sw_state done rest = \<lparr>sw_data = done @ rest, sw_offset = length done\<rparr>"

lemma USIZE_MAX_big: "n \<le> 65535 \<Longrightarrow> n < USIZE_MAX"
  by (simp add: USIZE_MAX_def)

lemma sw_write_all_fits:
  assumes "length b \<le> length rest" "length (done @ rest) < USIZE_MAX"
  shows "sw_write_all b (sw_state done rest) = sw_state (done @ b) (drop (length b) rest)"
  using assms by (simp add: sw_write_all_def sw_state_def saturating_add_usize_def Let_def)

lemma sw_write_all_overflow:
  assumes "length rest < length b" "length (done @ rest) < USIZE_MAX"
  shows "sw_write_all b (sw_state done rest) = \<lparr>sw_data = done @ rest, sw_offset = USIZE_MAX\<rparr>"
  using assms by (auto simp: sw_write_all_def sw_state_def saturating_add_usize_def Let_def)

lemma sw_write_all_poisoned:
  "sw_offset w = USIZE_MAX \<Longrightarrow> length (sw_data w) < USIZE_MAX \<Longrightarrow> sw_write_all b w = w"
  by (simp add: sw_write_all_def saturating_add_usize_def Let_def)

lemma sw_advance_fits:
  assumes "n \<le> length rest" "length (done @ rest) < USIZE_MAX"
  shows "sw_advance n (sw_state done rest) = sw_state (done @ take n rest) (drop n rest)"
  using assms by (simp add: sw_advance_def sw_state_def saturating_add_usize_def Let_def)

lemma sw_try_unwrap_state:
  "length (done @ rest) < USIZE_MAX \<Longrightarrow> sw_try_unwrap (sw_state done rest) = Some (done @ rest, length done)"
  by (simp add: sw_try_unwrap_def sw_offset_res_def sw_state_def)

text \<open>
  Several writes in a row give what one write of all their bytes gives, the overflow included;
  so the bytes of an encoder can be handed over at once (\<open>sw_write\<close>).
\<close>

lemma sw_write_all_append:
  assumes "length (done @ rest) < USIZE_MAX"
  shows "sw_try_unwrap (sw_write_all b (sw_write_all a (sw_state done rest))) =
    sw_try_unwrap (sw_write_all (a @ b) (sw_state done rest))"
proof (cases "length (a @ b) \<le> length rest")
  case True
  with assms show ?thesis by (simp add: sw_write_all_fits add.commute)
next
  case False
  show ?thesis
  proof (cases "length a \<le> length rest")
    case True
    with False assms show ?thesis
      by (simp add: sw_write_all_fits sw_write_all_overflow sw_try_unwrap_def sw_offset_res_def)
  next
    case False
    with assms show ?thesis
      by (simp add: sw_write_all_overflow sw_write_all_poisoned sw_try_unwrap_def sw_offset_res_def)
  qed
qed

section \<open>What the encoders write\<close>

definition v0_bytes :: "RelayCmd \<Rightarrow> u16 \<Rightarrow> byte list \<Rightarrow> byte list" where
  "v0_bytes cmd sid bs =
     cmd # to_be_bytes (0 :: u16) @ to_be_bytes sid @ to_be_bytes (0 :: u32) @
     to_be_bytes (word_of_nat (length bs) :: u16) @ bs"

definition v1_bytes :: "RelayCmd \<Rightarrow> stream_id option \<Rightarrow> byte list \<Rightarrow> byte list" where
  "v1_bytes cmd sid bs =
     replicate 16 0 @ cmd # to_be_bytes (word_of_nat (length bs) :: u16) @
     (case sid of None \<Rightarrow> [] | Some i \<Rightarrow> to_be_bytes i) @ bs"

lemma sw_write_state:
  assumes "length (done @ rest) < USIZE_MAX"
  shows "(case sw_write (bs, Inr ()) (sw_state done rest) of
       (Inl e, _) \<Rightarrow> Inl e
     | (Inr _, w) \<Rightarrow> (case sw_try_unwrap w of None \<Rightarrow> Inl x | Some (body, written) \<Rightarrow> f body written)) =
    (if length bs \<le> length rest then f (done @ bs @ drop (length bs) rest) (length (done @ bs)) else Inl x)"
proof (cases "length bs \<le> length rest")
  case True
  with assms show ?thesis by (simp add: sw_write_def sw_write_all_fits sw_try_unwrap_state)
next
  case False
  with assms show ?thesis
    by (simp add: sw_write_def sw_write_all_overflow sw_try_unwrap_def sw_offset_res_def)
qed

lemma encode_to_cell_v0_eq:
  assumes "AnyRelayMsg_encode_onto (ro_msg m) = (bs, Inr ())"
  shows "encode_to_cell_v0 m =
    (if length bs \<le> 498
     then Inr (v0_bytes (AnyRelayMsg_cmd (ro_msg m)) (StreamId_get_or_zero (ro_streamid m)) bs @
            replicate (498 - length bs) 0, 11 + length bs)
     else Inl (EncBug ''Encoding of relay message was too long to fit into a cell!''))"
proof -
  let ?cmd = "AnyRelayMsg_cmd (ro_msg m)" and ?sid = "StreamId_get_or_zero (ro_streamid m)"
  let ?hd = "?cmd # to_be_bytes (0 :: u16) @ to_be_bytes ?sid @ to_be_bytes (0 :: u32)"
  let ?h = "?hd @ to_be_bytes (0 :: u16)"
  have "SliceWriter_new (replicate 509 0) = sw_state [] (replicate 509 0)"
    by (simp add: SliceWriter_new_def sw_state_def)
  then have w: "sw_write_all (to_be_bytes (0 :: u16)) (sw_write_all (to_be_bytes (0 :: u32))
      (sw_write_all (to_be_bytes ?sid) (sw_write_all (to_be_bytes (0 :: u16))
      (sw_write_all [?cmd] (SliceWriter_new (replicate BODY_MAX_LEN_V0 0)))))) =
      sw_state ?h (replicate 498 0)"
    by (simp add: sw_write_all_fits USIZE_MAX_big drop_replicate)
  have "set_slice2 9 (to_be_bytes (w :: u16)) (?h @ bs @ t) = ?hd @ to_be_bytes w @ bs @ t" for w t
    using set_slice2_append [of "to_be_bytes (0 :: u16)" ?hd "to_be_bytes w" "bs @ t"] by simp
  moreover have "length (?h @ replicate 498 (0 :: byte)) < USIZE_MAX" by (simp add: USIZE_MAX_big)
  ultimately show ?thesis
    unfolding encode_to_cell_v0_def Let_def assms w
    by (subst sw_write_state) (simp_all add: v0_bytes_def drop_replicate)
qed

text \<open>Which stream identifiers the second format can carry for a command.\<close>

definition v1_sid_ok :: "RelayCmd \<Rightarrow> stream_id option \<Rightarrow> bool" where
  "v1_sid_ok cmd sid \<longleftrightarrow>
     (case expects_streamid cmd (Some V1) of
        StreamWantNone \<Rightarrow> sid = None
      | StreamWantSome \<Rightarrow> sid \<noteq> None
      | _ \<Rightarrow> False)"

definition v1_room :: "stream_id option \<Rightarrow> nat" where
  "v1_room sid = (case sid of None \<Rightarrow> 490 | Some _ \<Rightarrow> 488)"

lemma v1_writer_eq:
  "(case (expects_streamid cmd (Some V1), sid) of
      (StreamWantNone, None) \<Rightarrow> Some (w, a)
    | (StreamWantSome, Some i) \<Rightarrow> Some (sw_write_all (to_be_bytes i) w, a + 2)
    | _ \<Rightarrow> None) =
   (if v1_sid_ok cmd sid
    then Some (case sid of None \<Rightarrow> (w, a) | Some i \<Rightarrow> (sw_write_all (to_be_bytes i) w, a + 2 :: nat)) else None)"
  by (auto simp: v1_sid_ok_def split: StreamIdReq.splits option.splits)

lemma encode_to_cell_v1_eq:
  assumes "AnyRelayMsg_encode_onto (ro_msg m) = (bs, Inr ())"
  shows "encode_to_cell_v1 m =
    (if \<not> v1_sid_ok (AnyRelayMsg_cmd (ro_msg m)) (ro_streamid m)
     then Inl (EncBug ''Tried to encode invalid stream ID'')
     else if length bs \<le> v1_room (ro_streamid m)
     then Inr (v1_bytes (AnyRelayMsg_cmd (ro_msg m)) (ro_streamid m) bs @
            replicate (v1_room (ro_streamid m) - length bs) 0, 509 - v1_room (ro_streamid m) + length bs)
     else Inl (EncBug ''Encoding of relay message was too long to fit into a cell!''))"
proof -
  let ?cmd = "AnyRelayMsg_cmd (ro_msg m)" and ?sid = "ro_streamid m"
  let ?hd = "replicate 16 0 @ [?cmd]"
  let ?sb = "case ?sid of None \<Rightarrow> [] | Some i \<Rightarrow> to_be_bytes i"
  let ?h = "?hd @ replicate 2 0 @ ?sb"
  have "SliceWriter_new (replicate 509 0) = sw_state [] (replicate 509 0)"
    by (simp add: SliceWriter_new_def sw_state_def)
  then have w3: "sw_advance 2 (sw_write_all [?cmd] (sw_advance 16 (SliceWriter_new (replicate BODY_MAX_LEN_V1 0)))) =
      sw_state (?hd @ replicate 2 0) (replicate 490 0)"
    by (simp add: sw_write_all_fits sw_advance_fits USIZE_MAX_big drop_replicate)
  have w4: "(case ?sid of None \<Rightarrow> (sw_state (?hd @ replicate 2 0) (replicate 490 0), a)
      | Some i \<Rightarrow> (sw_write_all (to_be_bytes i) (sw_state (?hd @ replicate 2 0) (replicate 490 0)), a + 2)) =
      (sw_state ?h (replicate (v1_room ?sid) 0), a + length ?sb)" for a :: nat
    by (simp add: v1_room_def sw_write_all_fits USIZE_MAX_big drop_replicate split: option.splits)
  have "set_slice2 17 (to_be_bytes (w :: u16)) (?h @ bs @ t) = ?hd @ to_be_bytes w @ ?sb @ bs @ t" for w t
    using set_slice2_append [of "replicate 2 0" ?hd "to_be_bytes w" "?sb @ bs @ t"] by simp
  moreover have "length (?h @ replicate (v1_room ?sid) (0 :: byte)) < USIZE_MAX"
    by (simp add: USIZE_MAX_big v1_room_def split: option.splits)
  moreover have "16 + 1 + 2 + 2 = (16 + 1 + 2) + (2 :: nat)" by simp
  ultimately show ?thesis
    unfolding encode_to_cell_v1_def Let_def assms w3
    by (simp only: v1_writer_eq w4 if_True if_False not_not split: if_split)
      (auto simp: sw_write_state v1_bytes_def v1_room_def split: option.splits)
qed

section \<open>What the decoders read\<close>

lemma rd_truncate_rdr [simp]: "rd_truncate n (rdr pre s c) = rdr pre (take n s) c"
  by (auto simp: rd_truncate_def)

lemma run_advance: "n = length bs \<Longrightarrow> rd_advance n (rdr pre (bs @ t) c) = (Inr (), rdr (pre @ bs) t c)"
  by (simp add: rd_advance_rdr)

lemma decode_truncated_body_ok:
  assumes "\<And>pre c. fst (AnyRelayMsg_decode_from_reader cmd (rdr pre bs c)) = Inr msg" "n = length bs"
  shows "fst (decode_truncated_body cmd n sid (rdr pre (bs @ pad) c)) =
    Inr \<lparr>ro_streamid = sid, ro_msg = msg\<rparr>"
  using assms(1) [of pre c] assms(2)
  by (auto simp: decode_truncated_body_def ebind_def eret_def split: prod.splits sum.splits)

text \<open>The decoders skip the fields that the relay encryption uses.\<close>

lemma decode_v0_any:
  assumes "\<And>pre c. fst (AnyRelayMsg_decode_from_reader cmd (rdr pre bs c)) = Inr msg"
    and "length bs < 65536" "length r = 2" "length d = 4"
  shows "fst (decode_v0_from_reader (from_slice
      (cmd # r @ to_be_bytes sid @ d @ to_be_bytes (word_of_nat (length bs) :: u16) @ bs @ pad))) =
    Inr \<lparr>ro_streamid = StreamId_new sid, ro_msg = msg\<rparr>"
  using assms
  by (simp add: decode_v0_from_reader_def from_slice_rdr ebind_def run_take_u8
      run_take_u run_advance decode_truncated_body_ok)

lemma decode_v0_bytes:
  assumes "\<And>pre c. fst (AnyRelayMsg_decode_from_reader cmd (rdr pre bs c)) = Inr msg"
    and "length bs < 65536"
  shows "fst (decode_v0_from_reader (from_slice (v0_bytes cmd sid bs @ pad))) =
    Inr \<lparr>ro_streamid = StreamId_new sid, ro_msg = msg\<rparr>"
  using decode_v0_any [OF assms, of "to_be_bytes (0 :: u16)" "to_be_bytes (0 :: u32)"] by (simp add: v0_bytes_def)

lemma decode_v1_any:
  assumes "\<And>pre c. fst (AnyRelayMsg_decode_from_reader cmd (rdr pre bs c)) = Inr msg"
    and "length bs < 65536" "v1_sid_ok cmd sid" "sid \<noteq> Some 0" "length t = 16"
  shows "fst (decode_v1_from_reader (from_slice (t @ cmd # to_be_bytes (word_of_nat (length bs) :: u16) @
      (case sid of None \<Rightarrow> [] | Some i \<Rightarrow> to_be_bytes i) @ bs @ pad))) = Inr \<lparr>ro_streamid = sid, ro_msg = msg\<rparr>"
proof (cases sid)
  case None
  then have "expects_streamid cmd (Some V1) = StreamWantNone"
    using assms(3) by (simp add: v1_sid_ok_def split: StreamIdReq.splits)
  with None assms(1,2,5) show ?thesis
    by (simp add: decode_v1_from_reader_def from_slice_rdr ebind_def run_take_u8
        run_take_u run_advance eret_def decode_truncated_body_ok)
next
  case (Some i)
  then have "expects_streamid cmd (Some V1) = StreamWantSome" "i \<noteq> 0"
    using assms(3,4) by (simp_all add: v1_sid_ok_def split: StreamIdReq.splits)
  with Some assms(1,2,5) show ?thesis
    by (simp add: decode_v1_from_reader_def from_slice_rdr ebind_def run_take_u8
        run_take_u run_advance eret_def decode_truncated_body_ok StreamId_new_def)
qed

lemma decode_v1_bytes:
  assumes "\<And>pre c. fst (AnyRelayMsg_decode_from_reader cmd (rdr pre bs c)) = Inr msg"
    and "length bs < 65536" "v1_sid_ok cmd sid" "sid \<noteq> Some 0"
  shows "fst (decode_v1_from_reader (from_slice (v1_bytes cmd sid bs @ pad))) =
    Inr \<lparr>ro_streamid = sid, ro_msg = msg\<rparr>"
  using decode_v1_any [OF assms, of "replicate 16 0" pad] by (simp add: v1_bytes_def)

lemma u16_at_append: "u16_at (length xs) (xs @ to_be_bytes w @ t) = w"
  by (simp add: u16_at_def)

lemma v0_header:
  "(v0_bytes cmd sid bs @ pad) ! 0 = cmd"
  "u16_at 3 (v0_bytes cmd sid bs @ pad) = sid"
  using u16_at_append [of "cmd # to_be_bytes (0 :: u16)" sid]
  by (simp_all add: v0_bytes_def)

lemma v1_header:
  "(v1_bytes cmd sid bs @ pad) ! 16 = cmd"
  "sid = Some i \<Longrightarrow> u16_at 19 (v1_bytes cmd sid bs @ pad) = i"
  using u16_at_append [of "replicate 16 0 @ cmd # to_be_bytes (word_of_nat (length bs) :: u16)" i]
  by (simp_all add: v1_bytes_def nth_append)

section \<open>Properties\<close>

text \<open>\<open>fill_bytes\<close> of the trait \<open>Rng\<close> fills the whole slice it is given.\<close>

definition fills :: "(nat \<Rightarrow> byte list) \<Rightarrow> bool" where
  "fills fill \<longleftrightarrow> (\<forall>n. length (fill n) = n)"

text \<open>
  Both formats at once: a cell body starts with the header and the message, followed by at
  least four zero bytes (or the end of the cell) and random bytes.
\<close>

fun cell_start :: "RelayCellFormat \<Rightarrow> relay_msg_outer \<Rightarrow> byte list \<Rightarrow> byte list" where
  "cell_start V0 m bs = v0_bytes (AnyRelayMsg_cmd (ro_msg m)) (StreamId_get_or_zero (ro_streamid m)) bs"
| "cell_start V1 m bs = v1_bytes (AnyRelayMsg_cmd (ro_msg m)) (ro_streamid m) bs"

fun cell_fits :: "RelayCellFormat \<Rightarrow> relay_msg_outer \<Rightarrow> byte list \<Rightarrow> bool" where
  "cell_fits V0 m bs = (length bs \<le> 498)"
| "cell_fits V1 m bs =
     (v1_sid_ok (AnyRelayMsg_cmd (ro_msg m)) (ro_streamid m) \<and> length bs \<le> v1_room (ro_streamid m))"

lemma length_v0_bytes [simp]: "length (v0_bytes cmd sid bs) = 11 + length bs"
  by (simp add: v0_bytes_def)

lemma length_v1_bytes [simp]: "length (v1_bytes cmd sid bs) = 509 - v1_room sid + length bs"
  by (auto simp: v1_bytes_def v1_room_def split: option.splits)

definition cell_padding :: "(nat \<Rightarrow> byte list) \<Rightarrow> nat \<Rightarrow> byte list" where
  "cell_padding fill n = (if 4 < n then replicate 4 0 @ fill (n - 4) else replicate n 0)"

lemma relay_encode_bytes:
  assumes "AnyRelayMsg_encode_onto (ro_msg m) = (bs, Inr ())"
  shows "cell_fits format m bs \<Longrightarrow>
      relay_encode format fill m = Inr (cell_start format m bs @ cell_padding fill (509 - length (cell_start format m bs)))"
    and "\<not> cell_fits format m bs \<Longrightarrow> \<exists>e. relay_encode format fill m = Inl e"
  using assms
  by (cases format; auto simp: relay_encode_def encode_to_cell_v0_eq encode_to_cell_v1_eq cell_padding_def
      take_replicate v1_room_def split: option.splits)+

lemma relay_encode_eq:
  assumes "AnyRelayMsg_encode_onto (ro_msg m) = (bs, Inr ())" "fills fill"
  shows "(\<exists>body. relay_encode format fill m = Inr body) \<longleftrightarrow> cell_fits format m bs"
    and "relay_encode format fill m = Inr body \<Longrightarrow>
      \<exists>pad. body = cell_start format m bs @ pad \<and> length body = 509 \<and>
        take 4 pad = replicate (min 4 (length pad)) 0"
proof -
  define n where "n = 509 - length (cell_start format m bs)"
  note enc = relay_encode_bytes [OF assms(1)]
  show iff: "(\<exists>body. relay_encode format fill m = Inr body) \<longleftrightarrow> cell_fits format m bs"
    using enc by (metis Inl_Inr_False)
  assume body: "relay_encode format fill m = Inr body"
  then have fits: "cell_fits format m bs" using iff by blast
  then have "body = cell_start format m bs @ cell_padding fill n" using body enc(1) by (simp add: n_def)
  moreover have "length (cell_start format m bs) + n = 509"
    using fits by (cases format) (auto simp: n_def v1_room_def split: option.splits)
  ultimately show "\<exists>pad. body = cell_start format m bs @ pad \<and> length body = 509 \<and>
      take 4 pad = replicate (min 4 (length pad)) 0"
    using assms(2) by (auto simp: cell_padding_def fills_def take_replicate min_def)
qed

lemma StreamId_roundtrip: "c \<noteq> Some 0 \<Longrightarrow> StreamId_new (StreamId_get_or_zero c) = c"
  by (auto simp: StreamId_new_def StreamId_get_or_zero_def split: option.splits)

lemma decode_singleton_eq:
  "decode_singleton V0 body = fst (decode_v0_from_reader (from_slice body))"
  "decode_singleton V1 body = fst (decode_v1_from_reader (from_slice body))"
  by (simp_all add: decode_singleton_def from_singleton_body_def)

lemma decode_cell_start:
  assumes "AnyRelayMsg_encode_onto (ro_msg m) = (bs, Inr ())" "cell_fits format m bs"
    and "relay_msg_wf (ro_msg m)" "ro_streamid m \<noteq> Some 0"
  shows "decode_singleton format (cell_start format m bs @ pad) = Inr m"
proof -
  have "length bs < 65536"
    using assms(2) by (cases format) (auto simp: v1_room_def split: option.splits)
  moreover have "fst (AnyRelayMsg_decode_from_reader (AnyRelayMsg_cmd (ro_msg m)) (rdr pre bs c)) = Inr (ro_msg m)"
    for pre c
    using relay_msg_reads_back [OF assms(3)] assms(1) by (auto simp: reads_back_def encodes_def)
  ultimately show ?thesis
    using assms(2,4)
    by (cases format) (simp_all add: decode_singleton_eq decode_v0_bytes decode_v1_bytes StreamId_roundtrip)
qed

lemma unparsed_cell_start:
  assumes "cell_fits format m bs" "ro_streamid m \<noteq> Some 0"
    and "from_singleton_body format (cell_start format m bs @ pad) = Inr u"
  shows "unparsed_cmd u = AnyRelayMsg_cmd (ro_msg m) \<and> unparsed_stream_id u = ro_streamid m"
proof (cases format)
  case V0
  with assms show ?thesis
    by (auto simp: from_singleton_body_def v0_header StreamId_roundtrip)
next
  case V1
  with assms(3) have u: "u = UnparsedV1 (v1_bytes (AnyRelayMsg_cmd (ro_msg m)) (ro_streamid m) bs @ pad)"
    by (simp add: from_singleton_body_def)
  have "v1_sid_ok (AnyRelayMsg_cmd (ro_msg m)) (ro_streamid m)" using assms(1) V1 by simp
  then show ?thesis
    using assms(2) v1_header(1) [of "AnyRelayMsg_cmd (ro_msg m)" "ro_streamid m" bs pad]
      v1_header(2) [of "ro_streamid m" _ "AnyRelayMsg_cmd (ro_msg m)" bs pad] u
    by (cases "ro_streamid m") (auto simp: v1_sid_ok_def StreamId_new_def split: StreamIdReq.splits)
qed

text \<open>
  C9. A relay message survives the cell in both formats. Encoding a well-formed message gives
  a body of exactly 509 bytes whatever bytes the random generator supplies as padding, and
  decoding that body gives the same message and stream identifier; the command and the
  stream identifier that the dispatcher reads without decoding the body agree with them.
\<close>

theorem relay_cell_roundtrip:
  assumes "fills fill" "relay_msg_wf (ro_msg m)" "ro_streamid m \<noteq> Some 0"
    and "relay_encode format fill m = Inr body"
  shows "length body = CELL_DATA_LEN \<and> decode_singleton format body = Inr m \<and>
    (\<exists>u. from_singleton_body format body = Inr u \<and>
       unparsed_cmd u = AnyRelayMsg_cmd (ro_msg m) \<and> unparsed_stream_id u = ro_streamid m)"
proof -
  obtain bs where bs: "AnyRelayMsg_encode_onto (ro_msg m) = (bs, Inr ())"
    using relay_msg_reads_back [OF assms(2)] by (auto simp: reads_back_def encodes_def)
  obtain pad where pad: "body = cell_start format m bs @ pad" "length body = 509"
    using relay_encode_eq(2) [OF bs assms(1,4)] by blast
  have fits: "cell_fits format m bs" using relay_encode_eq(1) [OF bs assms(1)] assms(4) by blast
  obtain u where "from_singleton_body format body = Inr u"
    by (cases format) (simp_all add: from_singleton_body_def)
  with pad fits bs assms show ?thesis
    using decode_cell_start [OF bs fits] unparsed_cell_start [OF fits] by auto
qed

theorem relay_cell_roundtrip_witness:
  "\<exists>body. relay_encode V1 (\<lambda>n. replicate n 7) \<lparr>ro_streamid = Some 5, ro_msg = RData [1, 2, 3]\<rparr> = Inr body \<and>
     decode_singleton V1 body = Inr \<lparr>ro_streamid = Some 5, ro_msg = RData [1, 2, 3]\<rparr>"
proof -
  let ?m = "\<lparr>ro_streamid = Some 5, ro_msg = RData [1, 2, 3]\<rparr>" and ?fill = "\<lambda>n. replicate n (7 :: byte)"
  have fill: "fills ?fill" by (simp add: fills_def)
  have bs: "AnyRelayMsg_encode_onto (ro_msg ?m) = ([1, 2, 3], Inr ())" by (simp add: wire_simps)
  have "cell_fits V1 ?m [1, 2, 3]" by (simp add: v1_sid_ok_def v1_room_def expects_streamid_def)
  then obtain body where "relay_encode V1 ?fill ?m = Inr body"
    using relay_encode_eq(1) [OF bs fill] by blast
  with relay_cell_roundtrip [OF fill _ _ this] show ?thesis by simp
qed

text \<open>
  C16. Splitting data into cells. \<open>Data::try_split_from\<close> takes a non-empty prefix of its input
  that is no longer than the space of a cell of the format, and the cell made from it always
  encodes and is read back, with the length that flow control reads from the header.
\<close>

theorem data_split_encodes:
  assumes "try_split_from format inp = Some (d, rest)" "fills fill" "sid \<noteq> 0"
  shows "inp = d @ rest \<and> d \<noteq> [] \<and> (length d = max_body_len format \<or> rest = []) \<and>
    (\<exists>body u. relay_encode format fill \<lparr>ro_streamid = Some sid, ro_msg = RData d\<rparr> = Inr body \<and>
       decode_singleton format body = Inr \<lparr>ro_streamid = Some sid, ro_msg = RData d\<rparr> \<and>
       from_singleton_body format body = Inr u \<and> unparsed_data_len u = Inr (word_of_nat (length d)))"
proof -
  let ?m = "\<lparr>ro_streamid = Some sid, ro_msg = RData d\<rparr>"
  have split: "inp = d @ rest" "d \<noteq> []" "length d = max_body_len format \<or> rest = []"
    and len: "length d \<le> max_body_len format"
    using assms(1) by (cases format; auto simp: try_split_from_def Let_def min_def split: if_splits)+
  have bs: "AnyRelayMsg_encode_onto (ro_msg ?m) = (d, Inr ())" by (simp add: wire_simps)
  have fits: "cell_fits format ?m d"
    using len by (cases format) (simp_all add: v1_sid_ok_def v1_room_def expects_streamid_def)
  then obtain body where enc: "relay_encode format fill ?m = Inr body"
    using relay_encode_eq(1) [OF bs assms(2)] by blast
  then obtain pad where body: "body = cell_start format ?m d @ pad"
    using relay_encode_eq(2) [OF bs assms(2)] by blast
  have "decode_singleton format body = Inr ?m"
    unfolding body by (rule decode_cell_start [OF bs fits]) (use split assms(3) in simp_all)
  moreover obtain u where u: "from_singleton_body format body = Inr u"
    by (cases format) (simp_all add: from_singleton_body_def)
  moreover have "unparsed_data_len u = Inr (word_of_nat (length d))"
    using u len u16_at_append [of "2 # to_be_bytes (0 :: u16) @ to_be_bytes sid @ to_be_bytes (0 :: u32)"]
      u16_at_append [of "replicate 16 0 @ [2]"]
    by (cases format) (auto simp: unparsed_data_len_def from_singleton_body_def body v0_header v1_header
        Let_def v0_bytes_def v1_bytes_def nth_append StreamId_get_or_zero_def)
  ultimately show ?thesis using split enc by blast
qed

theorem data_split_encodes_witness:
  "\<exists>body. relay_encode V0 (\<lambda>n. replicate n 9) \<lparr>ro_streamid = Some 1, ro_msg = RData (replicate 498 65)\<rparr> = Inr body \<and>
     decode_singleton V0 body = Inr \<lparr>ro_streamid = Some 1, ro_msg = RData (replicate 498 65)\<rparr>"
proof -
  have "try_split_from V0 (replicate 600 65) = Some (replicate 498 65, replicate 102 65)"
    by (simp add: try_split_from_def Let_def take_replicate drop_replicate)
  with data_split_encodes [OF this, of "\<lambda>n. replicate n 9" 1] show ?thesis
    by (auto simp: fills_def)
qed







end
