(* ===== verification/Sendme.thy ===== *)
theory Sendme
  imports RelayCell
begin

text \<open>
  \<open>tor-proto/src/congestion/sendme.rs\<close>: the SENDME windows of circuits and streams, and the
  queue of authentication tags that incoming SENDMEs have to match. A window is the \<open>u16\<close> it
  holds; the type parameter \<open>P: WindowParams\<close> is a record of its three constants.

  The second half connects the two ends of a circuit: \<open>flow_step\<close> is a step relation over a
  sender, a receiver and the cells between them, built from the operations of the model, and
  its invariant shows that neither end ever violates a window and that they cannot get stuck.
\<close>

section \<open>Model\<close>

text \<open>
  \<open>tor_proto::Error\<close>, the variants in use: a protocol violation of the other side, on
  the circuit or on a stream, a message that does not parse, an internal error, a misuse of the interface, identifiers that
  are used up or taken, and the mark for a panic.
\<close>

datatype proto_error =
    ProtoViolation string
  | ProtoStreamProto string
  | ProtoBytesErr bytes_error string
  | ProtoInternal string
  | ProtoBadApiUsage string
  | ProtoIdRangeFull
  | ProtoIdUnavailable u16
  | ProtoNoSuchHop
  | ProtoPanic string

record window_params =
  wp_maximum :: u16
  wp_increment :: u16
  wp_start :: u16

definition CircParams :: window_params where
  "CircParams = \<lparr>wp_maximum = 1000, wp_increment = 100, wp_start = 1000\<rparr>"

definition StreamParams :: window_params where
  "StreamParams = \<lparr>wp_maximum = 500, wp_increment = 50, wp_start = 500\<rparr>"

definition checked_add_u16 :: "u16 \<Rightarrow> u16 \<Rightarrow> u16 option" where
  "checked_add_u16 a b = (if unat a + unat b \<le> 65535 then Some (a + b) else None)"

definition checked_sub_u16 :: "u16 \<Rightarrow> u16 \<Rightarrow> u16 option" where
  "checked_sub_u16 a b = (if b \<le> a then Some (a - b) else None)"

subsection \<open>Tags\<close>

definition validator_record :: "'t \<Rightarrow> 't list \<Rightarrow> 't list" where
  "validator_record tag tags = tags @ [tag]"

definition validator_validate :: "'t option \<Rightarrow> ('t list, proto_error, unit) eff" where
  "validator_validate tag tags =
     (case tags of
        [] \<Rightarrow> (Inl (ProtoViolation ''Received a SENDME when none was expected''), tags)
      | t # rest \<Rightarrow>
          (case tag of
             Some u \<Rightarrow>
               if t = u then (Inr (), rest)
               else (Inl (ProtoViolation ''Mismatched tag on circuit SENDME''), tags)
           | None \<Rightarrow> (Inr (), rest)))"

subsection \<open>Windows\<close>

definition should_record_tag :: "window_params \<Rightarrow> u16 \<Rightarrow> bool" where
  "should_record_tag P window \<longleftrightarrow> window mod wp_increment P = 0"

definition send_take :: "(u16, proto_error, unit) eff" where
  "send_take window =
     (case checked_sub_u16 window 1 of
        None \<Rightarrow> (Inl (ProtoViolation ''Called SendWindow::take() on empty SendWindow''), window)
      | Some w \<Rightarrow> (Inr (), w))"

definition send_put :: "window_params \<Rightarrow> (u16, proto_error, unit) eff" where
  "send_put P window =
     (case checked_add_u16 window (wp_increment P) of
        None \<Rightarrow> (Inl (ProtoInternal ''Overflow on SENDME window''), window)
      | Some new_window \<Rightarrow>
          if new_window > wp_maximum P
          then (Inl (ProtoViolation ''Unexpected stream SENDME''), window)
          else (Inr (), new_window))"

definition recv_take :: "window_params \<Rightarrow> (u16, proto_error, bool) eff" where
  "recv_take P window =
     (case checked_sub_u16 window 1 of
        Some x \<Rightarrow> (Inr (x mod wp_increment P = 0), x)
      | None \<Rightarrow> (Inl (ProtoViolation ''Received a data cell in violation of a window''), window))"

definition recv_decrement_n :: "u16 \<Rightarrow> (u16, proto_error, unit) eff" where
  "recv_decrement_n n window =
     (case checked_sub_u16 window n of
        None \<Rightarrow> (Inl (ProtoViolation ''Received too many cells on a stream''), window)
      | Some w \<Rightarrow> (Inr (), w))"

definition recv_put :: "window_params \<Rightarrow> (u16, proto_error, unit) eff" where
  "recv_put P window =
     (case checked_add_u16 window (wp_increment P) of
        None \<Rightarrow> (Inl (ProtoPanic ''Overflow detected while attempting to increment window''), window)
      | Some w \<Rightarrow> (Inr (), w))"

definition cmd_counts_towards_windows :: "RelayCmd \<Rightarrow> bool" where
  "cmd_counts_towards_windows cmd \<longleftrightarrow> cmd = RC_DATA"

definition cell_counts_towards_windows :: "unparsed_relay_msg \<Rightarrow> bool" where
  "cell_counts_towards_windows cell \<longleftrightarrow> cmd_counts_towards_windows (unparsed_cmd cell)"

section \<open>Both ends of a circuit\<close>

text \<open>
  A sender that takes from its send window for every cell, a receiver that takes from its
  receive window for every cell and returns a SENDME when it is told to, and the cells and
  SENDMEs that are on their way. A step that fails carries the error.
\<close>

record flow =
  fl_send :: u16
  fl_recv :: u16
  fl_cells :: nat
  fl_sendmes :: nat

definition flow_start :: "window_params \<Rightarrow> flow" where
  "flow_start P = \<lparr>fl_send = wp_start P, fl_recv = wp_start P, fl_cells = 0, fl_sendmes = 0\<rparr>"

definition flow_send :: "(flow, proto_error, unit) eff" where
  "flow_send s =
     (case send_take (fl_send s) of
        (Inl e, w) \<Rightarrow> (Inl e, s\<lparr>fl_send := w\<rparr>)
      | (Inr _, w) \<Rightarrow> (Inr (), s\<lparr>fl_send := w, fl_cells := fl_cells s + 1\<rparr>))"

definition flow_recv :: "window_params \<Rightarrow> (flow, proto_error, unit) eff" where
  "flow_recv P s =
     (case recv_take P (fl_recv s) of
        (Inl e, w) \<Rightarrow> (Inl e, s\<lparr>fl_recv := w, fl_cells := fl_cells s - 1\<rparr>)
      | (Inr sendme, w) \<Rightarrow>
          if sendme then
            (case recv_put P w of
               (Inl e, w') \<Rightarrow> (Inl e, s\<lparr>fl_recv := w', fl_cells := fl_cells s - 1\<rparr>)
             | (Inr _, w') \<Rightarrow>
                 (Inr (), s\<lparr>fl_recv := w', fl_cells := fl_cells s - 1, fl_sendmes := fl_sendmes s + 1\<rparr>))
          else (Inr (), s\<lparr>fl_recv := w, fl_cells := fl_cells s - 1\<rparr>))"

definition flow_ack :: "window_params \<Rightarrow> (flow, proto_error, unit) eff" where
  "flow_ack P s =
     (case send_put P (fl_send s) of
        (Inl e, w) \<Rightarrow> (Inl e, s\<lparr>fl_send := w, fl_sendmes := fl_sendmes s - 1\<rparr>)
      | (Inr _, w) \<Rightarrow> (Inr (), s\<lparr>fl_send := w, fl_sendmes := fl_sendmes s - 1\<rparr>))"

text \<open>The sender only sends while its window is not empty; the other two steps need a message.\<close>

inductive flow_step :: "window_params \<Rightarrow> flow \<Rightarrow> (proto_error + unit) \<times> flow \<Rightarrow> bool" for P where
  Send: "0 < fl_send s \<Longrightarrow> flow_step P s (flow_send s)"
| Recv: "0 < fl_cells s \<Longrightarrow> flow_step P s (flow_recv P s)"
| Ack: "0 < fl_sendmes s \<Longrightarrow> flow_step P s (flow_ack P s)"

inductive flow_reach :: "window_params \<Rightarrow> flow \<Rightarrow> bool" for P where
  Start: "flow_reach P (flow_start P)"
| Step: "flow_reach P s \<Longrightarrow> flow_step P s (Inr u, s') \<Longrightarrow> flow_reach P s'"

inductive_cases flow_stepE: "flow_step P s r"

text \<open>
  Every increment of the receive window is in the send window, on its way as a cell or on
  its way back as a SENDME, and the receive window is never empty.
\<close>

definition flow_inv :: "window_params \<Rightarrow> flow \<Rightarrow> bool" where
  "flow_inv P s \<longleftrightarrow>
     unat (fl_recv s) = unat (fl_send s) + fl_cells s + unat (wp_increment P) * fl_sendmes s \<and>
     0 < unat (fl_recv s) \<and> unat (fl_recv s) \<le> unat (wp_maximum P)"

section \<open>Laws\<close>

lemma checked_sub_u16_1: "checked_sub_u16 w 1 = (if w = 0 then None else Some (w - 1))"
  by (simp add: checked_sub_u16_def word_le_nat_alt unat_gt_0 Suc_le_eq)

lemma unat_minus_1: "w \<noteq> 0 \<Longrightarrow> unat (w - 1 :: 'a::len word) = unat w - 1"
  by (simp add: unat_minus_one)

lemma send_take_ok: "w \<noteq> 0 \<Longrightarrow> send_take w = (Inr (), w - 1)"
  by (simp add: send_take_def checked_sub_u16_1)

lemma recv_take_ok:
  "w \<noteq> 0 \<Longrightarrow> recv_take P w = (Inr ((w - 1) mod wp_increment P = 0), w - 1)"
  by (simp add: recv_take_def checked_sub_u16_1)

lemma validate_ok_iff:
  "fst (validator_validate tag tags) = Inr () \<longleftrightarrow>
     tags \<noteq> [] \<and> (\<forall>u. tag = Some u \<longrightarrow> hd tags = u)"
  by (auto simp: validator_validate_def split: list.splits option.splits)

lemma validate_ok_tl:
  "fst (validator_validate tag tags) = Inr () \<Longrightarrow> snd (validator_validate tag tags) = tl tags"
  by (auto simp: validator_validate_def split: list.splits option.splits if_splits)

lemma validate_err_keeps:
  "fst (validator_validate tag tags) \<noteq> Inr () \<Longrightarrow> snd (validator_validate tag tags) = tags"
  by (auto simp: validator_validate_def split: list.splits option.splits if_splits)

text \<open>
  What the two parameter types have in common: the increment divides the maximum, a window
  starts full, and adding an increment to a legal window cannot overflow the \<open>u16\<close>.
\<close>

locale sendme_window =
  fixes P :: window_params
  assumes inc_pos: "0 < unat (wp_increment P)"
    and inc_dvd: "unat (wp_increment P) dvd unat (wp_maximum P)"
    and max_pos: "0 < unat (wp_maximum P)"
    and full: "wp_start P = wp_maximum P"
    and room: "unat (wp_maximum P) + unat (wp_increment P) \<le> 65535"
begin

lemma put_checked:
  assumes "unat w \<le> unat (wp_maximum P)"
  shows "checked_add_u16 w (wp_increment P) = Some (w + wp_increment P)"
    and "unat (w + wp_increment P) = unat w + unat (wp_increment P)"
proof -
  have le: "unat w + unat (wp_increment P) \<le> 65535" using assms room by linarith
  then show "checked_add_u16 w (wp_increment P) = Some (w + wp_increment P)"
    by (simp add: checked_add_u16_def)
  show "unat (w + wp_increment P) = unat w + unat (wp_increment P)"
    using le by (simp add: unat_word_ariths)
qed

lemma recv_put_ok:
  "unat w \<le> unat (wp_maximum P) \<Longrightarrow> recv_put P w = (Inr (), w + wp_increment P)"
  by (simp add: recv_put_def put_checked(1))

lemma send_put_ok:
  assumes "unat w + unat (wp_increment P) \<le> unat (wp_maximum P)"
  shows "send_put P w = (Inr (), w + wp_increment P)"
proof -
  have w: "unat w \<le> unat (wp_maximum P)" using assms by linarith
  have "\<not> wp_maximum P < w + wp_increment P"
    using assms by (simp add: word_less_nat_alt put_checked(2) [OF w])
  then show ?thesis by (simp add: send_put_def put_checked(1) [OF w])
qed

lemma send_put_le:
  assumes "fst (send_put P w) = Inr ()"
  shows "unat (snd (send_put P w)) \<le> unat (wp_maximum P)"
    and "unat (snd (send_put P w)) = unat w + unat (wp_increment P)"
proof -
  show "unat (snd (send_put P w)) \<le> unat (wp_maximum P)"
    using assms by (auto simp: send_put_def word_less_nat_alt split: option.splits if_splits)
  have "unat w + unat (wp_increment P) \<le> 65535"
    using assms by (auto simp: send_put_def checked_add_u16_def split: if_splits)
  moreover have "snd (send_put P w) = w + wp_increment P"
    using assms by (auto simp: send_put_def checked_add_u16_def split: if_splits)
  ultimately show "unat (snd (send_put P w)) = unat w + unat (wp_increment P)"
    by (simp add: unat_word_ariths)
qed

text \<open>A multiple of the increment that is below the maximum is an increment below it.\<close>

lemma multiple_room:
  assumes "x mod unat (wp_increment P) = 0" "x < unat (wp_maximum P)"
  shows "x + unat (wp_increment P) \<le> unat (wp_maximum P)"
proof -
  obtain a where a: "x = unat (wp_increment P) * a" using assms(1) by auto
  obtain b where b: "unat (wp_maximum P) = unat (wp_increment P) * b" using inc_dvd by blast
  have "Suc a \<le> b" using assms(2) a b inc_pos by simp
  then have "unat (wp_increment P) * Suc a \<le> unat (wp_increment P) * b" by (rule mult_le_mono2)
  then show ?thesis by (simp add: a b)
qed

lemma flow_inv_start: "flow_inv P (flow_start P)"
  using max_pos full by (simp add: flow_inv_def flow_start_def)

lemma flow_send_ok:
  assumes "flow_inv P s" "0 < fl_send s"
  shows "fst (flow_send s) = Inr ()" and "flow_inv P (snd (flow_send s))"
proof -
  have nz: "fl_send s \<noteq> 0" and pos: "0 < unat (fl_send s)"
    using assms(2) by (auto simp: word_less_nat_alt)
  show "fst (flow_send s) = Inr ()"
    using nz by (simp add: flow_send_def send_take_ok)
  show "flow_inv P (snd (flow_send s))"
    using assms(1) nz pos by (simp add: flow_send_def send_take_ok flow_inv_def unat_minus_1)
qed

lemma flow_recv_ok:
  assumes inv: "flow_inv P s" and "0 < fl_cells s"
  shows "fst (flow_recv P s) = Inr ()" and "flow_inv P (snd (flow_recv P s))"
proof -
  let ?x = "fl_recv s - 1"
  have nz: "fl_recv s \<noteq> 0" using inv by (auto simp: flow_inv_def)
  have x: "unat ?x = unat (fl_recv s) - 1" by (rule unat_minus_1 [OF nz])
  have lt: "unat ?x < unat (wp_maximum P)" and le: "unat ?x \<le> unat (wp_maximum P)"
    using inv unfolding x flow_inv_def by linarith+
  have "fst (flow_recv P s) = Inr () \<and> flow_inv P (snd (flow_recv P s))"
  proof (cases "?x mod wp_increment P = 0")
    case True
    then have "unat ?x mod unat (wp_increment P) = 0"
      by (metis unat_0 unat_mod_distrib)
    then have "unat ?x + unat (wp_increment P) \<le> unat (wp_maximum P)"
      using lt by (rule multiple_room)
    then show ?thesis
      using True inv assms(2) inc_pos put_checked(2) [OF le]
      by (simp add: flow_recv_def recv_take_ok [OF nz] recv_put_ok [OF le] flow_inv_def x)
  next
    case False
    then have "?x \<noteq> 0" by (metis unat_0 unat_mod_distrib mod_0 word_unat_eq_iff)
    then have "0 < unat ?x" by (simp add: unat_gt_0)
    then show ?thesis
      using False inv assms(2) le
      by (simp add: flow_recv_def recv_take_ok [OF nz] flow_inv_def x)
  qed
  then show "fst (flow_recv P s) = Inr ()" and "flow_inv P (snd (flow_recv P s))" by simp_all
qed

lemma flow_ack_ok:
  assumes "flow_inv P s" "0 < fl_sendmes s"
  shows "fst (flow_ack P s) = Inr ()" and "flow_inv P (snd (flow_ack P s))"
proof -
  obtain k where k: "fl_sendmes s = Suc k" using assms(2) by (cases "fl_sendmes s") auto
  have le: "unat (fl_send s) + unat (wp_increment P) \<le> unat (wp_maximum P)"
    using assms(1) unfolding flow_inv_def k by simp
  then have le': "unat (fl_send s) \<le> unat (wp_maximum P)" by linarith
  show "fst (flow_ack P s) = Inr ()"
    by (simp add: flow_ack_def send_put_ok [OF le])
  show "flow_inv P (snd (flow_ack P s))"
    using assms(1) inc_pos unfolding flow_inv_def k
    by (simp add: flow_ack_def send_put_ok [OF le] put_checked(2) [OF le'] k)
qed

lemma flow_step_ok:
  assumes "flow_inv P s" "flow_step P s r"
  shows "fst r = Inr ()" and "flow_inv P (snd r)"
  using assms(2,1) by (auto elim!: flow_stepE dest: flow_send_ok flow_recv_ok flow_ack_ok)

lemma flow_reach_inv: "flow_reach P s \<Longrightarrow> flow_inv P s"
  by (induction rule: flow_reach.induct) (auto simp: flow_inv_start dest: flow_step_ok(2))

lemma reach_step_succeeds:
  "flow_reach P s \<Longrightarrow> flow_step P s r \<Longrightarrow> fst r = Inr ()"
  by (rule flow_step_ok(1) [OF flow_reach_inv])

lemma reach_not_stuck:
  assumes "flow_reach P s"
  shows "\<exists>r. flow_step P s r"
proof (cases "fl_cells s = 0 \<and> fl_sendmes s = 0")
  case True
  then have "0 < fl_send s"
    using flow_reach_inv [OF assms] by (simp add: flow_inv_def word_less_nat_alt)
  then show ?thesis by (blast intro: flow_step.Send)
next
  case False
  then show ?thesis by (metis flow_step.Recv flow_step.Ack not_gr_zero)
qed

lemma reach_bound:
  assumes "flow_reach P s"
  shows "unat (fl_send s) + fl_cells s + unat (wp_increment P) * fl_sendmes s \<le> unat (wp_maximum P)"
  using flow_reach_inv [OF assms] by (simp add: flow_inv_def)

end

interpretation circ_window: sendme_window CircParams
  by unfold_locales (simp_all add: CircParams_def)

interpretation stream_window: sendme_window StreamParams
  by unfold_locales (simp_all add: StreamParams_def)

section \<open>Properties\<close>

text \<open>
  C5. Window flow control works end to end, for the parameters of circuits and of streams.
  From two full windows, whatever the order in which cells are sent, cells arrive and SENDMEs
  arrive: every step succeeds, so the receiver never sees a cell in violation of its window,
  the sender never sees a SENDME it did not expect, and no window overflows; there is always
  a step to take, so the two ends never wait for each other; and no more cells are on their
  way than the maximum of the window.
\<close>

theorem sendme_windows_sound:
  assumes "P = CircParams \<or> P = StreamParams" and "flow_reach P s"
  shows "(\<forall>r. flow_step P s r \<longrightarrow> fst r = Inr ()) \<and> (\<exists>r. flow_step P s r) \<and>
    unat (fl_send s) + fl_cells s + unat (wp_increment P) * fl_sendmes s \<le> unat (wp_maximum P)"
  using assms circ_window.reach_step_succeeds stream_window.reach_step_succeeds
    circ_window.reach_not_stuck stream_window.reach_not_stuck
    circ_window.reach_bound stream_window.reach_bound
  by blast

lemma flow_reach_sent:
  "flow_reach StreamParams \<lparr>fl_send = 499, fl_recv = 500, fl_cells = 1, fl_sendmes = 0\<rparr>"
proof (rule flow_reach.Step [OF flow_reach.Start])
  have "flow_send (flow_start StreamParams) =
      (Inr (), \<lparr>fl_send = 499, fl_recv = 500, fl_cells = 1, fl_sendmes = 0\<rparr>)"
    by (simp add: flow_send_def flow_start_def send_take_ok StreamParams_def)
  then show "flow_step StreamParams (flow_start StreamParams)
      (Inr (), \<lparr>fl_send = 499, fl_recv = 500, fl_cells = 1, fl_sendmes = 0\<rparr>)"
    using flow_step.Send [of "flow_start StreamParams" StreamParams]
    by (simp add: flow_start_def StreamParams_def)
qed

theorem sendme_windows_sound_witness:
  "\<exists>r. flow_step StreamParams \<lparr>fl_send = 499, fl_recv = 500, fl_cells = 1, fl_sendmes = 0\<rparr> r \<and>
     fst r = Inr ()"
  using sendme_windows_sound [OF disjI2 [OF refl] flow_reach_sent] by blast

end
