(* ===== verification/Congestion.thy ===== *)
theory Congestion
  imports Sendme
begin

text \<open>
  Congestion control of a circuit hop: \<open>tor-proto/src/congestion.rs\<close> and its modules
  \<open>params.rs\<close>, \<open>rtt.rs\<close>, \<open>fixed.rs\<close> and \<open>vegas.rs\<close>.

  \<^item> \<open>u32\<close> and \<open>u64\<close> values are words, so that the plain operators wrap as they do in a
    release build; \<open>saturating_\<close> operations and the panic of a division by zero are
    written out. An \<open>Instant\<close> and a \<open>Duration\<close> are numbers of nanoseconds.
  \<^item> The trait object \<open>Box<dyn CongestionControlAlgorithm>\<close> is its method table, the record
    \<open>cc_ops\<close>, together with the value; \<open>fixed_ops\<close> and \<open>vegas_ops\<close> are the tables of the two
    implementations. No implementation changes the round trip estimator that
    \<open>sendme_received\<close> is given, so it is an argument and not part of the result.
  \<^item> \<open>debug_assert!\<close> is not part of a release build; that the assertion in
    \<open>Vegas::sendme_received\<close> holds is the law \<open>owed\<close> of the contract of the algorithms.
\<close>

section \<open>Arithmetic\<close>

definition saturating_sub_u32 :: "u32 \<Rightarrow> u32 \<Rightarrow> u32" where
  "saturating_sub_u32 a b = (if b \<le> a then a - b else 0)"

definition saturating_add_u32 :: "u32 \<Rightarrow> u32 \<Rightarrow> u32" where
  "saturating_add_u32 a b = (if unat a + unat b < 2 ^ 32 then a + b else - 1)"

definition saturating_mul_u32 :: "u32 \<Rightarrow> u32 \<Rightarrow> u32" where
  "saturating_mul_u32 a b = (if unat a * unat b < 2 ^ 32 then a * b else - 1)"

definition div_or_panic :: "u32 \<Rightarrow> u32 \<Rightarrow> proto_error + u32" where
  "div_or_panic a b = (if b = 0 then Inl (ProtoPanic ''attempt to divide by zero'') else Inr (a div b))"

definition rbind :: "'e + 'a \<Rightarrow> ('a \<Rightarrow> 'e + 'b) \<Rightarrow> 'e + 'b" where
  "rbind r f = (case r of Inl e \<Rightarrow> Inl e | Inr x \<Rightarrow> f x)"

section \<open>Parameters\<close>

record fixed_window_params =
  circ_window_start :: u16
  circ_window_min :: u16
  circ_window_max :: u16

record vegas_queue_params =
  vq_alpha :: u32
  vq_beta :: u32
  vq_delta :: u32
  vq_gamma :: u32
  vq_ss_cwnd_cap :: u32

record vegas_params =
  cell_in_queue_params :: vegas_queue_params
  ss_cwnd_max :: u32
  cwnd_full_gap :: u32
  cwnd_full_min_pct :: u32
  cwnd_full_per_cwnd :: u32

datatype cc_algorithm = FixedWindowAlg fixed_window_params | VegasAlg vegas_params

record rtt_params =
  ewma_cwnd_pct :: u32
  ewma_max :: u32
  ewma_ss_max :: u32
  rtt_reset_pct :: u32

record cwnd_params =
  cwnd_init :: u32
  cwnd_inc_pct_ss :: u32
  cwnd_inc :: u32
  cwnd_inc_rate :: u32
  cwnd_min :: u32
  cwnd_max :: u32
  sendme_inc :: u32

record cc_params =
  ccp_alg :: cc_algorithm
  ccp_fixed_window_params :: fixed_window_params
  ccp_cwnd_params :: cwnd_params
  ccp_rtt_params :: rtt_params

definition set_sendme_inc :: "u8 \<Rightarrow> cwnd_params \<Rightarrow> cwnd_params" where
  "set_sendme_inc inc p = p\<lparr>sendme_inc := ucast inc\<rparr>"

definition compatible_with_cgo :: "cc_algorithm \<Rightarrow> bool" where
  "compatible_with_cgo a = (case a of FixedWindowAlg _ \<Rightarrow> False | VegasAlg _ \<Rightarrow> True)"

definition cc_is_enabled :: "cc_params \<Rightarrow> bool" where
  "cc_is_enabled p = (case ccp_alg p of FixedWindowAlg _ \<Rightarrow> False | VegasAlg _ \<Rightarrow> True)"

definition use_fallback_alg :: "cc_params \<Rightarrow> cc_params" where
  "use_fallback_alg p = p\<lparr>ccp_alg := FixedWindowAlg (ccp_fixed_window_params p)\<rparr>"

definition is_sendme_inc_valid :: "u8 \<Rightarrow> cc_params \<Rightarrow> bool" where
  "is_sendme_inc_valid inc params =
     (let inc_u32 = ucast inc :: u32 in
      if inc = 0 then False
      else
        let inc_consensus = sendme_inc (ccp_cwnd_params params) in
        \<not> (inc_u32 > saturating_add_u32 inc_consensus 1 \<or>
           inc_u32 < saturating_sub_u32 inc_consensus 1))"

section \<open>Signals, state and the congestion window\<close>

record cc_signals =
  channel_blocked :: bool
  channel_outbound_size :: u32

definition CongestionSignals_new :: "bool \<Rightarrow> nat \<Rightarrow> cc_signals" where
  "CongestionSignals_new blocked outbound =
     \<lparr>channel_blocked = blocked, channel_outbound_size = word_of_nat outbound\<rparr>"

datatype cc_state = SlowStart | Steady

definition in_slow_start :: "cc_state \<Rightarrow> bool" where
  "in_slow_start st = (case st of SlowStart \<Rightarrow> True | Steady \<Rightarrow> False)"

record cwnd =
  cw_params :: cwnd_params
  cw_value :: u32
  cw_is_full :: bool

definition cwnd_new :: "cwnd_params \<Rightarrow> cwnd" where
  "cwnd_new params = \<lparr>cw_params = params, cw_value = cwnd_init params, cw_is_full = False\<rparr>"

definition cwnd_dec :: "cwnd \<Rightarrow> cwnd" where
  "cwnd_dec c = c\<lparr>cw_value :=
     max (saturating_sub_u32 (cw_value c) (cwnd_inc (cw_params c))) (cwnd_min (cw_params c))\<rparr>"

definition cwnd_increase :: "cwnd \<Rightarrow> cwnd" where
  "cwnd_increase c = c\<lparr>cw_value :=
     min (saturating_add_u32 (cw_value c) (cwnd_inc (cw_params c))) (cwnd_max (cw_params c))\<rparr>"

definition cwnd_sendme_inc :: "cwnd \<Rightarrow> u32" where
  "cwnd_sendme_inc c = sendme_inc (cw_params c)"

definition update_rate :: "cc_state \<Rightarrow> cwnd \<Rightarrow> proto_error + u32" where
  "update_rate st c =
     (if in_slow_start st then Inr 1
      else
        div_or_panic
          (cw_value c + cwnd_inc_rate (cw_params c) * cwnd_sendme_inc c div 2)
          (cwnd_inc_rate (cw_params c) * cwnd_sendme_inc c))"

definition cwnd_set :: "u32 \<Rightarrow> cwnd \<Rightarrow> cwnd" where
  "cwnd_set value c = c\<lparr>cw_value := value\<rparr>"

definition cwnd_reset_full :: "cwnd \<Rightarrow> cwnd" where
  "cwnd_reset_full c = c\<lparr>cw_is_full := False\<rparr>"

definition sendme_per_cwnd :: "cwnd \<Rightarrow> proto_error + u32" where
  "sendme_per_cwnd c =
     div_or_panic (cw_value c + cwnd_sendme_inc c div 2) (cwnd_sendme_inc c)"

definition rfc3742_ss_inc :: "u32 \<Rightarrow> cwnd \<Rightarrow> proto_error + u32 \<times> cwnd" where
  "rfc3742_ss_inc ss_cap c =
     rbind
       (if cw_value c \<le> ss_cap
        then Inr ((cwnd_inc_pct_ss (cw_params c) * cwnd_sendme_inc c + 50) div 100)
        else
          rbind (div_or_panic (cwnd_sendme_inc c * ss_cap + cw_value c) (cw_value c * 2))
            (\<lambda>q. Inr (max q 1)))
       (\<lambda>inc. Inr (inc, c\<lparr>cw_value := cw_value c + inc\<rparr>))"

definition eval_fullness :: "u32 \<Rightarrow> u32 \<Rightarrow> u32 \<Rightarrow> cwnd \<Rightarrow> cwnd" where
  "eval_fullness inflight full_gap full_minpct c =
     (if inflight + cwnd_sendme_inc c * full_gap \<ge> cw_value c then c\<lparr>cw_is_full := True\<rparr>
      else if 100 * inflight < full_minpct * cw_value c then c\<lparr>cw_is_full := False\<rparr>
      else c)"

section \<open>Round trip times\<close>

datatype rtt_error = MismatchedEstimationCall | RttPanic string

record rtt_est =
  sendme_expected_from :: "nat list"
  last_rtt :: "nat option"
  ewma_rtt :: "nat option"
  min_rtt :: "nat option"
  max_rtt :: "nat option"
  re_params :: rtt_params
  clock_stalled :: bool

definition rtt_new :: "rtt_params \<Rightarrow> rtt_est" where
  "rtt_new params =
     \<lparr>sendme_expected_from = [], last_rtt = None, ewma_rtt = None, min_rtt = None,
      max_rtt = None, re_params = params, clock_stalled = False\<rparr>"

definition rtt_is_ready :: "rtt_est \<Rightarrow> bool" where
  "rtt_is_ready r \<longleftrightarrow> \<not> clock_stalled r \<and> last_rtt r \<noteq> None"

definition as_micros :: "nat \<Rightarrow> nat" where
  "as_micros d = d div 1000"

definition usec_u32 :: "nat \<Rightarrow> u32" where
  "usec_u32 d = (if as_micros d < 2 ^ 32 then word_of_nat (as_micros d) else - 1)"

definition ewma_rtt_usec :: "rtt_est \<Rightarrow> u32 option" where
  "ewma_rtt_usec r = map_option usec_u32 (ewma_rtt r)"

definition min_rtt_usec :: "rtt_est \<Rightarrow> u32 option" where
  "min_rtt_usec r = map_option usec_u32 (min_rtt r)"

definition max_rtt_usec :: "rtt_est \<Rightarrow> u32 option" where
  "max_rtt_usec r = map_option usec_u32 (max_rtt r)"

definition expect_sendme :: "nat \<Rightarrow> rtt_est \<Rightarrow> rtt_est" where
  "expect_sendme now r = r\<lparr>sendme_expected_from := sendme_expected_from r @ [now]\<rparr>"

definition can_crosscheck_with_current_estimate :: "bool \<Rightarrow> rtt_est \<Rightarrow> bool" where
  "can_crosscheck_with_current_estimate slow r \<longleftrightarrow> \<not> slow \<and> ewma_rtt r \<noteq> None"

definition DELTA_DISCREPANCY_RATIO_MAX :: nat where
  "DELTA_DISCREPANCY_RATIO_MAX = 5000"

definition is_clock_stalled :: "nat \<Rightarrow> bool \<Rightarrow> rtt_est \<Rightarrow> bool \<times> rtt_est" where
  "is_clock_stalled raw_rtt slow r =
     (if raw_rtt = 0 then (True, r\<lparr>clock_stalled := True\<rparr>)
      else if can_crosscheck_with_current_estimate slow r then
        let ewma = the (ewma_rtt r) in
        if raw_rtt > ewma * DELTA_DISCREPANCY_RATIO_MAX then (True, r)
        else if ewma > raw_rtt * DELTA_DISCREPANCY_RATIO_MAX then (clock_stalled r, r)
        else (False, r\<lparr>clock_stalled := False\<rparr>)
      else (False, r))"

text \<open>The \<open>N\<close> of the N-EWMA, and the average itself.\<close>

definition ewma_n :: "cc_state \<Rightarrow> cwnd \<Rightarrow> rtt_params \<Rightarrow> rtt_error + u64" where
  "ewma_n st c p =
     (if in_slow_start st then Inr (max (ucast (ewma_ss_max p)) 2)
      else
        (case update_rate st c of
           Inl _ \<Rightarrow> Inl (RttPanic ''attempt to divide by zero'')
         | Inr rate \<Rightarrow> Inr (max (ucast (min (rate * ewma_cwnd_pct p div 100) (ewma_max p))) 2)))"

definition new_ewma_usec :: "u64 \<Rightarrow> u64 \<Rightarrow> u64 option \<Rightarrow> u64" where
  "new_ewma_usec n raw prev =
     (case prev of
        None \<Rightarrow> raw
      | Some p \<Rightarrow> (raw * 2 + (n - 1) * p) div (n + 1))"

definition from_micros :: "u64 \<Rightarrow> nat" where
  "from_micros u = unat u * 1000"

definition reset_min_usec :: "u32 \<Rightarrow> u64 \<Rightarrow> u64 \<Rightarrow> u64" where
  "reset_min_usec pct mx mn = ucast pct * mx div 100 + (100 - ucast pct) * mn div 100"

definition rtt_update :: "nat \<Rightarrow> cc_state \<Rightarrow> cwnd \<Rightarrow> (rtt_est, rtt_error, unit) eff" where
  "rtt_update now st c r =
     (case sendme_expected_from r of
        [] \<Rightarrow> (Inl MismatchedEstimationCall, r)
      | data_sent_at # rest \<Rightarrow>
          let raw_rtt = now - data_sent_at;
              (stalled, r1) = is_clock_stalled raw_rtt (in_slow_start st) (r\<lparr>sendme_expected_from := rest\<rparr>)
          in
          if stalled then (Inr (), r1)
          else
            let r2 = r1\<lparr>max_rtt := Some (case max_rtt r1 of None \<Rightarrow> raw_rtt | Some m \<Rightarrow> max m raw_rtt),
                       last_rtt := Some raw_rtt\<rparr>
            in
            (case ewma_n st c (re_params r2) of
               Inl e \<Rightarrow> (Inl e, r2)
             | Inr n \<Rightarrow>
                 let ewma = from_micros (new_ewma_usec n (word_of_nat (as_micros raw_rtt))
                       (map_option (\<lambda>d. word_of_nat (as_micros d)) (ewma_rtt r2)));
                     r3 = r2\<lparr>ewma_rtt := Some ewma\<rparr>
                 in
                 (case min_rtt r3 of
                    None \<Rightarrow> (Inr (), r3\<lparr>min_rtt := Some ewma\<rparr>)
                  | Some m \<Rightarrow>
                      if cw_value c = cwnd_min (cw_params c) \<and> \<not> in_slow_start st then
                        (Inr (), r3\<lparr>min_rtt := Some (from_micros
                           (reset_min_usec (rtt_reset_pct (re_params r3))
                             (word_of_nat (as_micros (max ewma m)))
                             (word_of_nat (as_micros (min ewma m)))))\<rparr>)
                      else if ewma < m then (Inr (), r3\<lparr>min_rtt := Some ewma\<rparr>)
                      else (Inr (), r3))))"

section \<open>The trait\<close>

record 'a cc_ops =
  op_uses_stream_sendme :: "'a \<Rightarrow> bool"
  op_uses_xon_xoff :: "'a \<Rightarrow> bool"
  op_is_next_cell_sendme :: "'a \<Rightarrow> bool"
  op_can_send :: "'a \<Rightarrow> bool"
  op_cwnd :: "'a \<Rightarrow> cwnd option"
  op_data_received :: "('a, proto_error, bool) eff"
  op_data_sent :: "('a, proto_error, unit) eff"
  op_sendme_received :: "rtt_est \<Rightarrow> cc_signals \<Rightarrow> ('a \<times> cc_state, proto_error, unit) eff"
  op_sendme_sent :: "('a, proto_error, unit) eff"
  op_inflight :: "'a \<Rightarrow> u32 option"
  op_algorithm :: "'a \<Rightarrow> cc_algorithm"

section \<open>Fixed windows\<close>

record fixed_window =
  fw_recvwindow :: u16
  fw_sendwindow :: u16
  fw_params :: fixed_window_params

definition FixedWindow_new :: "fixed_window_params \<Rightarrow> fixed_window" where
  "FixedWindow_new params =
     \<lparr>fw_recvwindow = wp_start CircParams, fw_sendwindow = circ_window_start params, fw_params = params\<rparr>"

definition fixed_sendme_received ::
  "rtt_est \<Rightarrow> cc_signals \<Rightarrow> (fixed_window \<times> cc_state, proto_error, unit) eff" where
  "fixed_sendme_received rtt signals s =
     (case send_put CircParams (fw_sendwindow (fst s)) of
        (r, w) \<Rightarrow> (r, ((fst s)\<lparr>fw_sendwindow := w\<rparr>, snd s)))"

definition fixed_sendme_sent :: "(fixed_window, proto_error, unit) eff" where
  "fixed_sendme_sent f =
     (case recv_put CircParams (fw_recvwindow f) of (r, w) \<Rightarrow> (r, f\<lparr>fw_recvwindow := w\<rparr>))"

definition fixed_data_received :: "(fixed_window, proto_error, bool) eff" where
  "fixed_data_received f =
     (case recv_take CircParams (fw_recvwindow f) of (r, w) \<Rightarrow> (r, f\<lparr>fw_recvwindow := w\<rparr>))"

definition fixed_data_sent :: "(fixed_window, proto_error, unit) eff" where
  "fixed_data_sent f =
     (case send_take (fw_sendwindow f) of (r, w) \<Rightarrow> (r, f\<lparr>fw_sendwindow := w\<rparr>))"

definition fixed_ops :: "fixed_window cc_ops" where
  "fixed_ops =
     \<lparr>op_uses_stream_sendme = (\<lambda>_. True),
      op_uses_xon_xoff = (\<lambda>_. False),
      op_is_next_cell_sendme = (\<lambda>f. should_record_tag CircParams (fw_sendwindow f)),
      op_can_send = (\<lambda>f. fw_sendwindow f > 0),
      op_cwnd = (\<lambda>_. None),
      op_data_received = fixed_data_received,
      op_data_sent = fixed_data_sent,
      op_sendme_received = fixed_sendme_received,
      op_sendme_sent = fixed_sendme_sent,
      op_inflight = (\<lambda>_. None),
      op_algorithm = (\<lambda>f. FixedWindowAlg (fw_params f))\<rparr>"

end
