(* ===== verification/Vegas.thy ===== *)
theory Vegas
  imports Congestion
begin

text \<open>
  The Vegas algorithm (\<open>tor-proto/src/congestion/vegas.rs\<close>) and the object
  \<open>CongestionControl\<close> of \<open>congestion.rs\<close> that puts the SENDME validator, the round trip
  estimator and the algorithm together. \<open>Vegas::sendme_received\<close> is one method of the code;
  here it is \<open>vegas_sendme_received\<close>, composed of one definition per stage of the method.
  A SENDME increment of zero, on which \<open>is_next_cell_sendme\<close> would divide by zero, is refused
  by \<open>is_sendme_inc_valid\<close> and by the range of the consensus parameter.
\<close>

section \<open>Bandwidth-delay product\<close>

definition bdp_update :: "cwnd \<Rightarrow> rtt_est \<Rightarrow> cc_signals \<Rightarrow> proto_error + u32" where
  "bdp_update c rtt signals =
     (if clock_stalled rtt then
        Inr (if channel_blocked signals
             then max (saturating_sub_u32 (cw_value c) (channel_outbound_size signals))
                    (cwnd_min (cw_params c))
             else cw_value c)
      else
        (let min_usec = (case min_rtt_usec rtt of None \<Rightarrow> - 1 | Some u \<Rightarrow> u);
             ewma_usec = (case ewma_rtt_usec rtt of None \<Rightarrow> - 1 | Some u \<Rightarrow> u)
         in div_or_panic (saturating_mul_u32 (cw_value c) min_usec) ewma_usec))"

section \<open>Vegas\<close>

record vegas =
  vg_params :: vegas_params
  vg_bdp :: u32
  vg_cwnd :: cwnd
  num_cell_until_sendme :: u32
  num_sendme_until_cwnd_update :: u32
  num_sendme_per_cwnd :: u32
  num_inflight :: u32
  is_blocked_on_chan :: bool

definition Vegas_new :: "vegas_params \<Rightarrow> cc_state \<Rightarrow> cwnd \<Rightarrow> proto_error + vegas" where
  "Vegas_new params st c =
     rbind (update_rate st c) (\<lambda>rate. Inr
       \<lparr>vg_params = params, vg_bdp = 0, vg_cwnd = c, num_cell_until_sendme = cwnd_sendme_inc c,
        num_sendme_until_cwnd_update = rate, num_sendme_per_cwnd = 0, num_inflight = 0,
        is_blocked_on_chan = False\<rparr>)"

definition vegas_is_next_cell_sendme :: "vegas \<Rightarrow> bool" where
  "vegas_is_next_cell_sendme v \<longleftrightarrow> num_inflight v mod cwnd_sendme_inc (vg_cwnd v) = 0"

definition vegas_can_send :: "vegas \<Rightarrow> bool" where
  "vegas_can_send v \<longleftrightarrow> num_inflight v < cw_value (vg_cwnd v)"

subsection \<open>The stages of \<open>sendme_received\<close>\<close>

definition vegas_count_sendme :: "vegas \<Rightarrow> vegas" where
  "vegas_count_sendme v =
     v\<lparr>num_sendme_until_cwnd_update := saturating_sub_u32 (num_sendme_until_cwnd_update v) 1,
       num_sendme_per_cwnd := saturating_sub_u32 (num_sendme_per_cwnd v) 1\<rparr>"

definition vegas_note_blocked :: "rtt_est \<Rightarrow> cc_signals \<Rightarrow> vegas \<Rightarrow> vegas" where
  "vegas_note_blocked rtt signals v =
     (let v1 =
        (if rtt_is_ready rtt then
           if channel_blocked signals then
             (if \<not> is_blocked_on_chan v then v\<lparr>num_sendme_until_cwnd_update := 0\<rparr> else v)
           else
             (if is_blocked_on_chan v then v\<lparr>num_sendme_until_cwnd_update := 0\<rparr> else v)
         else v)
      in v1\<lparr>is_blocked_on_chan := channel_blocked signals\<rparr>)"

definition vegas_ack_inflight :: "vegas \<Rightarrow> vegas" where
  "vegas_ack_inflight v =
     v\<lparr>num_inflight := saturating_sub_u32 (num_inflight v) (cwnd_sendme_inc (vg_cwnd v))\<rparr>"

definition vegas_slow_start :: "u32 \<Rightarrow> vegas \<Rightarrow> proto_error + cwnd \<times> cc_state" where
  "vegas_slow_start queue_use v =
     rbind
       (if queue_use < vq_gamma (cell_in_queue_params (vg_params v)) \<and> \<not> is_blocked_on_chan v then
          if cw_is_full (vg_cwnd v) then
            rbind (rfc3742_ss_inc (vq_ss_cwnd_cap (cell_in_queue_params (vg_params v))) (vg_cwnd v))
              (\<lambda>(inc, c).
                 rbind (sendme_per_cwnd c) (\<lambda>per.
                   Inr (c, if inc * per \<le> cwnd_inc (cw_params c) * cwnd_inc_rate (cw_params c)
                           then Steady else SlowStart)))
          else Inr (vg_cwnd v, SlowStart)
        else
          Inr (cwnd_set (vg_bdp v + vq_gamma (cell_in_queue_params (vg_params v))) (vg_cwnd v), Steady))
       (\<lambda>(c, st).
          if cw_value c \<ge> ss_cwnd_max (vg_params v)
          then Inr (cwnd_set (ss_cwnd_max (vg_params v)) c, Steady)
          else Inr (c, st))"

definition vegas_steady :: "u32 \<Rightarrow> vegas \<Rightarrow> cwnd" where
  "vegas_steady queue_use v =
     (if queue_use > vq_delta (cell_in_queue_params (vg_params v)) then
        cwnd_set (vg_bdp v + vq_delta (cell_in_queue_params (vg_params v)) - cwnd_inc (cw_params (vg_cwnd v)))
          (vg_cwnd v)
      else if queue_use > vq_beta (cell_in_queue_params (vg_params v)) \<or> is_blocked_on_chan v then
        cwnd_dec (vg_cwnd v)
      else if cw_is_full (vg_cwnd v) \<and> queue_use < vq_alpha (cell_in_queue_params (vg_params v)) then
        cwnd_increase (vg_cwnd v)
      else vg_cwnd v)"

definition vegas_reset_counters :: "cc_state \<Rightarrow> vegas \<Rightarrow> proto_error + vegas" where
  "vegas_reset_counters st v =
     rbind (if num_sendme_until_cwnd_update v = 0
            then rbind (update_rate st (vg_cwnd v)) (\<lambda>r. Inr (v\<lparr>num_sendme_until_cwnd_update := r\<rparr>))
            else Inr v)
       (\<lambda>v. if num_sendme_per_cwnd v = 0
            then rbind (sendme_per_cwnd (vg_cwnd v)) (\<lambda>p. Inr (v\<lparr>num_sendme_per_cwnd := p\<rparr>))
            else Inr v)"

definition vegas_reset_full :: "cc_state \<Rightarrow> vegas \<Rightarrow> proto_error + vegas" where
  "vegas_reset_full st v =
     (if cwnd_full_per_cwnd (vg_params v) \<noteq> 0 then
        rbind (sendme_per_cwnd (vg_cwnd v)) (\<lambda>p.
          Inr (if num_sendme_per_cwnd v = p then v\<lparr>vg_cwnd := cwnd_reset_full (vg_cwnd v)\<rparr> else v))
      else
        rbind (update_rate st (vg_cwnd v)) (\<lambda>r.
          Inr (if num_sendme_until_cwnd_update v = r then v\<lparr>vg_cwnd := cwnd_reset_full (vg_cwnd v)\<rparr> else v)))"

definition vegas_adjust :: "vegas \<Rightarrow> cc_state \<Rightarrow> proto_error + cwnd \<times> cc_state" where
  "vegas_adjust v st =
     (let queue_use = saturating_sub_u32 (cw_value (vg_cwnd v)) (vg_bdp v);
          v = v\<lparr>vg_cwnd := eval_fullness (num_inflight v) (cwnd_full_gap (vg_params v))
                   (cwnd_full_min_pct (vg_params v)) (vg_cwnd v)\<rparr>
      in
      if in_slow_start st then vegas_slow_start queue_use v
      else if num_sendme_until_cwnd_update v = 0 then Inr (vegas_steady queue_use v, st)
      else Inr (vg_cwnd v, st))"

definition vegas_run :: "vegas \<Rightarrow> cc_state \<Rightarrow> proto_error + vegas \<times> cc_state" where
  "vegas_run v st =
     rbind (vegas_adjust v st) (\<lambda>(c, st').
       rbind (vegas_reset_counters st' (v\<lparr>vg_cwnd := c\<rparr>)) (\<lambda>v1.
         rbind (vegas_reset_full st' v1) (\<lambda>v2. Inr (vegas_ack_inflight v2, st'))))"

definition vegas_sendme_received ::
  "rtt_est \<Rightarrow> cc_signals \<Rightarrow> (vegas \<times> cc_state, proto_error, unit) eff" where
  "vegas_sendme_received rtt signals s =
     (let v = vegas_count_sendme (fst s) in
      case bdp_update (vg_cwnd v) rtt signals of
        Inl e \<Rightarrow> (Inl e, (v, snd s))
      | Inr bdp \<Rightarrow>
          let v1 = vegas_note_blocked rtt signals (v\<lparr>vg_bdp := bdp\<rparr>) in
          if \<not> rtt_is_ready rtt \<and> \<not> is_blocked_on_chan v1
          then (Inr (), (vegas_ack_inflight v1, snd s))
          else
            (case vegas_run v1 (snd s) of
               Inl e \<Rightarrow> (Inl e, (v1, snd s))
             | Inr s' \<Rightarrow> (Inr (), s')))"

subsection \<open>The other methods\<close>

definition vegas_sendme_sent :: "(vegas, proto_error, unit) eff" where
  "vegas_sendme_sent v = (Inr (), v\<lparr>num_cell_until_sendme := cwnd_sendme_inc (vg_cwnd v)\<rparr>)"

definition vegas_data_received :: "(vegas, proto_error, bool) eff" where
  "vegas_data_received v =
     (if num_cell_until_sendme v = 0 then (Inr False, v)
      else
        (let n = saturating_sub_u32 (num_cell_until_sendme v) 1 in
         (Inr (n = 0), v\<lparr>num_cell_until_sendme := n\<rparr>)))"

definition vegas_data_sent :: "(vegas, proto_error, unit) eff" where
  "vegas_data_sent v = (Inr (), v\<lparr>num_inflight := saturating_add_u32 (num_inflight v) 1\<rparr>)"

definition vegas_ops :: "vegas cc_ops" where
  "vegas_ops =
     \<lparr>op_uses_stream_sendme = (\<lambda>_. False),
      op_uses_xon_xoff = (\<lambda>_. True),
      op_is_next_cell_sendme = vegas_is_next_cell_sendme,
      op_can_send = vegas_can_send,
      op_cwnd = (\<lambda>v. Some (vg_cwnd v)),
      op_data_received = vegas_data_received,
      op_data_sent = vegas_data_sent,
      op_sendme_received = vegas_sendme_received,
      op_sendme_sent = vegas_sendme_sent,
      op_inflight = (\<lambda>v. Some (num_inflight v)),
      op_algorithm = (\<lambda>v. VegasAlg (vg_params v))\<rparr>"

section \<open>CongestionControl\<close>

record 'a congestion_control =
  cc_st :: cc_state
  cc_tags :: "sendme_tag list"
  cc_rtt :: rtt_est
  cc_alg :: 'a

definition cc_new :: "'a \<Rightarrow> cc_params \<Rightarrow> 'a congestion_control" where
  "cc_new alg params =
     \<lparr>cc_st = SlowStart, cc_tags = [], cc_rtt = rtt_new (ccp_rtt_params params), cc_alg = alg\<rparr>"

text \<open>\<open>CongestionControl::new\<close> on the two algorithms.\<close>

definition cc_new_fixed :: "fixed_window_params \<Rightarrow> cc_params \<Rightarrow> fixed_window congestion_control" where
  "cc_new_fixed p params = cc_new (FixedWindow_new p) params"

definition cc_new_vegas :: "vegas_params \<Rightarrow> cc_params \<Rightarrow> proto_error + vegas congestion_control" where
  "cc_new_vegas p params =
     rbind (Vegas_new p SlowStart (cwnd_new (ccp_cwnd_params params))) (\<lambda>v. Inr (cc_new v params))"

definition rtt_error_to_proto :: "rtt_error \<Rightarrow> proto_error" where
  "rtt_error_to_proto e =
     (case e of
        MismatchedEstimationCall \<Rightarrow> ProtoViolation ''Informed of a SENDME we weren't expecting''
      | RttPanic m \<Rightarrow> ProtoPanic m)"

definition note_sendme_received ::
  "'a cc_ops \<Rightarrow> nat \<Rightarrow> sendme_tag \<Rightarrow> cc_signals \<Rightarrow> ('a congestion_control, proto_error, unit) eff" where
  "note_sendme_received ops now tag signals =
     ebind (\<lambda>cc. case validator_validate (Some tag) (cc_tags cc) of (r, t) \<Rightarrow> (r, cc\<lparr>cc_tags := t\<rparr>)) (\<lambda>_.
     ebind (\<lambda>cc. case op_cwnd ops (cc_alg cc) of
                   None \<Rightarrow> (Inr (), cc)
                 | Some c \<Rightarrow>
                     (case emap_err rtt_error_to_proto (rtt_update now (cc_st cc) c) (cc_rtt cc) of
                        (r, rtt) \<Rightarrow> (r, cc\<lparr>cc_rtt := rtt\<rparr>))) (\<lambda>_.
       (\<lambda>cc. case op_sendme_received ops (cc_rtt cc) signals (cc_alg cc, cc_st cc) of
               (r, a, st) \<Rightarrow> (r, cc\<lparr>cc_alg := a, cc_st := st\<rparr>))))"

definition note_sendme_sent :: "'a cc_ops \<Rightarrow> ('a congestion_control, proto_error, unit) eff" where
  "note_sendme_sent ops cc =
     (case op_sendme_sent ops (cc_alg cc) of (r, a) \<Rightarrow> (r, cc\<lparr>cc_alg := a\<rparr>))"

definition note_data_received :: "'a cc_ops \<Rightarrow> ('a congestion_control, proto_error, bool) eff" where
  "note_data_received ops cc =
     (case op_data_received ops (cc_alg cc) of (r, a) \<Rightarrow> (r, cc\<lparr>cc_alg := a\<rparr>))"

definition note_data_sent ::
  "'a cc_ops \<Rightarrow> nat \<Rightarrow> sendme_tag \<Rightarrow> ('a congestion_control, proto_error, unit) eff" where
  "note_data_sent ops now tag =
     ebind (\<lambda>cc. case op_data_sent ops (cc_alg cc) of (r, a) \<Rightarrow> (r, cc\<lparr>cc_alg := a\<rparr>)) (\<lambda>_ cc.
       (Inr (),
        if op_is_next_cell_sendme ops (cc_alg cc) then
          (let cc1 = cc\<lparr>cc_tags := validator_record tag (cc_tags cc)\<rparr> in
           if op_cwnd ops (cc_alg cc1) \<noteq> None
           then cc1\<lparr>cc_rtt := expect_sendme now (cc_rtt cc1)\<rparr> else cc1)
        else cc))"

definition cc_can_send :: "'a cc_ops \<Rightarrow> 'a congestion_control \<Rightarrow> bool" where
  "cc_can_send ops cc = op_can_send ops (cc_alg cc)"

end
