(* ===== verification/Congestion_Laws.thy ===== *)
theory Congestion_Laws
  imports Vegas "HOL-Library.Sublist"
begin

text \<open>
  The contract of the trait \<open>CongestionControlAlgorithm\<close>, what \<open>CongestionControl\<close> guarantees on
  top of it, and the proofs that both algorithms of the code keep the contract.

  The contract is the locale \<open>cc_contract\<close>. An algorithm acknowledges cells in groups of
  \<open>period\<close>; \<open>phase\<close> is the position in the group of the next cell and \<open>owed\<close> the number of
  groups sent and not yet acknowledged. A client that only sends while \<open>can_send\<close> holds gets:
  the tags recorded for authentication are those of every \<open>period\<close>-th cell, a SENDME is
  refused as a protocol violation exactly if it does not carry the oldest of them, and the
  queue of time stamps never runs out of step with the queue of tags.
\<close>

section \<open>Every k-th element\<close>

definition every_nth :: "nat \<Rightarrow> 'a list \<Rightarrow> 'a list" where
  "every_nth k xs = map (\<lambda>i. xs ! (k * i + k - 1)) [0..<length xs div k]"

lemma every_nth_Nil [simp]: "every_nth k [] = []"
  by (simp add: every_nth_def)

lemma length_every_nth [simp]: "length (every_nth k xs) = length xs div k"
  by (simp add: every_nth_def)

lemma every_nth_index_less: "0 < k \<Longrightarrow> i < n div k \<Longrightarrow> k * i + k - 1 < (n::nat)"
proof -
  assume k: "0 < k" and i: "i < n div k"
  have "k * Suc i \<le> k * (n div k)" using i by (intro mult_le_mono2) simp
  also have "\<dots> \<le> n" by simp
  finally show ?thesis using k by simp
qed

lemma every_nth_append_keep:
  assumes k: "0 < k"
  shows "map (\<lambda>i. (xs @ ys) ! (k * i + k - 1)) [0..<length xs div k] = every_nth k xs"
  using every_nth_index_less [OF k] by (auto simp: every_nth_def nth_append)

lemma every_nth_snoc:
  assumes k: "0 < k"
  shows "every_nth k (xs @ [x]) =
    (if Suc (length xs) mod k = 0 then every_nth k xs @ [x] else every_nth k xs)"
proof (cases "Suc (length xs) mod k = 0")
  case True
  then have d: "Suc (length xs) div k = Suc (length xs div k)" by (simp add: div_Suc)
  have "k * (length xs div k) + k - 1 = length xs"
  proof -
    have "k * (Suc (length xs) div k) = Suc (length xs)" using True by auto
    then show ?thesis unfolding d by simp
  qed
  then show ?thesis
    using True every_nth_append_keep [OF k, of xs "[x]"]
    by (simp add: every_nth_def [of k "xs @ [x]"] d)
next
  case False
  then have "Suc (length xs) div k = length xs div k" by (simp add: div_Suc)
  then show ?thesis
    using False every_nth_append_keep [OF k, of xs "[x]"]
    by (simp add: every_nth_def [of k "xs @ [x]"])
qed

lemma every_nth_prefix: "0 < k \<Longrightarrow> prefix (every_nth k xs) (every_nth k (xs @ ys))"
proof (induction ys rule: rev_induct)
  case Nil
  show ?case by simp
next
  case (snoc y ys)
  then show ?case
    using every_nth_snoc [of k "xs @ ys" y] by (auto intro: prefix_prefix)
qed

section \<open>A congestion controller at work\<close>

text \<open>
  The histories of a controller: the tags of all cells it sent, in order, and the tags of
  the SENDMEs it accepted. It sends only while \<open>can_send\<close> holds.
\<close>

inductive cc_trace ::
  "'a cc_ops \<Rightarrow> 'a congestion_control \<Rightarrow> sendme_tag list \<Rightarrow> sendme_tag list \<Rightarrow> 'a congestion_control \<Rightarrow> bool"
  for ops cc0 where
  Init: "cc_trace ops cc0 [] [] cc0"
| DataSent: "cc_trace ops cc0 S A cc \<Longrightarrow> cc_can_send ops cc \<Longrightarrow>
    note_data_sent ops now tag cc = (Inr (), cc') \<Longrightarrow> cc_trace ops cc0 (S @ [tag]) A cc'"
| SendmeReceived: "cc_trace ops cc0 S A cc \<Longrightarrow>
    note_sendme_received ops now tag signals cc = (Inr (), cc') \<Longrightarrow> cc_trace ops cc0 S (A @ [tag]) cc'"
| DataReceived: "cc_trace ops cc0 S A cc \<Longrightarrow>
    note_data_received ops cc = (Inr b, cc') \<Longrightarrow> cc_trace ops cc0 S A cc'"
| SendmeSent: "cc_trace ops cc0 S A cc \<Longrightarrow>
    note_sendme_sent ops cc = (Inr (), cc') \<Longrightarrow> cc_trace ops cc0 S A cc'"

definition violation :: "proto_error + 'b \<Rightarrow> bool" where
  "violation r = (case r of Inl (ProtoPanic _) \<Rightarrow> False | Inl _ \<Rightarrow> True | Inr _ \<Rightarrow> False)"

lemma violation_simps [simp]:
  "violation (Inr x) = False" "violation (Inl (ProtoPanic m)) = False"
  "violation (Inl (ProtoViolation m)) = True" "violation (Inl (ProtoInternal m)) = True"
  "violation (Inl (ProtoBytesErr b m)) = True" "violation (Inl (ProtoBadApiUsage m)) = True"
  "violation (Inl (ProtoStreamProto m)) = True" "violation (Inl ProtoIdRangeFull) = True" "violation (Inl ProtoNoSuchHop) = True" "violation (Inl (ProtoIdUnavailable i)) = True"
  by (simp_all add: violation_def)

text \<open>\<open>RoundtripTimeEstimator::update\<close> takes one time stamp off the queue, and fails only without one.\<close>

lemma rtt_update_queue:
  assumes "sendme_expected_from r \<noteq> []"
  shows "sendme_expected_from (snd (rtt_update now st c r)) = tl (sendme_expected_from r)"
    and "fst (rtt_update now st c r) \<noteq> Inl MismatchedEstimationCall"
  using assms
  by (auto simp: rtt_update_def is_clock_stalled_def Let_def ewma_n_def
      split: list.splits option.splits sum.splits prod.splits if_splits)

locale cc_contract =
  fixes ops :: "'a cc_ops"
    and good :: "'a \<Rightarrow> bool"
    and period phase owed :: "'a \<Rightarrow> nat"
  assumes period_pos: "good a \<Longrightarrow> 0 < period a"
    and next_iff: "good a \<Longrightarrow> op_is_next_cell_sendme ops a \<longleftrightarrow> phase a = 0"
    and data_sent: "good a \<Longrightarrow> op_can_send ops a \<Longrightarrow> \<exists>a'. op_data_sent ops a = (Inr (), a') \<and>
      good a' \<and> period a' = period a \<and> phase a' = (phase a + 1) mod period a \<and>
      owed a' = owed a + (if phase a' = 0 then 1 else 0) \<and> (op_cwnd ops a' = None \<longleftrightarrow> op_cwnd ops a = None)"
    and sendme_ok: "good a \<Longrightarrow> 0 < owed a \<Longrightarrow>
      op_sendme_received ops rtt signals (a, st) = (Inr (), (a', st')) \<Longrightarrow>
      good a' \<and> period a' = period a \<and> phase a' = phase a \<and> owed a' = owed a - 1 \<and>
      (op_cwnd ops a' = None \<longleftrightarrow> op_cwnd ops a = None)"
    and sendme_err: "good a \<Longrightarrow> 0 < owed a \<Longrightarrow>
      \<not> violation (fst (op_sendme_received ops rtt signals (a, st)))"
    and data_received: "good a \<Longrightarrow> op_data_received ops a = (Inr b, a') \<Longrightarrow>
      good a' \<and> period a' = period a \<and> phase a' = phase a \<and> owed a' = owed a \<and>
      (op_cwnd ops a' = None \<longleftrightarrow> op_cwnd ops a = None)"
    and sendme_sent: "good a \<Longrightarrow> op_sendme_sent ops a = (Inr (), a') \<Longrightarrow>
      good a' \<and> period a' = period a \<and> phase a' = phase a \<and> owed a' = owed a \<and>
      (op_cwnd ops a' = None \<longleftrightarrow> op_cwnd ops a = None)"
begin

definition tracked :: "sendme_tag list \<Rightarrow> sendme_tag list \<Rightarrow> 'a congestion_control \<Rightarrow> bool" where
  "tracked S A cc \<longleftrightarrow>
     good (cc_alg cc) \<and> phase (cc_alg cc) = length S mod period (cc_alg cc) \<and>
     A @ cc_tags cc = every_nth (period (cc_alg cc)) S \<and> length (cc_tags cc) = owed (cc_alg cc) \<and>
     (op_cwnd ops (cc_alg cc) \<noteq> None \<longrightarrow>
        length (sendme_expected_from (cc_rtt cc)) = length (cc_tags cc))"

lemma note_data_sent_inv:
  assumes inv: "tracked S A cc" and can: "cc_can_send ops cc"
    and run: "note_data_sent ops now tag cc = (Inr (), cc')"
  shows "tracked (S @ [tag]) A cc' \<and> period (cc_alg cc') = period (cc_alg cc)"
proof -
  have good: "good (cc_alg cc)" using inv by (simp add: tracked_def)
  obtain a' where a': "op_data_sent ops (cc_alg cc) = (Inr (), a')" "good a'"
    "period a' = period (cc_alg cc)" "phase a' = (phase (cc_alg cc) + 1) mod period (cc_alg cc)"
    "owed a' = owed (cc_alg cc) + (if phase a' = 0 then 1 else 0)"
    "op_cwnd ops a' = None \<longleftrightarrow> op_cwnd ops (cc_alg cc) = None"
    using data_sent [OF good can [unfolded cc_can_send_def]] by (elim exE conjE) (rule that)
  have ph: "phase a' = Suc (length S) mod period a'"
    using inv by (simp add: a'(3,4) tracked_def mod_Suc_eq)
  have cc': "cc' = (if phase a' = 0 then
      (let cc1 = cc\<lparr>cc_alg := a', cc_tags := cc_tags cc @ [tag]\<rparr> in
       if op_cwnd ops a' \<noteq> None then cc1\<lparr>cc_rtt := expect_sendme now (cc_rtt cc)\<rparr> else cc1)
      else cc\<lparr>cc_alg := a'\<rparr>)"
    using run by (simp add: note_data_sent_def ebind_def a'(1) next_iff [OF a'(2)] validator_record_def
        Let_def split: if_splits)
  have snoc: "every_nth (period a') (S @ [tag]) =
      (if phase a' = 0 then every_nth (period a') S @ [tag] else every_nth (period a') S)"
    unfolding ph by (rule every_nth_snoc [OF period_pos [OF a'(2)]])
  show ?thesis
    using inv a'(2,3,5,6) ph snoc unfolding cc' tracked_def
    by (auto simp: Let_def expect_sendme_def)
qed

lemma received_inv:
  assumes "tracked S A cc" "note_data_received ops cc = (Inr b, cc')"
  shows "tracked S A cc' \<and> period (cc_alg cc') = period (cc_alg cc)"
proof -
  obtain a' where a': "op_data_received ops (cc_alg cc) = (Inr b, a')" "cc' = cc\<lparr>cc_alg := a'\<rparr>"
    using assms(2) by (auto simp: note_data_received_def split: prod.splits)
  show ?thesis using assms(1) data_received [OF _ a'(1)] by (simp add: tracked_def a'(2))
qed

lemma sendme_sent_inv:
  assumes "tracked S A cc" "note_sendme_sent ops cc = (Inr (), cc')"
  shows "tracked S A cc' \<and> period (cc_alg cc') = period (cc_alg cc)"
proof -
  obtain a' where a': "op_sendme_sent ops (cc_alg cc) = (Inr (), a')" "cc' = cc\<lparr>cc_alg := a'\<rparr>"
    using assms(2) by (auto simp: note_sendme_sent_def split: prod.splits)
  show ?thesis using assms(1) sendme_sent [OF _ a'(1)] by (simp add: tracked_def a'(2))
qed

text \<open>The middle stage of \<open>note_sendme_received\<close>: the time stamp of the acknowledged cell is used up.\<close>

definition rtt_stage :: "nat \<Rightarrow> ('a congestion_control, proto_error, unit) eff" where
  "rtt_stage now cc = (case op_cwnd ops (cc_alg cc) of
       None \<Rightarrow> (Inr (), cc)
     | Some c \<Rightarrow>
         (case emap_err rtt_error_to_proto (rtt_update now (cc_st cc) c) (cc_rtt cc) of
            (r, rtt) \<Rightarrow> (r, cc\<lparr>cc_rtt := rtt\<rparr>)))"

lemma rtt_stage_queue:
  assumes "op_cwnd ops (cc_alg cc) \<noteq> None \<longrightarrow> sendme_expected_from (cc_rtt cc) \<noteq> []"
  shows "\<not> violation (fst (rtt_stage now cc))"
    and "\<exists>rtt. snd (rtt_stage now cc) = cc\<lparr>cc_rtt := rtt\<rparr> \<and>
      (op_cwnd ops (cc_alg cc) \<noteq> None \<longrightarrow>
        sendme_expected_from rtt = tl (sendme_expected_from (cc_rtt cc)))"
proof -
  show "\<not> violation (fst (rtt_stage now cc))"
    using assms rtt_update_queue(2) [of "cc_rtt cc" now "cc_st cc"]
    by (auto simp: rtt_stage_def emap_err_def rtt_error_to_proto_def
        split: option.splits prod.splits sum.splits rtt_error.splits)
      (metis fst_conv)
  show "\<exists>rtt. snd (rtt_stage now cc) = cc\<lparr>cc_rtt := rtt\<rparr> \<and>
      (op_cwnd ops (cc_alg cc) \<noteq> None \<longrightarrow>
        sendme_expected_from rtt = tl (sendme_expected_from (cc_rtt cc)))"
  proof (cases "op_cwnd ops (cc_alg cc)")
    case None
    then show ?thesis by (intro exI [of _ "cc_rtt cc"]) (simp add: rtt_stage_def)
  next
    case (Some c)
    have "snd (rtt_stage now cc) = cc\<lparr>cc_rtt := snd (rtt_update now (cc_st cc) c (cc_rtt cc))\<rparr>"
      by (auto simp: rtt_stage_def Some emap_err_def split: prod.splits sum.splits)
    then show ?thesis using Some assms rtt_update_queue(1) by blast
  qed
qed

lemma note_sendme_received_stages:
  "note_sendme_received ops now tag signals cc =
     (case validator_validate (Some tag) (cc_tags cc) of
        (Inl e, t) \<Rightarrow> (Inl e, cc\<lparr>cc_tags := t\<rparr>)
      | (Inr _, t) \<Rightarrow>
          (case rtt_stage now (cc\<lparr>cc_tags := t\<rparr>) of
             (Inl e, cc2) \<Rightarrow> (Inl e, cc2)
           | (Inr _, cc2) \<Rightarrow>
               (case op_sendme_received ops (cc_rtt cc2) signals (cc_alg cc2, cc_st cc2) of
                  (r, a, st) \<Rightarrow> (r, cc2\<lparr>cc_alg := a, cc_st := st\<rparr>))))"
  by (simp add: note_sendme_received_def rtt_stage_def ebind_def split: prod.splits sum.splits)

lemma sendme_wrong_tag:
  assumes "cc_tags cc = [] \<or> hd (cc_tags cc) \<noteq> tag"
  shows "violation (fst (note_sendme_received ops now tag signals cc))"
  using assms
  by (auto simp: note_sendme_received_stages validator_validate_def split: list.splits)

lemma sendme_right_tag:
  assumes inv: "tracked S A cc" and tags: "cc_tags cc = tag # rest"
  shows "\<not> violation (fst (note_sendme_received ops now tag signals cc))"
    and "note_sendme_received ops now tag signals cc = (Inr (), cc') \<Longrightarrow>
      tracked S (A @ [tag]) cc' \<and> period (cc_alg cc') = period (cc_alg cc)"
proof -
  let ?cc1 = "cc\<lparr>cc_tags := rest\<rparr>"
  have good: "good (cc_alg cc)" and owed: "owed (cc_alg cc) = Suc (length rest)"
    using inv tags by (simp_all add: tracked_def)
  have q: "op_cwnd ops (cc_alg ?cc1) \<noteq> None \<longrightarrow> sendme_expected_from (cc_rtt ?cc1) \<noteq> []"
    using inv tags by (auto simp: tracked_def)
  obtain rtt where rtt: "snd (rtt_stage now ?cc1) = ?cc1\<lparr>cc_rtt := rtt\<rparr>"
    "op_cwnd ops (cc_alg cc) \<noteq> None \<longrightarrow> sendme_expected_from rtt = tl (sendme_expected_from (cc_rtt cc))"
    using rtt_stage_queue(2) [OF q] by auto
  have eq: "note_sendme_received ops now tag signals cc =
      (case fst (rtt_stage now ?cc1) of
         Inl e \<Rightarrow> (Inl e, ?cc1\<lparr>cc_rtt := rtt\<rparr>)
       | Inr _ \<Rightarrow> (case op_sendme_received ops rtt signals (cc_alg cc, cc_st cc) of
             (r, a, st) \<Rightarrow> (r, ?cc1\<lparr>cc_rtt := rtt, cc_alg := a, cc_st := st\<rparr>)))"
    using rtt(1)
    by (auto simp: note_sendme_received_stages validator_validate_def tags split: prod.splits sum.splits)
  show "\<not> violation (fst (note_sendme_received ops now tag signals cc))"
    using rtt_stage_queue(1) [OF q, of now] sendme_err [OF good, of rtt signals "cc_st cc"] owed
    by (auto simp: eq split: sum.splits prod.splits)
  assume "note_sendme_received ops now tag signals cc = (Inr (), cc')"
  then obtain a st where a: "op_sendme_received ops rtt signals (cc_alg cc, cc_st cc) = (Inr (), (a, st))"
    "cc' = ?cc1\<lparr>cc_rtt := rtt, cc_alg := a, cc_st := st\<rparr>"
    by (auto simp: eq split: sum.splits prod.splits)
  have "good a \<and> period a = period (cc_alg cc) \<and> phase a = phase (cc_alg cc) \<and>
      owed a = owed (cc_alg cc) - 1 \<and> (op_cwnd ops a = None \<longleftrightarrow> op_cwnd ops (cc_alg cc) = None)"
    using owed by (intro sendme_ok [OF good _ a(1)]) simp
  then show "tracked S (A @ [tag]) cc' \<and> period (cc_alg cc') = period (cc_alg cc)"
    using inv tags rtt(2) by (auto simp: tracked_def a(2) owed)
qed

lemma sendme_accept_tag:
  assumes "note_sendme_received ops now tag signals cc = (Inr (), cc')"
  obtains rest where "cc_tags cc = tag # rest"
  using sendme_wrong_tag [of cc tag now signals] assms by (cases "cc_tags cc") auto

lemma trace_tracked:
  assumes start: "tracked [] [] cc0" and tr: "cc_trace ops cc0 S A cc"
  shows "tracked S A cc \<and> period (cc_alg cc) = period (cc_alg cc0)"
  using tr
proof (induction rule: cc_trace.induct)
  case Init
  show ?case using start by simp
next
  case (DataSent S A cc now tag cc')
  then show ?case using note_data_sent_inv by metis
next
  case (SendmeReceived S A cc now tag signals cc')
  obtain rest where "cc_tags cc = tag # rest" by (rule sendme_accept_tag [OF SendmeReceived.hyps(2)])
  then show ?case
    using sendme_right_tag(2) [OF conjunct1 [OF SendmeReceived.IH] _ SendmeReceived.hyps(2)]
      SendmeReceived.IH by simp
next
  case (DataReceived S A cc b cc')
  then show ?case using received_inv by metis
next
  case (SendmeSent S A cc cc')
  then show ?case using sendme_sent_inv by metis
qed

lemma fresh_tracked:
  assumes "good a" "phase a = 0" "owed a = 0"
  shows "tracked [] [] (cc_new a params)"
  using assms by (simp add: tracked_def cc_new_def rtt_new_def)

text \<open>What a client gets.\<close>

lemma trace_tags:
  assumes "good a" "phase a = 0" "owed a = 0" "cc_trace ops (cc_new a params) S A cc"
  shows "A @ cc_tags cc = every_nth (period a) S" "length (cc_tags cc) = owed (cc_alg cc)"
    "tracked S A cc" "period (cc_alg cc) = period a"
  using trace_tracked [OF fresh_tracked [OF assms(1-3)] assms(4)]
  by (simp_all add: tracked_def cc_new_def)

lemma trace_authentication:
  assumes "good a" "phase a = 0" "owed a = 0" "cc_trace ops (cc_new a params) S A cc"
  shows "violation (fst (note_sendme_received ops now tag signals cc)) \<longleftrightarrow>
    \<not> prefix (A @ [tag]) (every_nth (period a) S)"
proof -
  note tags = trace_tags [OF assms]
  have "prefix (A @ [tag]) (every_nth (period a) S) \<longleftrightarrow> (\<exists>rest. cc_tags cc = tag # rest)"
    unfolding tags(1) [symmetric] by (auto simp: prefix_def)
  then show ?thesis
    using sendme_right_tag(1) [OF tags(3)] sendme_wrong_tag [of cc tag now signals]
    by (cases "cc_tags cc") auto
qed

end

section \<open>Fixed windows keep the contract\<close>

text \<open>Groups of 100 cells that still fit, counted from above.\<close>

definition groups :: "u16 \<Rightarrow> nat" where
  "groups w = (unat w + 99) div 100"

definition fixed_good :: "fixed_window \<Rightarrow> bool" where
  "fixed_good f \<longleftrightarrow> unat (circ_window_start (fw_params f)) \<le> 1000 \<and>
     groups (fw_sendwindow f) \<le> groups (circ_window_start (fw_params f))"

definition fixed_phase :: "fixed_window \<Rightarrow> nat" where
  "fixed_phase f = (100 - unat (fw_sendwindow f) mod 100) mod 100"

definition fixed_owed :: "fixed_window \<Rightarrow> nat" where
  "fixed_owed f = groups (circ_window_start (fw_params f)) - groups (fw_sendwindow f)"

lemma round_up_div:
  fixes m :: nat
  shows "(m + 99) div 100 = (if m mod 100 = 0 then m div 100 else m div 100 + 1)"
proof -
  define q r where "q = m div 100" and "r = m mod 100"
  have m: "m = 100 * q + r" and r: "r < 100" by (simp_all add: q_def r_def)
  have "(100 * q + r + 99) div 100 = q + (r + 99) div 100" by simp
  moreover have "(r + 99) div 100 = (if r = 0 then 0 else 1)" using r by auto
  ultimately show ?thesis using r unfolding m by simp
qed

lemma groups_pred:
  assumes "w \<noteq> 0"
  shows "groups (w - 1) = (if (unat w - 1) mod 100 = 0 then groups w - 1 else groups w)"
    and "0 < groups w"
proof -
  have "0 < unat w" using assms by (simp add: unat_gt_0)
  then obtain m where m: "unat w = Suc m" by (cases "unat w") auto
  have w: "groups w = m div 100 + 1"
    by (simp add: groups_def m)
  show "0 < groups w" by (simp add: w)
  show "groups (w - 1) = (if (unat w - 1) mod 100 = 0 then groups w - 1 else groups w)"
    unfolding w unfolding groups_def unat_minus_1 [OF assms] m by (simp add: round_up_div)
qed

lemma complement_mod_zero: "(100 - x mod 100) mod 100 = 0 \<longleftrightarrow> x mod 100 = (0::nat)"
proof -
  have "x mod 100 < 100" by simp
  then show ?thesis by (cases "x mod 100 = 0") auto
qed

lemma complement_mod_pred:
  assumes "0 < (x::nat)"
  shows "(100 - (x - 1) mod 100) mod 100 = ((100 - x mod 100) mod 100 + 1) mod 100"
proof -
  obtain m where x: "x = Suc m" using assms by (cases x) auto
  have r: "m mod 100 < 100" by simp
  show ?thesis
  proof (cases "m mod 100 = 99")
    case True
    then show ?thesis by (simp add: x mod_Suc)
  next
    case False
    then show ?thesis using r by (cases "m mod 100 = 0") (auto simp: x mod_Suc)
  qed
qed

lemma fixed_data_sent_law:
  assumes good: "fixed_good f" and can: "fw_sendwindow f > 0"
  shows "\<exists>f'. fixed_data_sent f = (Inr (), f') \<and> fixed_good f' \<and>
    fixed_phase f' = (fixed_phase f + 1) mod 100 \<and>
    fixed_owed f' = fixed_owed f + (if fixed_phase f' = 0 then 1 else 0)"
proof -
  let ?w = "fw_sendwindow f" and ?f' = "f\<lparr>fw_sendwindow := fw_sendwindow f - 1\<rparr>"
  have nz: "?w \<noteq> 0" and pos: "0 < unat ?w" using can by (auto simp: word_less_nat_alt)
  have ph: "fixed_phase ?f' = (fixed_phase f + 1) mod 100"
    using complement_mod_pred [OF pos] by (simp add: fixed_phase_def unat_minus_1 [OF nz])
  have zero: "fixed_phase ?f' = 0 \<longleftrightarrow> (unat ?w - 1) mod 100 = 0"
    by (simp add: fixed_phase_def unat_minus_1 [OF nz] complement_mod_zero)
  have ow: "fixed_owed ?f' = fixed_owed f + (if fixed_phase ?f' = 0 then 1 else 0)"
    using good groups_pred [OF nz] unfolding zero by (auto simp: fixed_owed_def fixed_good_def)
  have "fixed_good ?f'"
    using good groups_pred(1) [OF nz] by (auto simp: fixed_good_def)
  moreover have "fixed_data_sent f = (Inr (), ?f')"
    by (simp add: fixed_data_sent_def send_take_ok [OF nz])
  ultimately show ?thesis using ph ow by blast
qed

lemma fixed_sendme_law:
  assumes good: "fixed_good f" and owed: "0 < fixed_owed f"
  shows "\<exists>f'. fixed_sendme_received rtt signals (f, st) = (Inr (), (f', st)) \<and> fixed_good f' \<and>
    fixed_phase f' = fixed_phase f \<and> fixed_owed f' = fixed_owed f - 1"
proof -
  let ?w = "fw_sendwindow f" and ?f' = "f\<lparr>fw_sendwindow := fw_sendwindow f + 100\<rparr>"
  have le: "unat ?w + 100 \<le> 1000"
  proof -
    have "groups ?w + 1 \<le> groups (circ_window_start (fw_params f))"
      using good owed by (simp add: fixed_good_def fixed_owed_def)
    also have "\<dots> \<le> 10"
      using good div_le_mono [of "unat (circ_window_start (fw_params f)) + 99" 1099 100]
      by (simp add: fixed_good_def groups_def)
    finally have "(unat ?w + 99) div 100 \<le> 9" by (simp add: groups_def)
    then show ?thesis by linarith
  qed
  have w: "unat (?w + 100) = unat ?w + 100"
    using le by (simp add: unat_word_ariths)
  have put: "send_put CircParams ?w = (Inr (), ?w + 100)"
    using circ_window.send_put_ok [of ?w] le by (simp add: CircParams_def)
  have g: "groups (?w + 100) = Suc (groups ?w)"
    by (simp add: groups_def w)
  have "fixed_good ?f'" "fixed_owed ?f' = fixed_owed f - 1"
    using good owed by (auto simp: fixed_good_def fixed_owed_def g)
  moreover have "fixed_phase ?f' = fixed_phase f"
    by (simp add: fixed_phase_def w)
  ultimately show ?thesis by (simp add: fixed_sendme_received_def put)
qed

lemma fixed_next_iff: "should_record_tag CircParams (fw_sendwindow f) \<longleftrightarrow> fixed_phase f = 0"
proof -
  have "fw_sendwindow f mod 100 = 0 \<longleftrightarrow> unat (fw_sendwindow f) mod 100 = 0"
    by (simp add: word_unat_eq_iff unat_mod_distrib)
  moreover have "fixed_phase f = 0 \<longleftrightarrow> unat (fw_sendwindow f) mod 100 = 0"
    unfolding fixed_phase_def by (rule complement_mod_zero)
  ultimately show ?thesis by (simp add: should_record_tag_def CircParams_def)
qed

interpretation fixed_cc: cc_contract fixed_ops fixed_good "\<lambda>_. 100" fixed_phase fixed_owed
proof (unfold_locales, goal_cases)
  case (3 a)
  then show ?case using fixed_data_sent_law [of a] by (auto simp: fixed_ops_def)
next
  case (4 a rtt signals st a' st')
  then show ?case using fixed_sendme_law [of a rtt signals st] by (auto simp: fixed_ops_def)
next
  case (5 a rtt signals st)
  then show ?case using fixed_sendme_law [of a rtt signals st] by (auto simp: fixed_ops_def)
qed (auto simp: fixed_ops_def fixed_next_iff fixed_data_received_def fixed_sendme_sent_def
    fixed_good_def fixed_phase_def fixed_owed_def split: prod.splits)

section \<open>Vegas keeps the contract\<close>

definition vegas_inc :: "vegas \<Rightarrow> nat" where
  "vegas_inc v = unat (cwnd_sendme_inc (vg_cwnd v))"

definition vegas_phase :: "vegas \<Rightarrow> nat" where
  "vegas_phase v = unat (num_inflight v) mod vegas_inc v"

definition vegas_owed :: "vegas \<Rightarrow> nat" where
  "vegas_owed v = unat (num_inflight v) div vegas_inc v"

lemma rbind_eq_Inr: "rbind r f = Inr y \<longleftrightarrow> (\<exists>x. r = Inr x \<and> f x = Inr y)"
  by (cases r) (auto simp: rbind_def)

lemma rbind_eq_Inl: "rbind r f = Inl e \<longleftrightarrow> r = Inl e \<or> (\<exists>x. r = Inr x \<and> f x = Inl e)"
  by (cases r) (auto simp: rbind_def)

text \<open>A computation that can panic but does not report an error.\<close>

definition benign :: "proto_error + 'b \<Rightarrow> bool" where
  "benign r \<longleftrightarrow> \<not> violation r"

lemma benign_Inr [simp]: "benign (Inr x)"
  by (simp add: benign_def)

lemma benign_Inl: "benign (Inl e) \<Longrightarrow> benign (Inl e :: proto_error + 'c)"
  by (cases e) (simp_all add: benign_def)

lemma benign_rbind [intro]:
  "benign r \<Longrightarrow> (\<And>x. r = Inr x \<Longrightarrow> benign (f x)) \<Longrightarrow> benign (rbind r f)"
  by (cases r) (auto simp: rbind_def intro: benign_Inl)

lemma benign_rates [simp, intro]:
  "benign (div_or_panic a b)" "benign (update_rate st c)" "benign (sendme_per_cwnd c)"
  by (simp_all add: update_rate_def sendme_per_cwnd_def div_or_panic_def benign_def)

lemma benign_bdp [intro]: "benign (bdp_update c rtt signals)"
  by (simp add: bdp_update_def Let_def)

lemma benign_rfc3742 [intro]: "benign (rfc3742_ss_inc cap c)"
  unfolding rfc3742_ss_inc_def by (intro benign_rbind) auto

lemma benign_slow_start [intro]: "benign (vegas_slow_start q v)"
  unfolding vegas_slow_start_def
  by (rule benign_rbind) (auto intro!: benign_rbind)

lemma benign_reset [intro]: "benign (vegas_reset_counters st v)" "benign (vegas_reset_full st v)"
  unfolding vegas_reset_counters_def vegas_reset_full_def by (auto intro!: benign_rbind)

lemma benign_run [intro]: "benign (vegas_run v st)"
  unfolding vegas_run_def by (auto simp: vegas_adjust_def Let_def intro!: benign_rbind)

lemma vegas_sendme_no_violation: "\<not> violation (fst (vegas_sendme_received rtt signals s))"
proof -
  let ?v = "vegas_count_sendme (fst s)"
  show ?thesis
  proof (cases "bdp_update (vg_cwnd ?v) rtt signals")
    case (Inl e)
    then have "benign (Inl e :: proto_error + u32)" using benign_bdp by metis
    then have "benign (Inl e :: proto_error + unit)" by (rule benign_Inl)
    then show ?thesis by (simp add: vegas_sendme_received_def Inl benign_def Let_def)
  next
    case (Inr b)
    let ?v1 = "vegas_note_blocked rtt signals (?v\<lparr>vg_bdp := b\<rparr>)"
    show ?thesis
    proof (cases "vegas_run ?v1 (snd s)")
      case (Inl e)
      then have "benign (Inl e :: proto_error + vegas \<times> cc_state)" using benign_run by metis
      then have "benign (Inl e :: proto_error + unit)" by (rule benign_Inl)
      then show ?thesis by (simp add: vegas_sendme_received_def Inl Inr benign_def Let_def)
    next
      case r: (Inr s')
      show ?thesis by (simp add: vegas_sendme_received_def r Inr Let_def)
    qed
  qed
qed

text \<open>Nothing but the value and the fullness of the congestion window changes.\<close>

lemma eval_fullness_frame [simp]:
  "cw_params (eval_fullness i g p c) = cw_params c" "cw_value (eval_fullness i g p c) = cw_value c"
  by (simp_all add: eval_fullness_def)

lemma cwnd_frame [simp]:
  "cw_params (cwnd_set x c) = cw_params c" "cw_params (cwnd_dec c) = cw_params c"
  "cw_params (cwnd_increase c) = cw_params c" "cw_params (cwnd_reset_full c) = cw_params c"
  "cw_value (cwnd_reset_full c) = cw_value c" "cw_value (cwnd_set x c) = x"
  by (simp_all add: cwnd_set_def cwnd_dec_def cwnd_increase_def cwnd_reset_full_def)

lemma rfc3742_frame: "rfc3742_ss_inc cap c = Inr (inc, c') \<Longrightarrow> cw_params c' = cw_params c"
  by (auto simp: rfc3742_ss_inc_def rbind_eq_Inr)

lemma slow_start_frame:
  "vegas_slow_start q v = Inr (c, st') \<Longrightarrow> cw_params c = cw_params (vg_cwnd v)"
  by (auto simp: vegas_slow_start_def rbind_eq_Inr dest: rfc3742_frame split: if_splits)

lemma adjust_frame: "vegas_adjust v st = Inr (c, st') \<Longrightarrow> cw_params c = cw_params (vg_cwnd v)"
  by (auto simp: vegas_adjust_def Let_def vegas_steady_def dest: slow_start_frame split: if_splits)

lemma reset_counters_frame:
  "vegas_reset_counters st v = Inr v' \<Longrightarrow>
     vg_cwnd v' = vg_cwnd v \<and> num_inflight v' = num_inflight v \<and> vg_params v' = vg_params v"
  by (auto simp: vegas_reset_counters_def rbind_eq_Inr split: if_splits)

lemma reset_full_frame:
  "vegas_reset_full st v = Inr v' \<Longrightarrow>
     cw_params (vg_cwnd v') = cw_params (vg_cwnd v) \<and> cw_value (vg_cwnd v') = cw_value (vg_cwnd v) \<and>
     num_inflight v' = num_inflight v \<and> vg_params v' = vg_params v"
  by (auto simp: vegas_reset_full_def rbind_eq_Inr split: if_splits)

lemma vegas_run_frame:
  assumes "vegas_run v st = Inr (v', st')"
  shows "num_inflight v' = saturating_sub_u32 (num_inflight v) (cwnd_sendme_inc (vg_cwnd v)) \<and>
    cw_params (vg_cwnd v') = cw_params (vg_cwnd v) \<and>
    (\<exists>c. vegas_adjust v st = Inr (c, st') \<and> cw_value (vg_cwnd v') = cw_value c)"
proof -
  obtain c v1 v2 where run: "vegas_adjust v st = Inr (c, st')"
    "vegas_reset_counters st' (v\<lparr>vg_cwnd := c\<rparr>) = Inr v1" "vegas_reset_full st' v1 = Inr v2"
    "v' = vegas_ack_inflight v2"
    using assms by (auto simp: vegas_run_def rbind_eq_Inr)
  show ?thesis
    using run(1) adjust_frame [OF run(1)] reset_counters_frame [OF run(2)] reset_full_frame [OF run(3)]
    by (auto simp: run(4) vegas_ack_inflight_def cwnd_sendme_inc_def)
qed

lemma vegas_stage_frame [simp]:
  "num_inflight (vegas_count_sendme v) = num_inflight v"
  "vg_cwnd (vegas_count_sendme v) = vg_cwnd v"
  "vg_params (vegas_count_sendme v) = vg_params v"
  "num_inflight (vegas_note_blocked rtt signals v) = num_inflight v"
  "vg_cwnd (vegas_note_blocked rtt signals v) = vg_cwnd v"
  "vg_params (vegas_note_blocked rtt signals v) = vg_params v"
  "vg_bdp (vegas_note_blocked rtt signals v) = vg_bdp v"
  by (simp_all add: vegas_count_sendme_def vegas_note_blocked_def Let_def)

lemma vegas_sendme_frame:
  assumes "vegas_sendme_received rtt signals (v, st) = (Inr (), (v', st'))"
  shows "num_inflight v' = saturating_sub_u32 (num_inflight v) (cwnd_sendme_inc (vg_cwnd v))"
    and "cw_params (vg_cwnd v') = cw_params (vg_cwnd v)"
  using assms
  by (auto simp: vegas_sendme_received_def Let_def vegas_ack_inflight_def
      dest!: vegas_run_frame split: sum.splits if_splits)

lemma saturating_sub_unat: "unat (saturating_sub_u32 a b) = unat a - unat b"
  by (simp add: saturating_sub_u32_def word_le_nat_alt unat_sub)

lemma saturating_add_1_unat:
  assumes "a < (b :: u32)"
  shows "unat (saturating_add_u32 a 1) = unat a + 1"
proof -
  have "unat a < unat b" "unat b < 2 ^ 32" using assms unat_lt2p [of b] by (simp_all add: word_less_nat_alt)
  then have "unat a + 1 < 2 ^ 32" by linarith
  then show ?thesis by (simp add: saturating_add_u32_def unat_word_ariths)
qed

interpretation vegas_cc: cc_contract vegas_ops "\<lambda>v. 0 < vegas_inc v" vegas_inc vegas_phase vegas_owed
proof (unfold_locales, goal_cases)
  case (2 v)
  then show ?case
    by (simp add: vegas_ops_def vegas_is_next_cell_sendme_def vegas_phase_def vegas_inc_def
        word_unat_eq_iff unat_mod_distrib)
next
  case (3 v)
  then have "num_inflight v < cw_value (vg_cwnd v)" by (simp add: vegas_ops_def vegas_can_send_def)
  note n = saturating_add_1_unat [OF this]
  show ?case
    using 3 by (simp add: vegas_ops_def vegas_data_sent_def vegas_inc_def vegas_phase_def vegas_owed_def
        n mod_Suc_eq div_Suc)
next
  case (4 v rtt signals st v' st')
  then have r: "vegas_sendme_received rtt signals (v, st) = (Inr (), (v', st'))"
    by (simp add: vegas_ops_def)
  have inc: "vegas_inc v' = vegas_inc v"
    using vegas_sendme_frame(2) [OF r] by (simp add: vegas_inc_def cwnd_sendme_inc_def)
  have le: "vegas_inc v \<le> unat (num_inflight v)"
    using 4(2) by (simp add: vegas_owed_def div_greater_zero_iff)
  have "unat (num_inflight v') = unat (num_inflight v) - vegas_inc v"
    using vegas_sendme_frame(1) [OF r] by (simp add: saturating_sub_unat vegas_inc_def)
  then show ?case
    using 4(1) le inc
    by (simp add: vegas_ops_def vegas_phase_def vegas_owed_def le_mod_geq le_div_geq)
next
  case (5 v rtt signals st)
  show ?case by (simp add: vegas_ops_def vegas_sendme_no_violation)
qed (auto simp: vegas_ops_def vegas_data_received_def vegas_sendme_sent_def vegas_inc_def Let_def
    vegas_phase_def vegas_owed_def split: if_splits)

end
