(* ===== verification/Congestion_EndToEnd.thy ===== *)
theory Congestion_EndToEnd
  imports Congestion_Laws
begin

text \<open>
  The receiving half of congestion control, the two ends of a circuit together, and the
  properties of congestion control. \<open>cc_receive\<close> is what the circuit reactor does for a
  DATA cell: it notes the cell and, when told to, sends a SENDME and notes that.
\<close>

section \<open>The receiving end\<close>

definition cc_receive :: "'a cc_ops \<Rightarrow> ('a congestion_control, proto_error, bool) eff" where
  "cc_receive ops =
     ebind (note_data_received ops) (\<lambda>b.
       if b then ebind (note_sendme_sent ops) (\<lambda>_. eret True) else eret False)"

text \<open>The cells that a receiver acknowledges, out of the cells \<open>S\<close> it gets.\<close>

definition acked :: "bool list \<Rightarrow> 'b list \<Rightarrow> 'b list" where
  "acked bs S = map snd (filter fst (zip bs S))"

definition schedule :: "nat \<Rightarrow> nat \<Rightarrow> bool list" where
  "schedule k n = map (\<lambda>i. Suc i mod k = 0) [0..<n]"

lemma schedule_Suc: "schedule k (Suc n) = schedule k n @ [Suc n mod k = 0]"
  by (simp add: schedule_def)

lemma acked_schedule:
  assumes "0 < k"
  shows "acked (schedule k (length S)) S = every_nth k S"
proof (induction S rule: rev_induct)
  case Nil
  show ?case by (simp add: acked_def)
next
  case (snoc x S)
  have "acked (schedule k (length (S @ [x]))) (S @ [x]) =
      acked (schedule k (length S)) S @ (if Suc (length S) mod k = 0 then [x] else [])"
    by (simp add: acked_def schedule_Suc zip_append schedule_def)
  then show ?case by (simp add: snoc every_nth_snoc [OF assms])
qed

lemma ereplicate_snoc:
  assumes "ereplicate n m s = (Inr xs, s')" "m s' = (Inr x, s'')"
  shows "ereplicate (Suc n) m s = (Inr (xs @ [x]), s'')"
  using assms
proof (induction n arbitrary: s xs)
  case 0
  then show ?case by (simp add: ebind_def eret_def)
next
  case (Suc n)
  obtain y s1 ys where y: "m s = (Inr y, s1)" "ereplicate n m s1 = (Inr ys, s')" "xs = y # ys"
    using Suc.prems(1) by (auto simp: ebind_eq_Inr eret_def)
  have "ereplicate (Suc n) m s1 = (Inr (ys @ [x]), s'')"
    by (rule Suc.IH [OF y(2) Suc.prems(2)])
  then show ?case by (subst ereplicate.simps(2)) (simp only: ebind_Inr y eret_def append_Cons)
qed

text \<open>
  The contract of the receiving half of an algorithm: \<open>ready j\<close> holds when \<open>j\<close> cells have
  come in since the last SENDME.
\<close>

locale cc_receiver =
  fixes ops :: "'a cc_ops" and period :: nat and ready :: "nat \<Rightarrow> 'a \<Rightarrow> bool"
  assumes ready_less: "ready j a \<Longrightarrow> j < period"
    and not_yet: "ready j a \<Longrightarrow> Suc j < period \<Longrightarrow>
      \<exists>a'. op_data_received ops a = (Inr False, a') \<and> ready (Suc j) a'"
    and due: "ready j a \<Longrightarrow> Suc j = period \<Longrightarrow>
      \<exists>a' a''. op_data_received ops a = (Inr True, a') \<and> op_sendme_sent ops a' = (Inr (), a'') \<and> ready 0 a''"
begin

lemma receive_step:
  assumes "ready (n mod period) (cc_alg cc)"
  shows "\<exists>cc'. cc_receive ops cc = (Inr (Suc n mod period = 0), cc') \<and> ready (Suc n mod period) (cc_alg cc')"
proof (cases "Suc (n mod period) = period")
  case True
  then have z: "Suc n mod period = 0" by (simp add: mod_Suc)
  obtain a' a'' where "op_data_received ops (cc_alg cc) = (Inr True, a')"
    "op_sendme_sent ops a' = (Inr (), a'')" "ready 0 a''"
    using due [OF assms True] by blast
  then show ?thesis
    by (simp add: cc_receive_def note_data_received_def note_sendme_sent_def ebind_def eret_def z)
next
  case False
  then have s: "Suc n mod period = Suc (n mod period)" by (simp add: mod_Suc)
  have "Suc (n mod period) < period" using False ready_less [OF assms] by simp
  then obtain a' where "op_data_received ops (cc_alg cc) = (Inr False, a')" "ready (Suc (n mod period)) a'"
    using not_yet [OF assms] by blast
  then show ?thesis
    by (simp add: cc_receive_def note_data_received_def ebind_def eret_def s)
qed

lemma receive_schedule:
  assumes "ready 0 (cc_alg cc)"
  shows "\<exists>cc'. ereplicate n (cc_receive ops) cc = (Inr (schedule period n), cc') \<and>
    ready (n mod period) (cc_alg cc')"
proof (induction n)
  case 0
  show ?case using assms by (simp add: eret_def schedule_def)
next
  case (Suc n)
  then obtain cc' where r: "ereplicate n (cc_receive ops) cc = (Inr (schedule period n), cc')"
    "ready (n mod period) (cc_alg cc')" by blast
  obtain cc'' where "cc_receive ops cc' = (Inr (Suc n mod period = 0), cc'')"
    "ready (Suc n mod period) (cc_alg cc'')"
    using receive_step [OF r(2)] by blast
  then show ?case using ereplicate_snoc [OF r(1)] by (simp only: schedule_Suc) blast
qed

end




definition vegas_ready :: "nat \<Rightarrow> nat \<Rightarrow> vegas \<Rightarrow> bool" where
  "vegas_ready k j v \<longleftrightarrow> vegas_inc v = k \<and> j < k \<and> unat (num_cell_until_sendme v) + j = k"

interpretation vegas_rcv: cc_receiver vegas_ops k "vegas_ready k" for k
proof (unfold_locales, goal_cases)
  case (1 j a)
  then show ?case by (simp add: vegas_ready_def)
next
  case (2 j a)
  then have "num_cell_until_sendme a \<noteq> 0" by (auto simp: vegas_ready_def)
  then show ?case using 2
    by (auto simp: vegas_ops_def vegas_data_received_def Let_def vegas_ready_def vegas_inc_def
        word_unat_eq_iff saturating_sub_unat)
next
  case (3 j a)
  then have "num_cell_until_sendme a \<noteq> 0" by (auto simp: vegas_ready_def)
  then show ?case using 3
    by (auto simp: vegas_ops_def vegas_data_received_def vegas_sendme_sent_def Let_def vegas_ready_def
        vegas_inc_def word_unat_eq_iff saturating_sub_unat)
qed

section \<open>Both ends\<close>

text \<open>
  Whatever part of the cells a receiver with the same group size has seen: the SENDMEs it
  returns carry the tags that the sender expects, in order.
\<close>

lemma prefix_acked:
  assumes "0 < k" "prefix S0 S"
  shows "prefix (acked (schedule k (length S0)) S0) (every_nth k S)"
proof -
  obtain S1 where S: "S = S0 @ S1" using assms(2) by (auto simp: prefix_def)
  show ?thesis unfolding acked_schedule [OF assms(1)] S by (rule every_nth_prefix [OF assms(1)])
qed



lemma vegas_fresh:
  assumes "cc_new_vegas p params = Inr cc0" "sendme_inc (ccp_cwnd_params params) \<noteq> 0"
  obtains v where "cc0 = cc_new v params" "vegas_inc v = unat (sendme_inc (ccp_cwnd_params params))"
    "0 < vegas_inc v" "vegas_phase v = 0" "vegas_owed v = 0" "vegas_ready (vegas_inc v) 0 v"
proof -
  obtain v where v: "Vegas_new p SlowStart (cwnd_new (ccp_cwnd_params params)) = Inr v"
    "cc0 = cc_new v params"
    using assms(1) by (auto simp: cc_new_vegas_def rbind_eq_Inr)
  have i: "vegas_inc v = unat (sendme_inc (ccp_cwnd_params params))" "num_inflight v = 0"
    "unat (num_cell_until_sendme v) = vegas_inc v"
    using v(1) by (auto simp: Vegas_new_def rbind_eq_Inr vegas_inc_def cwnd_new_def cwnd_sendme_inc_def)
  moreover have "0 < vegas_inc v" using assms(2) by (simp add: i unat_gt_0)
  ultimately show ?thesis
    by (intro that [OF v(2)]) (simp_all add: vegas_phase_def vegas_owed_def vegas_ready_def)
qed

section \<open>Properties\<close>


text \<open>
  C6. SENDME authentication with Vegas. After any history of a circuit hop that sent the
  cells \<open>S\<close>, only while the congestion window allowed it, and accepted SENDMEs with the tags
  \<open>A\<close>: the accepted tags followed by the pending ones are the tags of every
  \<open>sendme_inc\<close>-th cell; the number of cells in flight is exactly the number of cells sent
  less one group per SENDME; a further SENDME is a protocol violation if and only if its tag
  is not the next one; and an other end with the same increment acknowledges, for any part
  of the cells it has seen, exactly these tags in order.
\<close>

theorem vegas_sendme_authentication:
  assumes "cc_new_vegas p params = Inr cc0" and "sendme_inc (ccp_cwnd_params params) \<noteq> 0"
    and "k = unat (sendme_inc (ccp_cwnd_params params))"
    and "cc_trace vegas_ops cc0 S A cc"
  shows "A @ cc_tags cc = every_nth k S \<and>
    unat (num_inflight (cc_alg cc)) = length S - k * length A \<and>
    (\<forall>now tag signals. violation (fst (note_sendme_received vegas_ops now tag signals cc)) \<longleftrightarrow>
       \<not> prefix (A @ [tag]) (every_nth k S)) \<and>
    (\<forall>S0. prefix S0 S \<longrightarrow> (\<exists>bs.
       fst (ereplicate (length S0) (cc_receive vegas_ops) cc0) = Inr bs \<and>
       prefix (acked bs S0) (every_nth k S)))"
proof -
  obtain v where v: "cc0 = cc_new v params" "vegas_inc v = unat (sendme_inc (ccp_cwnd_params params))"
    "0 < vegas_inc v" "vegas_phase v = 0" "vegas_owed v = 0" "vegas_ready (vegas_inc v) 0 v"
    by (rule vegas_fresh [OF assms(1,2)])
  have k: "k = vegas_inc v" by (simp add: assms(3) v(2))
  note tr = assms(4) [unfolded v(1)]
  note tags = vegas_cc.trace_tags [OF v(3-5) tr]
  have "A @ cc_tags cc = every_nth k S" using tags(1) by (simp add: k)
  moreover have "unat (num_inflight (cc_alg cc)) = length S - k * length A"
  proof -
    have "length A + length (cc_tags cc) = length S div k"
      using arg_cong [OF tags(1), of length] by (simp add: k)
    moreover have "unat (num_inflight (cc_alg cc)) = k * length (cc_tags cc) + length S mod k"
    proof -
      have "length (cc_tags cc) = unat (num_inflight (cc_alg cc)) div k"
        and "unat (num_inflight (cc_alg cc)) mod k = length S mod k"
        using tags(2-4) by (simp_all add: vegas_cc.tracked_def vegas_owed_def vegas_phase_def k)
      then show ?thesis by (metis mult_div_mod_eq)
    qed
    ultimately show ?thesis
      by (metis add_diff_cancel_left' add_mult_distrib2 group_cancel.add1 mult_div_mod_eq)
  qed
  moreover have "\<exists>bs. fst (ereplicate (length S0) (cc_receive vegas_ops) cc0) = Inr bs \<and>
      prefix (acked bs S0) (every_nth k S)" if "prefix S0 S" for S0
  proof -
    have "vegas_ready k 0 (cc_alg cc0)" using v(6) by (simp add: k v(1) cc_new_def)
    from vegas_rcv.receive_schedule [OF this, of "length S0"] show ?thesis
      using prefix_acked [of k S0 S] v(3) that by (auto simp: k)
  qed
  ultimately show ?thesis
    using vegas_cc.trace_authentication [OF v(3-5) tr] by (simp add: k)
qed

text \<open>A small configuration: groups of one cell, and a window of four.\<close>

definition ex_fixed_params :: fixed_window_params where
  "ex_fixed_params = \<lparr>circ_window_start = 1000, circ_window_min = 100, circ_window_max = 1000\<rparr>"

definition ex_vegas_params :: vegas_params where
  "ex_vegas_params =
     \<lparr>cell_in_queue_params = \<lparr>vq_alpha = 186, vq_beta = 248, vq_delta = 310, vq_gamma = 186, vq_ss_cwnd_cap = 600\<rparr>,
      ss_cwnd_max = 5000, cwnd_full_gap = 4, cwnd_full_min_pct = 25, cwnd_full_per_cwnd = 1\<rparr>"

definition ex_cc_params :: cc_params where
  "ex_cc_params =
     \<lparr>ccp_alg = VegasAlg ex_vegas_params, ccp_fixed_window_params = ex_fixed_params,
      ccp_cwnd_params = \<lparr>cwnd_init = 124, cwnd_inc_pct_ss = 100, cwnd_inc = 31, cwnd_inc_rate = 1,
        cwnd_min = 31, cwnd_max = 100000, sendme_inc = 1\<rparr>,
      ccp_rtt_params = \<lparr>ewma_cwnd_pct = 50, ewma_max = 10, ewma_ss_max = 2, rtt_reset_pct = 100\<rparr>\<rparr>"

definition ex_vegas :: vegas where
  "ex_vegas =
     \<lparr>vg_params = ex_vegas_params, vg_bdp = 0, vg_cwnd = cwnd_new (ccp_cwnd_params ex_cc_params),
      num_cell_until_sendme = 1, num_sendme_until_cwnd_update = 1, num_sendme_per_cwnd = 0,
      num_inflight = 0, is_blocked_on_chan = False\<rparr>"

definition ex_tag :: sendme_tag where
  "ex_tag = SendmeTag_from20 (replicate 20 7)"

lemma ex_vegas_new: "cc_new_vegas ex_vegas_params ex_cc_params = Inr (cc_new ex_vegas ex_cc_params)"
  by (simp add: cc_new_vegas_def Vegas_new_def rbind_def update_rate_def in_slow_start_def ex_vegas_def
      cwnd_sendme_inc_def cwnd_new_def ex_cc_params_def)

lemma ex_vegas_sent:
  "\<exists>cc. cc_trace vegas_ops (cc_new ex_vegas ex_cc_params) [ex_tag] [] cc"
proof -
  have "cc_can_send vegas_ops (cc_new ex_vegas ex_cc_params)"
    by (simp add: cc_can_send_def vegas_ops_def vegas_can_send_def cc_new_def ex_vegas_def cwnd_new_def
        ex_cc_params_def)
  moreover have "\<exists>cc. note_data_sent vegas_ops 0 ex_tag (cc_new ex_vegas ex_cc_params) = (Inr (), cc)"
    by (simp add: note_data_sent_def ebind_def vegas_ops_def vegas_data_sent_def)
  ultimately show ?thesis using cc_trace.DataSent [OF cc_trace.Init] by fastforce
qed



theorem vegas_sendme_authentication_witness:
  "\<exists>cc. cc_trace vegas_ops (cc_new ex_vegas ex_cc_params) [ex_tag] [] cc \<and> cc_tags cc = [ex_tag] \<and>
     unat (num_inflight (cc_alg cc)) = 1 \<and>
     \<not> violation (fst (note_sendme_received vegas_ops 0 ex_tag (CongestionSignals_new False 0) cc))"
proof -
  obtain cc where cc: "cc_trace vegas_ops (cc_new ex_vegas ex_cc_params) [ex_tag] [] cc"
    using ex_vegas_sent by blast
  have "sendme_inc (ccp_cwnd_params ex_cc_params) \<noteq> 0" and "1 = unat (sendme_inc (ccp_cwnd_params ex_cc_params))"
    by (simp_all add: ex_cc_params_def)
  from vegas_sendme_authentication [OF ex_vegas_new this cc] cc show ?thesis by (auto simp: every_nth_def)
qed

end
