(* ===== verification/Vegas_Bounds.thy ===== *)
theory Vegas_Bounds
  imports Congestion_EndToEnd
begin

text \<open>
  Bounds of the Vegas congestion window and of the round trip estimate. The parameters are
  those of \<open>params.rs\<close> in the ranges of the consensus, with thresholds that leave room for the
  minimum window (\<open>vegas_params_ok\<close>; the defaults do). The last property shows what happens
  with thresholds that do not.
\<close>

section \<open>Words as numbers\<close>










section \<open>Parameters\<close>








section \<open>The estimate of the bandwidth-delay product\<close>


section \<open>The window\<close>







section \<open>Properties\<close>



text \<open>
  C20. The averaged round trip time lies between the previous average and the new
  measurement, for times below \<open>2 ^ 31\<close> microseconds (the unsigned arithmetic then does not wrap
  for any admissible number of samples), so one measurement never throws the average out of
  the measured range.
\<close>

theorem ewma_between:
  assumes "2 \<le> unat n" "unat n < 2 ^ 32" "unat raw < 2 ^ 31" "unat prev < 2 ^ 31"
  shows "min (unat raw) (unat prev) \<le> unat (new_ewma_usec n raw (Some prev)) \<and>
    unat (new_ewma_usec n raw (Some prev)) \<le> max (unat raw) (unat prev)"
proof -
  have n1: "unat (n + 1) = unat n + 1" "unat (n - 1) = unat n - 1"
    using assms(1,2) by (simp_all add: unat_word_ariths unat_minus_one) (metis One_nat_def not_numeral_le_zero unat_0 unat_minus_one)
  have prod: "(unat n - 1) * unat prev \<le> 2 ^ 32 * 2 ^ 31"
    using assms by (intro mult_le_mono) auto
  have m: "unat ((n - 1) * prev) = (unat n - 1) * unat prev"
    using prod by (simp add: unat_word_ariths n1(2))
  have d: "unat (raw * 2) = unat raw * 2"
    using assms(3) by (simp add: unat_word_ariths)
  have "unat (raw * 2 + (n - 1) * prev) = unat raw * 2 + (unat n - 1) * unat prev"
    using assms(3) prod by (simp add: unat_word_ariths(1) [of "raw * 2"] m d)
  then have e: "unat (new_ewma_usec n raw (Some prev)) =
      (unat raw * 2 + (unat n - 1) * unat prev) div (unat n + 1)"
    by (simp add: new_ewma_usec_def unat_div_distrib n1(1))
  obtain k where k: "unat n = Suc k" using assms(1) by (cases "unat n") auto
  have x: "x * (k + 2) = k * x + x * 2" for x :: nat by (simp add: algebra_simps)
  have lo: "min (unat raw) (unat prev) * (k + 2) \<le> unat raw * 2 + k * unat prev"
    using mult_le_mono2 [of "min (unat raw) (unat prev)" "unat prev" k] unfolding x by linarith
  have hi: "unat raw * 2 + k * unat prev \<le> max (unat raw) (unat prev) * (k + 2)"
    using mult_le_mono2 [of "unat prev" "max (unat raw) (unat prev)" k] unfolding x by linarith
  have pos: "0 < k + 2" by simp
  have "min (unat raw) (unat prev) \<le> (unat raw * 2 + k * unat prev) div (k + 2)"
    using div_le_mono [OF lo, of "k + 2"] unfolding div_mult_self_is_m [OF pos] .
  moreover have "(unat raw * 2 + k * unat prev) div (k + 2) \<le> max (unat raw) (unat prev)"
    using div_le_mono [OF hi, of "k + 2"] unfolding div_mult_self_is_m [OF pos] .
  ultimately show ?thesis unfolding e k by simp
qed

theorem ewma_between_witness:
  "unat (new_ewma_usec 2 100000 (Some 40000)) \<le> 100000 \<and> 40000 \<le> unat (new_ewma_usec 2 100000 (Some 40000))"
  using ewma_between [of 2 100000 40000] by simp

text \<open>
  C34. The clock check only catches a measurement of exactly zero. When the first SENDME of a
  Vegas circuit comes back less than a microsecond after its cell, the average in
  microseconds is zero, and the estimate of the bandwidth-delay product divides by it: the
  handler of a correctly authenticated SENDME panics.
\<close>

theorem vegas_sub_microsecond_rtt_panics:
  assumes "cc_tags cc = [tag]" "cc_rtt cc = expect_sendme sent (rtt_new rp)" "cc_st cc = SlowStart"
    and "sent < now" "now < sent + 1000"
  shows "fst (note_sendme_received vegas_ops now tag signals cc) =
    Inl (ProtoPanic ''attempt to divide by zero'')"
proof -
  have us: "as_micros (now - sent) = 0" using assms(5) by (simp add: as_micros_def)
  have rtt: "rtt_update now SlowStart c (expect_sendme sent (rtt_new rp)) =
      (Inr (), (rtt_new rp)\<lparr>last_rtt := Some (now - sent), ewma_rtt := Some 0, min_rtt := Some 0,
         max_rtt := Some (now - sent)\<rparr>)" for c
    using assms(4) us
    by (simp add: rtt_update_def expect_sendme_def rtt_new_def is_clock_stalled_def Let_def in_slow_start_def
        can_crosscheck_with_current_estimate_def ewma_n_def new_ewma_usec_def from_micros_def)
  have ops: "op_cwnd vegas_ops a = Some (vg_cwnd a)" "op_sendme_received vegas_ops = vegas_sendme_received" for a
    by (simp_all add: vegas_ops_def)
  have stalled: "clock_stalled (rtt_new rp) = False" by (simp add: rtt_new_def)
  show ?thesis
    using assms(1-3)
    by (simp add: note_sendme_received_def ebind_def validator_validate_def ops emap_err_def rtt
        vegas_sendme_received_def bdp_update_def stalled Let_def min_rtt_usec_def ewma_rtt_usec_def
        usec_u32_def as_micros_def div_or_panic_def)
qed

theorem vegas_sub_microsecond_rtt_panics_witness:
  "fst (note_sendme_received vegas_ops 5500 ex_tag (CongestionSignals_new False 0)
     \<lparr>cc_st = SlowStart, cc_tags = [ex_tag],
      cc_rtt = expect_sendme 5000 (rtt_new (ccp_rtt_params ex_cc_params)), cc_alg = ex_vegas\<rparr>) =
   Inl (ProtoPanic ''attempt to divide by zero'')"
  by (rule vegas_sub_microsecond_rtt_panics [where sent = 5000 and rp = "ccp_rtt_params ex_cc_params"]) simp_all




end
