(* ===== verification/StreamFlow.thy ===== *)
theory StreamFlow
  imports Sendme
begin

text \<open>
  Flow control of streams: \<open>tor-proto/src/stream/flow_ctrl/\<close> with the window based control of
  \<open>window/state.rs\<close>, the XON/XOFF control of \<open>xon_xoff/state.rs\<close> and its sidechannel
  mitigation, and the dispatch of \<open>state.rs\<close>.

  \<^item> The watch channel to the writer is the last value sent, the notifier to the reader a
    pending flag.
  \<^item> \<open>Saturating<u32>\<close> counters are words with saturating addition; byte thresholds are
    \<open>u64\<close> values that the code computes without overflow, and are natural numbers here.
\<close>

section \<open>Parameters\<close>

definition saturating_add_32 :: "u32 \<Rightarrow> u32 \<Rightarrow> u32" where
  "saturating_add_32 a b = (if unat a + unat b < 2 ^ 32 then a + b else - 1)"

text \<open>\<open>CellCount\<close>: a number of cells, and the bytes it stands for at a given payload size.\<close>

definition cells_as_bytes :: "nat \<Rightarrow> u32 \<Rightarrow> nat" where
  "cells_as_bytes bytes_per_cell cells = unat cells * bytes_per_cell"

record flow_ctrl_params =
  cc_xoff_client :: u32
  cc_xoff_exit :: u32
  cc_xon_rate :: u32
  cc_xon_change_pct :: u32
  cc_xon_ewma_cnt :: u32

section \<open>Windows\<close>

text \<open>\<open>UnparsedRelayMsg::decode\<close> at the type of one message.\<close>

definition decode_only ::
  "string \<Rightarrow> (any_relay_msg \<Rightarrow> 'a option) \<Rightarrow> string \<Rightarrow> unparsed_relay_msg \<Rightarrow> proto_error + 'a" where
  "decode_only name select object msg =
     (case unparsed_decode msg of
        Inl e \<Rightarrow> Inl (ProtoBytesErr e object)
      | Inr outer \<Rightarrow>
          (case select (ro_msg outer) of
             None \<Rightarrow> Inl (ProtoBytesErr (InvalidMessage (''Expected '' @ name @ '' command'')) object)
           | Some x \<Rightarrow> Inr x))"

definition as_sendme :: "any_relay_msg \<Rightarrow> sendme_tag option option" where
  "as_sendme m = (case m of RSendme t \<Rightarrow> Some t | _ \<Rightarrow> None)"

definition as_xon :: "any_relay_msg \<Rightarrow> xon option" where
  "as_xon m = (case m of RXon x \<Rightarrow> Some x | _ \<Rightarrow> None)"

definition as_xoff :: "any_relay_msg \<Rightarrow> u8 option" where
  "as_xoff m = (case m of RXoff v \<Rightarrow> Some v | _ \<Rightarrow> None)"

definition window_can_send :: "u16 \<Rightarrow> any_relay_msg \<Rightarrow> bool" where
  "window_can_send w msg \<longleftrightarrow> \<not> cmd_counts_towards_windows (AnyRelayMsg_cmd msg) \<or> w > 0"

definition window_about_to_send :: "any_relay_msg \<Rightarrow> (u16, proto_error, unit) eff" where
  "window_about_to_send msg =
     (if cmd_counts_towards_windows (AnyRelayMsg_cmd msg) then send_take else eret ())"

definition window_put_for_incoming_sendme :: "unparsed_relay_msg \<Rightarrow> (u16, proto_error, unit) eff" where
  "window_put_for_incoming_sendme msg =
     ebind (elift (decode_only ''SENDME'' as_sendme ''failed to decode stream sendme message'' msg))
       (\<lambda>_. send_put StreamParams)"

section \<open>XON and XOFF\<close>

datatype xon_xoff = XonSeen | XoffSeen

datatype xon_xoff_msg = XonSent XonKbpsEwma | XoffSent

record sidechannel_mitigation =
  last_recvd_xon_xoff :: "xon_xoff option"
  bytes_sent_total :: u32
  bytes_sent_since_recvd_last_advisory_xon :: u32
  bytes_sent_since_recvd_last_xoff :: u32

definition mitigation_new :: sidechannel_mitigation where
  "mitigation_new =
     \<lparr>last_recvd_xon_xoff = None, bytes_sent_total = 0,
      bytes_sent_since_recvd_last_advisory_xon = 0, bytes_sent_since_recvd_last_xoff = 0\<rparr>"

definition peer_xoff_limit_bytes :: "flow_ctrl_params \<Rightarrow> nat" where
  "peer_xoff_limit_bytes p =
     min (cells_as_bytes PAYLOAD_MAX_SIZE_ALL (cc_xoff_client p))
         (cells_as_bytes PAYLOAD_MAX_SIZE_ALL (cc_xoff_exit p)) div 2"

definition peer_xon_limit_bytes :: "flow_ctrl_params \<Rightarrow> nat" where
  "peer_xon_limit_bytes p = cells_as_bytes PAYLOAD_MAX_SIZE_ANY (cc_xon_rate p) div 2"

definition sent_stream_data :: "nat \<Rightarrow> sidechannel_mitigation \<Rightarrow> sidechannel_mitigation" where
  "sent_stream_data stream_bytes m =
     (let n = (if stream_bytes < 2 ^ 32 then word_of_nat stream_bytes else - 1 :: u32) in
      m\<lparr>bytes_sent_total := saturating_add_32 (bytes_sent_total m) n,
        bytes_sent_since_recvd_last_advisory_xon :=
          saturating_add_32 (bytes_sent_since_recvd_last_advisory_xon m) n,
        bytes_sent_since_recvd_last_xoff := saturating_add_32 (bytes_sent_since_recvd_last_xoff m) n\<rparr>)"

definition received_xon :: "flow_ctrl_params \<Rightarrow> (sidechannel_mitigation, proto_error, unit) eff" where
  "received_xon p m =
     (if bytes_sent_total m = 0
      then (Inl (ProtoViolation ''Received XON before sending any data''), m)
      else
        let is_advisory = (case last_recvd_xon_xoff m of
              Some XonSeen \<Rightarrow> True | Some XoffSeen \<Rightarrow> False | None \<Rightarrow> True);
            m1 = m\<lparr>last_recvd_xon_xoff := Some XonSeen\<rparr>
        in
        if \<not> is_advisory then (Inr (), m1)
        else if unat (bytes_sent_total m) < min (peer_xoff_limit_bytes p) (peer_xon_limit_bytes p)
        then (Inl (ProtoViolation ''Received advisory XON too early''), m1)
        else if unat (bytes_sent_since_recvd_last_advisory_xon m) < peer_xon_limit_bytes p
        then (Inl (ProtoViolation ''Received advisory XON too frequently''), m1)
        else (Inr (), m1\<lparr>bytes_sent_since_recvd_last_advisory_xon := 0\<rparr>))"

definition received_xoff :: "flow_ctrl_params \<Rightarrow> (sidechannel_mitigation, proto_error, unit) eff" where
  "received_xoff p m =
     (if bytes_sent_total m = 0
      then (Inl (ProtoViolation ''Received XOFF before sending any data''), m)
      else if last_recvd_xon_xoff m = Some XoffSeen
      then (Inl (ProtoViolation ''Received consecutive XOFF messages''), m)
      else if unat (bytes_sent_total m) < peer_xoff_limit_bytes p
      then (Inl (ProtoViolation ''Received XOFF too early''), m)
      else if unat (bytes_sent_since_recvd_last_xoff m) < peer_xoff_limit_bytes p
      then (Inl (ProtoViolation ''Received XOFF too frequently''), m)
      else (Inr (), m\<lparr>bytes_sent_since_recvd_last_xoff := 0, last_recvd_xon_xoff := Some XoffSeen\<rparr>))"

text \<open>\<open>StreamRateLimit\<close>: bytes per second.\<close>

definition rate_limit_of_xon :: "XonKbpsEwma \<Rightarrow> u64" where
  "rate_limit_of_xon k =
     (case k of Limited rate_kbps \<Rightarrow> ucast rate_kbps * 1000 div 8 | Unlimited \<Rightarrow> - 1)"

record xon_xoff_ctrl =
  xx_params :: flow_ctrl_params
  xx_rate_limit :: u64
  xx_drain_requested :: bool
  xx_last_sent :: "xon_xoff_msg option"
  xx_xoff_limit :: u32
  xx_mitigation :: "sidechannel_mitigation option"

definition xon_xoff_new :: "flow_ctrl_params \<Rightarrow> bool \<Rightarrow> u64 \<Rightarrow> xon_xoff_ctrl" where
  "xon_xoff_new p use_sidechannel_mitigations rate_limit =
     \<lparr>xx_params = p, xx_rate_limit = rate_limit, xx_drain_requested = False, xx_last_sent = None,
      xx_xoff_limit = max (cc_xoff_client p) (cc_xoff_exit p),
      xx_mitigation = (if use_sidechannel_mitigations then Some mitigation_new else None)\<rparr>"

definition xon_xoff_about_to_send :: "any_relay_msg \<Rightarrow> (xon_xoff_ctrl, proto_error, unit) eff" where
  "xon_xoff_about_to_send msg c =
     (Inr (),
      case xx_mitigation c of
        None \<Rightarrow> c
      | Some m \<Rightarrow>
          (case msg of
             RData d \<Rightarrow> c\<lparr>xx_mitigation := Some (sent_stream_data (length d) m)\<rparr>
           | _ \<Rightarrow> c))"

text \<open>A check of the mitigation, where it is enabled.\<close>

definition with_mitigation ::
  "(flow_ctrl_params \<Rightarrow> (sidechannel_mitigation, proto_error, unit) eff) \<Rightarrow> (xon_xoff_ctrl, proto_error, unit) eff" where
  "with_mitigation f c =
     (case xx_mitigation c of
        None \<Rightarrow> (Inr (), c)
      | Some m \<Rightarrow> (case f (xx_params c) m of (r, m') \<Rightarrow> (r, c\<lparr>xx_mitigation := Some m'\<rparr>)))"

definition xon_xoff_handle_incoming_xon :: "unparsed_relay_msg \<Rightarrow> (xon_xoff_ctrl, proto_error, unit) eff" where
  "xon_xoff_handle_incoming_xon msg =
     ebind (elift (decode_only ''XON'' as_xon ''failed to decode XON message'' msg)) (\<lambda>xon.
     if xon_version xon \<noteq> 0 then efail (ProtoViolation ''Unrecognized XON version'')
     else
       ebind (with_mitigation received_xon) (\<lambda>_ c.
         (Inr (), c\<lparr>xx_rate_limit := rate_limit_of_xon (xon_kbps_ewma xon)\<rparr>)))"

definition xon_xoff_handle_incoming_xoff :: "unparsed_relay_msg \<Rightarrow> (xon_xoff_ctrl, proto_error, unit) eff" where
  "xon_xoff_handle_incoming_xoff msg =
     ebind (elift (decode_only ''XOFF'' as_xoff ''failed to decode XOFF message'' msg)) (\<lambda>version.
     if version \<noteq> 0 then efail (ProtoViolation ''Unrecognized XOFF version'')
     else ebind (with_mitigation received_xoff) (\<lambda>_ c. (Inr (), c\<lparr>xx_rate_limit := 0\<rparr>)))"

definition xoff_limit_bytes :: "xon_xoff_ctrl \<Rightarrow> nat" where
  "xoff_limit_bytes c = cells_as_bytes PAYLOAD_MAX_SIZE_ALL (xx_xoff_limit c)"

definition xon_xoff_maybe_send_xon ::
  "XonKbpsEwma \<Rightarrow> nat \<Rightarrow> (xon_xoff_ctrl, proto_error, xon option) eff" where
  "xon_xoff_maybe_send_xon rate buffer_len c =
     (if buffer_len > xoff_limit_bytes c then (Inr None, c\<lparr>xx_drain_requested := True\<rparr>)
      else (Inr (Some \<lparr>xon_version = 0, xon_kbps_ewma = rate\<rparr>), c\<lparr>xx_last_sent := Some (XonSent rate)\<rparr>))"

definition xon_xoff_maybe_send_xoff :: "nat \<Rightarrow> (xon_xoff_ctrl, proto_error, u8 option) eff" where
  "xon_xoff_maybe_send_xoff buffer_len c =
     (if xx_last_sent c = Some XoffSent then (Inr None, c)
      else if buffer_len \<le> xoff_limit_bytes c then (Inr None, c)
      else (Inr (Some 0), c\<lparr>xx_last_sent := Some XoffSent, xx_drain_requested := True\<rparr>))"

section \<open>Either control\<close>

datatype stream_flow_ctrl = WindowBased u16 | XonXoffBased xon_xoff_ctrl

text \<open>The dispatch of the trait \<open>FlowCtrlHooks\<close> to the variant.\<close>

definition on_window :: "(u16, proto_error, 'a) eff \<Rightarrow> u16 \<Rightarrow> (proto_error + 'a) \<times> stream_flow_ctrl" where
  "on_window f w = (case f w of (r, w') \<Rightarrow> (r, WindowBased w'))"

definition on_xon_xoff ::
  "(xon_xoff_ctrl, proto_error, 'a) eff \<Rightarrow> xon_xoff_ctrl \<Rightarrow> (proto_error + 'a) \<times> stream_flow_ctrl" where
  "on_xon_xoff f c = (case f c of (r, c') \<Rightarrow> (r, XonXoffBased c'))"

fun flow_can_send :: "any_relay_msg \<Rightarrow> stream_flow_ctrl \<Rightarrow> bool" where
  "flow_can_send msg (WindowBased w) = window_can_send w msg"
| "flow_can_send msg (XonXoffBased c) = True"

fun flow_about_to_send :: "any_relay_msg \<Rightarrow> (stream_flow_ctrl, proto_error, unit) eff" where
  "flow_about_to_send msg (WindowBased w) = on_window (window_about_to_send msg) w"
| "flow_about_to_send msg (XonXoffBased c) = on_xon_xoff (xon_xoff_about_to_send msg) c"

fun put_for_incoming_sendme :: "unparsed_relay_msg \<Rightarrow> (stream_flow_ctrl, proto_error, unit) eff" where
  "put_for_incoming_sendme msg (WindowBased w) = on_window (window_put_for_incoming_sendme msg) w"
| "put_for_incoming_sendme msg (XonXoffBased c) =
     (Inl (ProtoViolation ''Stream level SENDME not allowed due to congestion control''), XonXoffBased c)"

fun handle_incoming_xon :: "unparsed_relay_msg \<Rightarrow> (stream_flow_ctrl, proto_error, unit) eff" where
  "handle_incoming_xon msg (WindowBased w) =
     (Inl (ProtoViolation ''XON messages not allowed with window flow control''), WindowBased w)"
| "handle_incoming_xon msg (XonXoffBased c) = on_xon_xoff (xon_xoff_handle_incoming_xon msg) c"

fun handle_incoming_xoff :: "unparsed_relay_msg \<Rightarrow> (stream_flow_ctrl, proto_error, unit) eff" where
  "handle_incoming_xoff msg (WindowBased w) =
     (Inl (ProtoViolation ''XOFF messages not allowed with window flow control''), WindowBased w)"
| "handle_incoming_xoff msg (XonXoffBased c) = on_xon_xoff (xon_xoff_handle_incoming_xoff msg) c"

fun maybe_send_xon :: "XonKbpsEwma \<Rightarrow> nat \<Rightarrow> (stream_flow_ctrl, proto_error, xon option) eff" where
  "maybe_send_xon rate buffer_len (WindowBased w) =
     (Inl (ProtoViolation ''XON messages cannot be sent with window flow control''), WindowBased w)"
| "maybe_send_xon rate buffer_len (XonXoffBased c) = on_xon_xoff (xon_xoff_maybe_send_xon rate buffer_len) c"

fun maybe_send_xoff :: "nat \<Rightarrow> (stream_flow_ctrl, proto_error, u8 option) eff" where
  "maybe_send_xoff buffer_len (WindowBased w) =
     (Inl (ProtoViolation ''XOFF messages cannot be sent with window flow control''), WindowBased w)"
| "maybe_send_xoff buffer_len (XonXoffBased c) = on_xon_xoff (xon_xoff_maybe_send_xoff buffer_len) c"

section \<open>Histories of a stream\<close>

datatype mit_event = SentData nat | GotXon | GotXoff

fun mit_step :: "flow_ctrl_params \<Rightarrow> mit_event \<Rightarrow> (sidechannel_mitigation, proto_error, unit) eff" where
  "mit_step p (SentData n) m = (Inr (), sent_stream_data n m)"
| "mit_step p GotXon m = received_xon p m"
| "mit_step p GotXoff m = received_xoff p m"

definition mit_run :: "flow_ctrl_params \<Rightarrow> mit_event list \<Rightarrow> (sidechannel_mitigation, proto_error, unit list) eff" where
  "mit_run p evs = emapM (mit_step p) evs"

definition bytes_sent :: "mit_event list \<Rightarrow> nat" where
  "bytes_sent evs = sum_list (map (\<lambda>e. case e of SentData n \<Rightarrow> n | _ \<Rightarrow> 0) evs)"

definition count_ev :: "mit_event \<Rightarrow> mit_event list \<Rightarrow> nat" where
  "count_ev e evs = length (filter (\<lambda>x. x = e) evs)"

section \<open>Laws\<close>

lemma saturating_add_32_le: "unat (saturating_add_32 a b) \<le> unat a + unat b"
proof (cases "unat a + unat b < 2 ^ 32")
  case True
  then show ?thesis by (simp add: saturating_add_32_def unat_word_ariths)
next
  case False
  have "unat (- 1 :: u32) < 2 ^ 32" using unat_lt2p [of "- 1 :: u32"] by simp
  then show ?thesis using False by (simp add: saturating_add_32_def)
qed

lemma clamp_le: "unat (if n < 2 ^ 32 then word_of_nat n else - 1 :: u32) \<le> n"
proof (cases "n < 2 ^ 32")
  case True
  then show ?thesis by (simp add: unat_of_nat)
next
  case False
  have "unat (- 1 :: u32) < 2 ^ 32" using unat_lt2p [of "- 1 :: u32"] by simp
  then show ?thesis using False by simp
qed

text \<open>
  The accounts of the mitigation: the bytes sent pay for the accepted XOFFs, and together
  with the accepted XOFFs for the accepted XONs.
\<close>

definition mit_inv :: "flow_ctrl_params \<Rightarrow> nat \<Rightarrow> nat \<Rightarrow> nat \<Rightarrow> sidechannel_mitigation \<Rightarrow> bool" where
  "mit_inv p sent xoffs xons m \<longleftrightarrow>
     peer_xoff_limit_bytes p * xoffs + unat (bytes_sent_since_recvd_last_xoff m) \<le> sent \<and>
     peer_xon_limit_bytes p * xons + unat (bytes_sent_since_recvd_last_advisory_xon m) +
       (if last_recvd_xon_xoff m = Some XoffSeen then peer_xon_limit_bytes p else 0)
       \<le> sent + peer_xon_limit_bytes p * xoffs"

lemma mit_inv_sent: "mit_inv p t xo xn m \<Longrightarrow> mit_inv p (t + n) xo xn (sent_stream_data n m)"
proof -
  let ?n = "if n < 2 ^ 32 then word_of_nat n else - 1 :: u32"
  assume "mit_inv p t xo xn m"
  then show ?thesis
    using clamp_le [of n] saturating_add_32_le [of "bytes_sent_since_recvd_last_xoff m" ?n]
      saturating_add_32_le [of "bytes_sent_since_recvd_last_advisory_xon m" ?n]
    unfolding mit_inv_def sent_stream_data_def Let_def by (auto split: if_splits)
qed

lemma mit_inv_xoff:
  assumes "mit_inv p t xo xn m" "received_xoff p m = (Inr (), m')"
  shows "mit_inv p t (Suc xo) xn m'"
  using assms by (auto simp: received_xoff_def mit_inv_def split: if_splits)

lemma mit_inv_xon:
  assumes "mit_inv p t xo xn m" "received_xon p m = (Inr (), m')"
  shows "mit_inv p t xo (Suc xn) m'"
  using assms
  by (auto simp: received_xon_def mit_inv_def Let_def split: if_splits option.splits xon_xoff.splits)

lemma mit_run_inv:
  assumes "mit_inv p t xo xn m" "mit_run p evs m = (Inr us, m')"
  shows "mit_inv p (t + bytes_sent evs) (xo + count_ev GotXoff evs) (xn + count_ev GotXon evs) m'"
  using assms
proof (induction evs arbitrary: m t xo xn us)
  case Nil
  then show ?case by (simp add: mit_run_def eret_def bytes_sent_def count_ev_def)
next
  case (Cons e evs)
  obtain m1 us' where step: "mit_step p e m = (Inr (), m1)" and rest: "mit_run p evs m1 = (Inr us', m')"
    using Cons.prems(2) by (auto simp: mit_run_def ebind_eq_Inr eret_def)
  have "mit_inv p (t + bytes_sent [e]) (xo + count_ev GotXoff [e]) (xn + count_ev GotXon [e]) m1"
    using step Cons.prems(1)
    by (cases e) (auto simp: bytes_sent_def count_ev_def mit_inv_sent intro: mit_inv_xoff mit_inv_xon)
  from Cons.IH [OF this rest] show ?case
    by (simp add: bytes_sent_def count_ev_def add.assoc split: if_splits)
qed

section \<open>Properties\<close>

text \<open>
  C26. The sidechannel mitigation bounds what the other end can signal. However the bytes,
  XONs and XOFFs of a stream come in, as long as none is refused: the number of XOFFs times
  half the XOFF limit is at most the number of bytes sent, and the number of XONs exceeds
  the number of XOFFs by at most the bytes sent divided by half the XON rate.
\<close>

theorem mitigation_rate_bound:
  assumes "fst (mit_run p evs mitigation_new) = Inr us"
  shows "peer_xoff_limit_bytes p * count_ev GotXoff evs \<le> bytes_sent evs \<and>
    peer_xon_limit_bytes p * count_ev GotXon evs \<le> bytes_sent evs + peer_xon_limit_bytes p * count_ev GotXoff evs"
proof -
  obtain m' where run: "mit_run p evs mitigation_new = (Inr us, m')"
    using assms by (cases "mit_run p evs mitigation_new") simp
  have "mit_inv p 0 0 0 mitigation_new" by (simp add: mit_inv_def mitigation_new_def)
  from mit_run_inv [OF this run] show ?thesis by (simp add: mit_inv_def)
qed

definition ex_flow_params :: flow_ctrl_params where
  "ex_flow_params = \<lparr>cc_xoff_client = 2, cc_xoff_exit = 2, cc_xon_rate = 2, cc_xon_change_pct = 25, cc_xon_ewma_cnt = 2\<rparr>"

lemma payload_sizes [simp]: "PAYLOAD_MAX_SIZE_ALL = 488" "PAYLOAD_MAX_SIZE_ANY = 498"
  by (simp_all add: PAYLOAD_MAX_SIZE_ALL_def PAYLOAD_MAX_SIZE_ANY_def PAYLOAD_MAX_SIZE_V0_def
      PAYLOAD_MAX_SIZE_V1_WITHOUT_STREAM_ID_def PAYLOAD_MAX_SIZE_V1_WITH_STREAM_ID_def
      BODY_MAX_LEN_V0_def BODY_MAX_LEN_V1_def)

lemma mit_sent_new:
  assumes "0 < n" "n < 2 ^ 32"
  shows "\<exists>w. sent_stream_data n mitigation_new =
      \<lparr>last_recvd_xon_xoff = None, bytes_sent_total = w, bytes_sent_since_recvd_last_advisory_xon = w,
       bytes_sent_since_recvd_last_xoff = w\<rparr> \<and> unat w = n \<and> w \<noteq> 0"
proof -
  have "unat (word_of_nat n :: u32) = n" using assms by (simp add: unat_of_nat)
  moreover from this have "(word_of_nat n :: u32) \<noteq> 0" using assms by auto
  ultimately show ?thesis
    using assms by (auto simp: sent_stream_data_def mitigation_new_def saturating_add_32_def Let_def)
qed

text \<open>A first XOFF and the XON after it are accepted once enough bytes have been sent.\<close>

lemma mit_xoff_xon:
  assumes "0 < n" "n < 2 ^ 32" "peer_xoff_limit_bytes p \<le> n"
  shows "\<exists>m. mit_run p [SentData n, GotXoff, GotXon] mitigation_new = (Inr [(), (), ()], m) \<and>
      unat (bytes_sent_total m) = n \<and> last_recvd_xon_xoff m = Some XonSeen \<and>
      bytes_sent_since_recvd_last_xoff m = 0"
proof -
  obtain w where w: "sent_stream_data n mitigation_new =
      \<lparr>last_recvd_xon_xoff = None, bytes_sent_total = w, bytes_sent_since_recvd_last_advisory_xon = w,
       bytes_sent_since_recvd_last_xoff = w\<rparr>" "unat w = n" "w \<noteq> 0"
    using mit_sent_new [OF assms(1,2)] by blast
  show ?thesis
    using assms(3) w(2,3)
    by (simp add: mit_run_def ebind_def eret_def w(1) received_xoff_def received_xon_def)
qed

theorem mitigation_rate_bound_witness:
  "488 * count_ev GotXoff [SentData 600, GotXoff, GotXon] \<le> bytes_sent [SentData 600, GotXoff, GotXon]"
proof -
  have "fst (mit_run ex_flow_params [SentData 600, GotXoff, GotXon] mitigation_new) = Inr [(), (), ()]"
    using mit_xoff_xon [of 600 ex_flow_params]
    by (auto simp: peer_xoff_limit_bytes_def cells_as_bytes_def ex_flow_params_def)
  from mitigation_rate_bound [OF this] show ?thesis
    by (simp add: peer_xoff_limit_bytes_def cells_as_bytes_def ex_flow_params_def)
qed

text \<open>
  C36. The mitigation refuses an honest other end when data is in flight. The other end
  follows the code: it sends XOFF when its buffer exceeds its limit, XON once its reader has
  emptied the buffer, and XOFF again when data that was already under way fills the buffer
  once more. The sender, which had sent all of it before the first XOFF arrived, accepts the
  first two messages and treats the third as a protocol violation, for every limit of at
  least one cell.
\<close>

theorem honest_xoff_refused:
  assumes limit: "0 < cc_xoff_client p" "0 < cc_xoff_exit p"
    and c: "c = xon_xoff_new p False rate"
    and b: "xoff_limit_bytes c < b1" "xoff_limit_bytes c < b2" "b1 + b2 < 2 ^ 32"
  shows "(\<exists>c1 c2 c3. xon_xoff_maybe_send_xoff b1 c = (Inr (Some 0), c1) \<and>
      xon_xoff_maybe_send_xon Unlimited 0 c1 = (Inr (Some \<lparr>xon_version = 0, xon_kbps_ewma = Unlimited\<rparr>), c2) \<and>
      xon_xoff_maybe_send_xoff b2 c2 = (Inr (Some 0), c3)) \<and>
    fst (mit_run p [SentData (b1 + b2), GotXoff, GotXon] mitigation_new) = Inr [(), (), ()] \<and>
    fst (mit_run p [SentData (b1 + b2), GotXoff, GotXon, GotXoff] mitigation_new) =
      Inl (ProtoViolation ''Received XOFF too frequently'')"
proof (intro conjI)
  have cells: "1 \<le> unat (cc_xoff_client p)" "1 \<le> unat (cc_xoff_exit p)"
    using limit by (simp_all add: word_less_nat_alt)
  have lim: "xoff_limit_bytes c = unat (max (cc_xoff_client p) (cc_xoff_exit p)) * 488"
    by (simp add: c xoff_limit_bytes_def xon_xoff_new_def cells_as_bytes_def)
  have "unat (cc_xoff_client p) \<le> unat (max (cc_xoff_client p) (cc_xoff_exit p))"
    by (simp add: word_le_nat_alt max_def)
  then have le: "peer_xoff_limit_bytes p \<le> b1 + b2"
    using b(1) unfolding lim peer_xoff_limit_bytes_def cells_as_bytes_def by simp
  have pos: "0 < peer_xoff_limit_bytes p"
    using cells by (simp add: peer_xoff_limit_bytes_def cells_as_bytes_def min_def)
  show "\<exists>c1 c2 c3. xon_xoff_maybe_send_xoff b1 c = (Inr (Some 0), c1) \<and>
      xon_xoff_maybe_send_xon Unlimited 0 c1 = (Inr (Some \<lparr>xon_version = 0, xon_kbps_ewma = Unlimited\<rparr>), c2) \<and>
      xon_xoff_maybe_send_xoff b2 c2 = (Inr (Some 0), c3)"
    using b(1,2) unfolding c
    by (simp add: xon_xoff_maybe_send_xoff_def xon_xoff_maybe_send_xon_def xon_xoff_new_def xoff_limit_bytes_def)
  obtain m where m: "mit_run p [SentData (b1 + b2), GotXoff, GotXon] mitigation_new = (Inr [(), (), ()], m)"
    "unat (bytes_sent_total m) = b1 + b2" "last_recvd_xon_xoff m = Some XonSeen" "bytes_sent_since_recvd_last_xoff m = 0"
    using mit_xoff_xon [of "b1 + b2" p] b le by auto
  show "fst (mit_run p [SentData (b1 + b2), GotXoff, GotXon] mitigation_new) = Inr [(), (), ()]"
    by (simp add: m(1))
  have "received_xoff p m = (Inl (ProtoViolation ''Received XOFF too frequently''), m)"
    using m(2-4) le pos b by (auto simp: received_xoff_def)
  then show "fst (mit_run p [SentData (b1 + b2), GotXoff, GotXon, GotXoff] mitigation_new) =
      Inl (ProtoViolation ''Received XOFF too frequently'')"
    using m(1) by (auto simp: mit_run_def ebind_def eret_def split: prod.splits sum.splits)
qed

theorem honest_xoff_refused_witness:
  "fst (mit_run ex_flow_params [SentData 2000, GotXoff, GotXon, GotXoff] mitigation_new) =
     Inl (ProtoViolation ''Received XOFF too frequently'')"
  using honest_xoff_refused [OF _ _ refl, of ex_flow_params 0 1000 1000]
  by (simp add: ex_flow_params_def xoff_limit_bytes_def xon_xoff_new_def cells_as_bytes_def)

end
