(* ===== verification/PollSet.thy ===== *)
theory PollSet
  imports StreamFlow "HOL-Library.Product_Lexorder"
begin

text \<open>
  The set of streams that a circuit hop polls: \<open>tor-proto/src/util/stream_poll_set.rs\<close> on top
  of \<open>keyed_futures_unordered.rs\<close>, with the activity counter of \<open>tunnel_activity.rs\<close>.

  \<^item> A stream is an arbitrary type with the operations of \<open>PeekableStream\<close>, the record
    \<open>peekable\<close>: what peeking shows, the effect of a peek that returns \<open>Pending\<close> (it registers
    the waker), whether a waker is registered, and taking the next item.
  \<^item> A hash map is a map. A \<open>BTreeMap\<close> is an association list in ascending order, since the
    code iterates over it.
  \<^item> The unbounded channel of wake-ups is the list of keys in it. Waking appends a key.
  \<^item> A panic is an error value.
\<close>

section \<open>Ordered maps\<close>

fun bt_insert :: "'a::linorder \<Rightarrow> 'b \<Rightarrow> ('a \<times> 'b) list \<Rightarrow> ('a \<times> 'b) list" where
  "bt_insert k v [] = [(k, v)]"
| "bt_insert k v ((k', v') # xs) =
     (if k < k' then (k, v) # (k', v') # xs
      else if k = k' then (k, v) # xs
      else (k', v') # bt_insert k v xs)"

definition bt_remove :: "'a \<Rightarrow> ('a \<times> 'b) list \<Rightarrow> ('a \<times> 'b) list" where
  "bt_remove k xs = filter (\<lambda>(k', _). k' \<noteq> k) xs"

definition bt_update :: "'a \<Rightarrow> ('b \<Rightarrow> 'b) \<Rightarrow> ('a \<times> 'b) list \<Rightarrow> ('a \<times> 'b) list" where
  "bt_update k f xs = map (\<lambda>(k', v). (k', if k' = k then f v else v)) xs"

definition bt_ordered :: "('a::linorder \<times> 'b) list \<Rightarrow> bool" where
  "bt_ordered xs \<longleftrightarrow> sorted_wrt (<) (map fst xs)"

lemma map_of_bt_insert: "map_of (bt_insert k v xs) = (map_of xs)(k \<mapsto> v)"
  by (induction k v xs rule: bt_insert.induct) (auto simp: fun_eq_iff)

lemma map_of_bt_remove: "map_of (bt_remove k xs) = (map_of xs)(k := None)"
  by (induction xs) (auto simp: bt_remove_def fun_eq_iff)

lemma map_of_bt_update: "map_of (bt_update k f xs) = (map_of xs)(k := map_option f (map_of xs k))"
  by (induction xs) (auto simp: bt_update_def fun_eq_iff)

lemma set_bt_insert: "fst ` set (bt_insert k v xs) = insert k (fst ` set xs)"
  by (induction k v xs rule: bt_insert.induct) auto

lemma bt_ordered_insert: "bt_ordered xs \<Longrightarrow> bt_ordered (bt_insert k v xs)"
proof (induction k v xs rule: bt_insert.induct)
  case (2 k v k' v' xs)
  have "fst ` set (bt_insert k v xs) = insert k (fst ` set xs)" by (rule set_bt_insert)
  with 2 show ?case by (auto simp: bt_ordered_def)
qed (simp add: bt_ordered_def)

lemma bt_ordered_remove: "bt_ordered xs \<Longrightarrow> bt_ordered (bt_remove k xs)"
  by (induction xs) (auto simp: bt_ordered_def bt_remove_def)

lemma bt_ordered_update: "bt_ordered xs \<Longrightarrow> bt_ordered (bt_update k f xs)"
proof -
  have "map fst (bt_update k f xs) = map fst xs" by (induction xs) (auto simp: bt_update_def)
  then show "bt_ordered xs \<Longrightarrow> ?thesis" by (simp add: bt_ordered_def)
qed

lemmas bt_maps = map_of_bt_insert map_of_bt_remove map_of_bt_update

section \<open>Activity of a tunnel\<close>

datatype tunnel_activity = NeverUsed | Disused nat | InUse nat

definition n_open_streams :: "tunnel_activity \<Rightarrow> nat" where
  "n_open_streams a = (case a of NeverUsed \<Rightarrow> 0 | Disused _ \<Rightarrow> 0 | InUse n \<Rightarrow> n)"

definition inc_streams :: "tunnel_activity \<Rightarrow> tunnel_activity" where
  "inc_streams a = InUse (n_open_streams a + 1)"

definition dec_streams :: "nat \<Rightarrow> tunnel_activity \<Rightarrow> tunnel_activity option" where
  "dec_streams now a =
     (case a of
        InUse n \<Rightarrow> Some (if n - 1 \<noteq> 0 then InUse (n - 1) else Disused now)
      | _ \<Rightarrow> None)"

definition disused_since :: "tunnel_activity \<Rightarrow> nat option" where
  "disused_since a = (case a of Disused since \<Rightarrow> Some since | _ \<Rightarrow> None)"

section \<open>Streams that can be peeked at\<close>

datatype 'a poll = Pending | Ready 'a

record ('s, 'i) peekable =
  pk_peek :: "'s \<Rightarrow> 'i option poll"
  pk_register :: "'s \<Rightarrow> 's"
  pk_waker :: "'s \<Rightarrow> bool"
  pk_next :: "'s \<Rightarrow> 'i option poll \<times> 's"

section \<open>Keyed futures\<close>

record ('k, 's) kfu =
  kfu_notifications :: "'k list"
  kfu_futures :: "'k \<rightharpoonup> 's"

definition kfu_new :: "('k, 's) kfu" where
  "kfu_new = \<lparr>kfu_notifications = [], kfu_futures = Map.empty\<rparr>"

definition kfu_try_insert :: "'k \<Rightarrow> 's \<Rightarrow> ('k, 's) kfu \<Rightarrow> ('k, 's) kfu option" where
  "kfu_try_insert key fut u =
     (case kfu_futures u key of
        Some _ \<Rightarrow> None
      | None \<Rightarrow> Some \<lparr>kfu_notifications = kfu_notifications u @ [key],
                     kfu_futures = (kfu_futures u)(key \<mapsto> fut)\<rparr>)"

definition kfu_remove :: "'k \<Rightarrow> ('k, 's) kfu \<Rightarrow> ('s \<times> ('k, 's) kfu) option" where
  "kfu_remove key u =
     (case kfu_futures u key of
        None \<Rightarrow> None
      | Some s \<Rightarrow> Some (s, u\<lparr>kfu_futures := (kfu_futures u)(key := None)\<rparr>))"

text \<open>
  The loop of \<open>poll_next\<close> over the notifications; the futures are \<open>PeekableReady\<close>, which
  returns the stream as soon as peeking does not say \<open>Pending\<close>.
\<close>

fun kfu_loop :: "('s, 'i) peekable \<Rightarrow> 'k list \<Rightarrow> ('k \<rightharpoonup> 's) \<Rightarrow> ('k \<times> 's) option poll \<times> ('k, 's) kfu" where
  "kfu_loop ops [] fs = (Pending, \<lparr>kfu_notifications = [], kfu_futures = fs\<rparr>)"
| "kfu_loop ops (key # ks) fs =
     (case fs key of
        None \<Rightarrow> kfu_loop ops ks fs
      | Some s \<Rightarrow>
          (case pk_peek ops s of
             Ready _ \<Rightarrow> (Ready (Some (key, s)), \<lparr>kfu_notifications = ks, kfu_futures = fs(key := None)\<rparr>)
           | Pending \<Rightarrow> kfu_loop ops ks (fs(key \<mapsto> pk_register ops s))))"

definition kfu_poll_next :: "('s, 'i) peekable \<Rightarrow> ('k, 's) kfu \<Rightarrow> ('k \<times> 's) option poll \<times> ('k, 's) kfu" where
  "kfu_poll_next ops u =
     (if kfu_futures u = Map.empty then (Ready None, u)
      else kfu_loop ops (kfu_notifications u) (kfu_futures u))"

text \<open>A registered waker is woken: its key goes into the channel.\<close>

definition kfu_wake :: "'k \<Rightarrow> ('k, 's) kfu \<Rightarrow> ('k, 's) kfu" where
  "kfu_wake key u = u\<lparr>kfu_notifications := kfu_notifications u @ [key]\<rparr>"

lemma kfu_loop_shorter:
  "kfu_loop ops ks fs = (Ready (Some (key, s)), u) \<Longrightarrow> length (kfu_notifications u) < length ks"
  by (induction ops ks fs rule: kfu_loop.induct)
    (auto split: option.splits poll.splits intro: less_SucI)

lemma kfu_poll_shorter:
  "kfu_poll_next ops u = (Ready (Some (key, s)), u') \<Longrightarrow>
     length (kfu_notifications u') < length (kfu_notifications u)"
  by (auto simp: kfu_poll_next_def kfu_loop_shorter split: if_splits)

section \<open>The poll set\<close>

datatype ps_error = KeyAlreadyInserted | PsPanic string

record ('k, 'p, 's) poll_set =
  ps_priorities :: "'k \<rightharpoonup> 'p"
  ps_ready :: "(('p \<times> 'k) \<times> 's) list"
  ps_pending :: "('k, 's) kfu"
  ps_activity :: tunnel_activity

definition ps_new :: "('k, 'p, 's) poll_set" where
  "ps_new = \<lparr>ps_priorities = Map.empty, ps_ready = [], ps_pending = kfu_new, ps_activity = NeverUsed\<rparr>"

definition ps_try_insert :: "'k \<Rightarrow> 'p \<Rightarrow> 's \<Rightarrow> (('k, 'p, 's) poll_set, ps_error, unit) eff" where
  "ps_try_insert key priority stream ps =
     (case ps_priorities ps key of
        Some _ \<Rightarrow> (Inl KeyAlreadyInserted, ps)
      | None \<Rightarrow>
          (case kfu_try_insert key stream (ps_pending ps) of
             None \<Rightarrow> (Inl (PsPanic ''Unexpected duplicate key''), ps)
           | Some u \<Rightarrow>
               (Inr (), ps\<lparr>ps_pending := u, ps_activity := inc_streams (ps_activity ps),
                         ps_priorities := (ps_priorities ps)(key \<mapsto> priority)\<rparr>)))"

definition ps_remove ::
  "nat \<Rightarrow> 'k \<Rightarrow> (('k, 'p, 's) poll_set, ps_error, ('p \<times> 's) option) eff" where
  "ps_remove now key ps =
     (case ps_priorities ps key of
        None \<Rightarrow> (Inr None, ps)
      | Some priority \<Rightarrow>
          let ps1 = ps\<lparr>ps_priorities := (ps_priorities ps)(key := None)\<rparr> in
          (case dec_streams now (ps_activity ps1) of
             None \<Rightarrow> (Inl (PsPanic ''Tried to decrement 0!''), ps1)
           | Some act \<Rightarrow>
               let ps2 = ps1\<lparr>ps_activity := act\<rparr> in
               (case kfu_remove key (ps_pending ps2) of
                  Some (stream, u) \<Rightarrow> (Inr (Some (priority, stream)), ps2\<lparr>ps_pending := u\<rparr>)
                | None \<Rightarrow>
                    (case map_of (ps_ready ps2) (priority, key) of
                       None \<Rightarrow> (Inl (PsPanic ''Unexpectedly no value for key''), ps2)
                     | Some stream \<Rightarrow>
                         (Inr (Some (priority, stream)),
                          ps2\<lparr>ps_ready := bt_remove (priority, key) (ps_ready ps2)\<rparr>)))))"

function ps_poll_ready_loop ::
  "('s, 'i) peekable \<Rightarrow> (('k::linorder, 'p::linorder, 's) poll_set, ps_error, unit) eff" where
  "ps_poll_ready_loop ops ps =
     (case kfu_poll_next ops (ps_pending ps) of
        (Ready (Some (key, stream)), u) \<Rightarrow>
          let ps1 = ps\<lparr>ps_pending := u\<rparr> in
          (case ps_priorities ps1 key of
             None \<Rightarrow> (Inl (PsPanic ''Missing priority''), ps1)
           | Some priority \<Rightarrow>
               if map_of (ps_ready ps1) (priority, key) \<noteq> None
               then (Inl (PsPanic ''assertion failed: prev.is_none()''), ps1)
               else ps_poll_ready_loop ops
                      (ps1\<lparr>ps_ready := bt_insert (priority, key) stream (ps_ready ps1)\<rparr>))
      | (_, u) \<Rightarrow> (Inr (), ps\<lparr>ps_pending := u\<rparr>))"
  by pat_completeness auto

termination
  by (relation "measure (\<lambda>(_, ps). length (kfu_notifications (ps_pending ps)))")
    (auto dest!: kfu_poll_shorter [OF sym])

definition ps_poll_ready_iter ::
  "('s, 'i) peekable \<Rightarrow> (('k::linorder, 'p::linorder, 's) poll_set, ps_error, ('k \<times> 'p \<times> 's) list) eff" where
  "ps_poll_ready_iter ops =
     ebind (ps_poll_ready_loop ops) (\<lambda>_ ps. (Inr (map (\<lambda>((p, k), s). (k, p, s)) (ps_ready ps)), ps))"

definition ps_take_ready_value_and_reprioritize ::
  "('s, 'i) peekable \<Rightarrow> 'k \<Rightarrow> 'p \<Rightarrow> (('k, 'p, 's) poll_set, ps_error, ('p \<times> 'i) option) eff" where
  "ps_take_ready_value_and_reprioritize ops key new_priority ps =
     (case ps_priorities ps key of
        None \<Rightarrow> (Inr None, ps)
      | Some priority \<Rightarrow>
          (case map_of (ps_ready ps) (priority, key) of
             None \<Rightarrow> (Inr None, ps)
           | Some stream \<Rightarrow>
               let ps1 = ps\<lparr>ps_ready := bt_remove (priority, key) (ps_ready ps)\<rparr> in
               (case pk_peek ops stream of
                  Ready None \<Rightarrow> (Inr None, ps1)
                | Pending \<Rightarrow>
                    (case kfu_try_insert key stream (ps_pending ps1) of
                       None \<Rightarrow> (Inl (PsPanic ''Key unexpectedly in both ready and unready list''), ps1)
                     | Some u \<Rightarrow> (Inr None, ps1\<lparr>ps_pending := u\<rparr>))
                | Ready (Some _) \<Rightarrow>
                    (case pk_next ops stream of
                       (Ready (Some val), stream') \<Rightarrow>
                         let ps2 = ps1\<lparr>ps_priorities := (ps_priorities ps1)(key \<mapsto> new_priority)\<rparr> in
                         (case kfu_try_insert key stream' (ps_pending ps2) of
                            None \<Rightarrow> (Inl (PsPanic ''Unexpected pending stream entry''), ps2)
                          | Some u \<Rightarrow> (Inr (Some (priority, val)), ps2\<lparr>ps_pending := u\<rparr>))
                     | _ \<Rightarrow> (Inl (PsPanic ''Polling stream returned a different result than peeking''), ps1)))))"

definition ps_stream :: "'k \<Rightarrow> ('k, 'p, 's) poll_set \<Rightarrow> 's option" where
  "ps_stream key ps =
     (case kfu_futures (ps_pending ps) key of
        Some s \<Rightarrow> Some s
      | None \<Rightarrow>
          (case ps_priorities ps key of
             None \<Rightarrow> None
           | Some priority \<Rightarrow> map_of (ps_ready ps) (priority, key)))"

text \<open>
  \<open>stream_mut\<close>: a change of the stream through the reference the method returns. Where the
  change wakes the registered waker, the key goes into the channel of notifications.
\<close>

definition ps_stream_mut :: "'k \<Rightarrow> ('s \<Rightarrow> 's \<times> bool) \<Rightarrow> ('k, 'p, 's) poll_set \<Rightarrow> ('k, 'p, 's) poll_set" where
  "ps_stream_mut key f ps =
     (case kfu_futures (ps_pending ps) key of
        Some s \<Rightarrow>
          (case f s of (s', woken) \<Rightarrow>
             let u = (ps_pending ps)\<lparr>kfu_futures := (kfu_futures (ps_pending ps))(key \<mapsto> s')\<rparr>
             in ps\<lparr>ps_pending := if woken then kfu_wake key u else u\<rparr>)
      | None \<Rightarrow>
          (case ps_priorities ps key of
             None \<Rightarrow> ps
           | Some priority \<Rightarrow> ps\<lparr>ps_ready := bt_update (priority, key) (\<lambda>s. fst (f s)) (ps_ready ps)\<rparr>))"

definition ps_tunnel_activity :: "nat \<Rightarrow> ('k, 'p, 's) poll_set \<Rightarrow> ps_error + tunnel_activity" where
  "ps_tunnel_activity len ps =
     (if len = n_open_streams (ps_activity ps) then Inr (ps_activity ps)
      else Inl (PsPanic ''assertion failed''))"

section \<open>Invariant\<close>

text \<open>
  The documented invariants, key by key: a key with a priority is pending or it is ready and
  filed under its priority, never both; a key without one is neither. The activity counter
  is the number of streams, and the ready streams are in order.
\<close>

definition slot_ok :: "'p option \<Rightarrow> 's option \<Rightarrow> ('p \<rightharpoonup> 's) \<Rightarrow> bool" where
  "slot_ok priority pending ready \<longleftrightarrow>
     (case (priority, pending) of
        (None, None) \<Rightarrow> ready = Map.empty
      | (None, Some _) \<Rightarrow> False
      | (Some _, Some _) \<Rightarrow> ready = Map.empty
      | (Some p, None) \<Rightarrow> (\<exists>s. ready = [p \<mapsto> s]))"

definition ready_at :: "('k, 'p, 's) poll_set \<Rightarrow> 'k \<Rightarrow> 'p \<rightharpoonup> 's" where
  "ready_at ps k p = map_of (ps_ready ps) (p, k)"

definition ps_inv :: "('k::linorder, 'p::linorder, 's) poll_set \<Rightarrow> bool" where
  "ps_inv ps \<longleftrightarrow>
     (\<forall>k. slot_ok (ps_priorities ps k) (kfu_futures (ps_pending ps) k) (ready_at ps k)) \<and>
     bt_ordered (ps_ready ps) \<and> finite (dom (ps_priorities ps)) \<and>
     n_open_streams (ps_activity ps) = card (dom (ps_priorities ps))"

lemma ready_at_frame [simp]:
  "ready_at (ps\<lparr>ps_pending := u\<rparr>) = ready_at ps"
  "ready_at (ps\<lparr>ps_activity := act\<rparr>) = ready_at ps"
  "ready_at (ps\<lparr>ps_priorities := m\<rparr>) = ready_at ps"
  by (simp_all add: ready_at_def fun_eq_iff)

lemma slot_ok_simps [simp]:
  "slot_ok None None r \<longleftrightarrow> r = Map.empty"
  "slot_ok (Some p) (Some s) r \<longleftrightarrow> r = Map.empty"
  "slot_ok None (Some s) r \<longleftrightarrow> False"
  "slot_ok (Some p) None r \<longleftrightarrow> (\<exists>s. r = [p \<mapsto> s])"
  by (simp_all add: slot_ok_def)

lemma slot_ok_pending: "(f = None \<longleftrightarrow> f' = None) \<Longrightarrow> slot_ok p f r \<longleftrightarrow> slot_ok p f' r"
  by (auto simp: slot_ok_def split: option.splits)

lemma ps_inv_pending:
  assumes "ps_inv ps" "dom (kfu_futures u) = dom (kfu_futures (ps_pending ps))"
  shows "ps_inv (ps\<lparr>ps_pending := u\<rparr>)"
proof -
  have "(kfu_futures u k = None) = (kfu_futures (ps_pending ps) k = None)" for k
    using assms(2) by (metis domIff)
  then have "slot_ok (ps_priorities ps k) (kfu_futures u k) (ready_at ps k)" for k
    using assms(1) slot_ok_pending unfolding ps_inv_def by metis
  then show ?thesis using assms(1) by (simp add: ps_inv_def)
qed

lemma ps_invD:
  assumes "ps_inv ps"
  shows "slot_ok (ps_priorities ps k) (kfu_futures (ps_pending ps) k) (ready_at ps k)"
  using assms by (simp add: ps_inv_def)

lemma ready_at_upd:
  "ready_at (ps\<lparr>ps_ready := bt_insert (p, k) s r\<rparr>) k' = (if k' = k then (\<lambda>q. map_of r (q, k))(p \<mapsto> s) else (\<lambda>q. map_of r (q, k')))"
  "ready_at (ps\<lparr>ps_ready := bt_remove (p, k) r\<rparr>) k' = (if k' = k then (\<lambda>q. map_of r (q, k))(p := None) else (\<lambda>q. map_of r (q, k')))"
  by (auto simp: ready_at_def bt_maps fun_eq_iff)

lemma ready_at_fold: "(\<lambda>q. map_of (ps_ready ps) (q, k)) = ready_at ps k"
  by (simp add: ready_at_def fun_eq_iff)

lemma ps_inv_new: "ps_inv ps_new"
  by (simp add: ps_inv_def ps_new_def kfu_new_def n_open_streams_def ready_at_def bt_ordered_def fun_eq_iff)

lemma ps_insert_result:
  assumes "ps_inv ps"
  shows "ps_try_insert key p s ps =
    (if ps_priorities ps key = None then
       (Inr (), ps\<lparr>ps_pending := \<lparr>kfu_notifications = kfu_notifications (ps_pending ps) @ [key],
            kfu_futures = (kfu_futures (ps_pending ps))(key \<mapsto> s)\<rparr>,
          ps_activity := inc_streams (ps_activity ps), ps_priorities := (ps_priorities ps)(key \<mapsto> p)\<rparr>)
     else (Inl KeyAlreadyInserted, ps))"
  using ps_invD [OF assms, of key]
  by (auto simp: ps_try_insert_def kfu_try_insert_def slot_ok_def split: option.splits)

lemma ps_insert_inv:
  assumes "ps_inv ps"
  shows "ps_inv (snd (ps_try_insert key p s ps))"
proof (cases "ps_priorities ps key")
  case None
  then have "slot_ok None (kfu_futures (ps_pending ps) key) (ready_at ps key)"
    using ps_invD [OF assms, of key] by simp
  then have "ready_at ps key = Map.empty" by (cases "kfu_futures (ps_pending ps) key") auto
  moreover have "card (insert key (dom (ps_priorities ps))) = Suc (card (dom (ps_priorities ps)))"
    using None assms by (intro card_insert_disjoint) (auto simp: ps_inv_def)
  ultimately show ?thesis
    using None assms by (simp add: ps_insert_result ps_inv_def inc_streams_def n_open_streams_def)
next
  case (Some q)
  then show ?thesis using assms by (simp add: ps_insert_result)
qed

text \<open>A pending stream becomes ready.\<close>

lemma ps_inv_ready:
  assumes inv: "ps_inv ps" and p: "ps_priorities ps key = Some p" and e: "ready_at ps key = Map.empty"
    and d: "dom (kfu_futures u) = dom (kfu_futures (ps_pending ps)) - {key}"
  shows "ps_inv (ps\<lparr>ps_pending := u, ps_ready := bt_insert (p, key) s (ps_ready ps)\<rparr>)"
proof -
  have key: "kfu_futures u key = None" and other: "\<And>k. k \<noteq> key \<Longrightarrow>
      (kfu_futures u k = None) = (kfu_futures (ps_pending ps) k = None)"
    using d by (metis DiffE domIff insertI1) (metis DiffE DiffI d domIff singletonD)
  have "slot_ok (ps_priorities ps k) (kfu_futures u k)
      (ready_at (ps\<lparr>ps_pending := u, ps_ready := bt_insert (p, key) s (ps_ready ps)\<rparr>) k)" for k
    using ps_invD [OF inv, of k] slot_ok_pending [OF other, of k]
    by (auto simp: ready_at_upd ready_at_fold p e key)
  then show ?thesis using inv by (simp add: ps_inv_def bt_ordered_insert)
qed

text \<open>Removing a key that is there returns its priority and its stream, and never panics.\<close>

lemma ps_remove_result:
  assumes inv: "ps_inv ps" and key: "ps_priorities ps key = Some p"
  shows "\<exists>s. ps_stream key ps = Some s \<and> fst (ps_remove now key ps) = Inr (Some (p, s)) \<and>
    ps_inv (snd (ps_remove now key ps)) \<and>
    ps_priorities (snd (ps_remove now key ps)) = (ps_priorities ps)(key := None) \<and>
    (\<forall>k. k \<noteq> key \<longrightarrow> ps_stream k (snd (ps_remove now key ps)) = ps_stream k ps)"
proof -
  have fin: "finite (dom (ps_priorities ps))" and act: "n_open_streams (ps_activity ps) = card (dom (ps_priorities ps))"
    using inv by (simp_all add: ps_inv_def)
  have "0 < card (dom (ps_priorities ps))" using fin key by (auto simp: card_gt_0_iff)
  then obtain n where n: "ps_activity ps = InUse (Suc n)"
    using act by (cases "ps_activity ps") (auto simp: n_open_streams_def gr0_conv_Suc)
  have c: "card (dom ((ps_priorities ps)(key := None))) = n"
    using n act fin key by (simp add: n_open_streams_def card_Diff_singleton domI)
  obtain a where a: "dec_streams now (ps_activity ps) = Some a" "n_open_streams a = card (dom ((ps_priorities ps)(key := None)))"
    unfolding c by (cases n) (auto simp: n dec_streams_def n_open_streams_def)
  note slot = ps_invD [OF inv]
  show ?thesis
  proof (cases "kfu_futures (ps_pending ps) key")
    case (Some s)
    then have "ready_at ps key = Map.empty" using slot [of key] key by simp
    then show ?thesis
      using inv a key Some
      by (auto simp: ps_remove_def kfu_remove_def ps_inv_def ps_stream_def split: option.splits)
  next
    case None
    then obtain s where s: "ready_at ps key = [p \<mapsto> s]" using slot [of key] key by auto
    then have "ready_at ps key p = Some s" by simp
    then have "map_of (ps_ready ps) (p, key) = Some s" by (simp add: ready_at_def)
    then show ?thesis
      using inv a key None s
      by (auto simp: ps_remove_def kfu_remove_def ps_inv_def ps_stream_def ready_at_upd ready_at_fold
          bt_ordered_remove map_of_bt_remove split: option.splits)
  qed
qed

text \<open>A ready stream with an item goes back to the pending ones, under its new priority.\<close>

lemma ps_inv_unready:
  assumes inv: "ps_inv ps" and p: "ps_priorities ps key = Some p" and r: "ready_at ps key = [p \<mapsto> s]"
  shows "ps_inv (ps\<lparr>ps_ready := bt_remove (p, key) (ps_ready ps),
      ps_priorities := (ps_priorities ps)(key \<mapsto> q),
      ps_pending := \<lparr>kfu_notifications = ks, kfu_futures = (kfu_futures (ps_pending ps))(key \<mapsto> s')\<rparr>\<rparr>)"
    (is "ps_inv ?ps'")
proof -
  have "slot_ok (ps_priorities ?ps' k) (kfu_futures (ps_pending ?ps') k) (ready_at ?ps' k)" for k
    using ps_invD [OF inv, of k] r by (auto simp: ready_at_upd ready_at_fold)
  moreover have "dom (ps_priorities ?ps') = dom (ps_priorities ps)" using p by auto
  ultimately show ?thesis using inv by (simp add: ps_inv_def bt_ordered_remove)
qed

lemma ready_pending_None:
  assumes "ps_inv ps" "map_of (ps_ready ps) (p, key) = Some s"
  shows "ps_priorities ps key = Some p" "kfu_futures (ps_pending ps) key = None" "ready_at ps key = [p \<mapsto> s]"
proof -
  have "ready_at ps key p = Some s" using assms(2) by (simp add: ready_at_def)
  then have "ps_priorities ps key = Some p \<and> kfu_futures (ps_pending ps) key = None \<and> ready_at ps key = [p \<mapsto> s]"
    using ps_invD [OF assms(1), of key] by (auto simp: slot_ok_def split: option.splits if_splits)
  then show "ps_priorities ps key = Some p" "kfu_futures (ps_pending ps) key = None" "ready_at ps key = [p \<mapsto> s]"
    by simp_all
qed

lemma ps_stream_mut_inv: "ps_inv ps \<Longrightarrow> ps_inv (ps_stream_mut key f ps)"
proof (cases "kfu_futures (ps_pending ps) key")
  case (Some s)
  assume "ps_inv ps"
  then have "ps_inv (ps\<lparr>ps_pending := if b then kfu_wake key ((ps_pending ps)\<lparr>kfu_futures := (kfu_futures (ps_pending ps))(key \<mapsto> s')\<rparr>)
      else (ps_pending ps)\<lparr>kfu_futures := (kfu_futures (ps_pending ps))(key \<mapsto> s')\<rparr>\<rparr>)" for s' b
    by (rule ps_inv_pending) (use Some in \<open>auto simp: kfu_wake_def split: if_splits\<close>)
  then show ?thesis by (simp add: ps_stream_mut_def Some Let_def split: prod.splits)
next
  case None
  assume inv: "ps_inv ps"
  have "ready_at (ps\<lparr>ps_ready := bt_update (p, key) g (ps_ready ps)\<rparr>) k =
      (if k = key then (ready_at ps k)(p := map_option g (ready_at ps k p)) else ready_at ps k)" for p g k
    by (auto simp: ready_at_def bt_maps fun_eq_iff)
  then have "slot_ok (ps_priorities ps k) (kfu_futures (ps_pending ps) k)
      (ready_at (ps\<lparr>ps_ready := bt_update (p, key) g (ps_ready ps)\<rparr>) k)"
    if "ps_priorities ps key = Some p" for p g k
    using ps_invD [OF inv, of k] that None by auto blast
  then show ?thesis
    using inv None by (auto simp: ps_stream_mut_def ps_inv_def bt_ordered_update split: option.splits)
qed

section \<open>Polling\<close>

text \<open>
  No wake-up is lost: a pending stream has a notification waiting, or it is not ready and has
  a waker registered.
\<close>

definition wake_inv :: "('s, 'i) peekable \<Rightarrow> 'k list \<Rightarrow> ('k \<rightharpoonup> 's) \<Rightarrow> bool" where
  "wake_inv ops ks fs \<longleftrightarrow>
     (\<forall>k s. fs k = Some s \<longrightarrow> k \<in> set ks \<or> (pk_peek ops s = Pending \<and> pk_waker ops s))"

definition ps_wake_inv :: "('s, 'i) peekable \<Rightarrow> ('k, 'p, 's) poll_set \<Rightarrow> bool" where
  "ps_wake_inv ops ps \<longleftrightarrow> wake_inv ops (kfu_notifications (ps_pending ps)) (kfu_futures (ps_pending ps))"

lemma wake_inv_absent: "fs key = None \<Longrightarrow> wake_inv ops (key # ks) fs \<Longrightarrow> wake_inv ops ks fs"
  unfolding wake_inv_def by (metis option.distinct(1) set_ConsD)

text \<open>
  The contract of \<open>PeekableStream\<close>: a peek that returns \<open>Pending\<close> registers the waker and
  changes nothing else that can be observed, and the next item is the one that was peeked at.
\<close>

locale peekable_contract =
  fixes ops :: "('s, 'i) peekable"
  assumes register: "pk_peek ops s = Pending \<Longrightarrow>
      pk_peek ops (pk_register ops s) = Pending \<and> pk_waker ops (pk_register ops s)"
    and next_peeked: "pk_peek ops s = Ready (Some x) \<Longrightarrow> \<exists>s'. pk_next ops s = (Ready (Some x), s')"
begin

lemma loop_pending:
  assumes "kfu_loop ops ks fs = (Pending, u)" "wake_inv ops ks fs"
  shows "dom (kfu_futures u) = dom fs"
    and "kfu_futures u k = Some s \<Longrightarrow> pk_peek ops s = Pending \<and> pk_waker ops s"
proof -
  have "dom (kfu_futures u) = dom fs \<and>
      (\<forall>k s. kfu_futures u k = Some s \<longrightarrow> pk_peek ops s = Pending \<and> pk_waker ops s)"
    using assms
  proof (induction ks arbitrary: fs)
    case Nil
    then show ?case by (auto simp: wake_inv_def)
  next
    case (Cons key ks)
    show ?case
    proof (cases "fs key")
      case None
      then have "wake_inv ops ks fs" using Cons.prems(2) by (rule wake_inv_absent)
      then show ?thesis using Cons.IH Cons.prems(1) None by simp
    next
      case (Some s)
      then have p: "pk_peek ops s = Pending" using Cons.prems(1) by (auto split: poll.splits)
      let ?fs = "fs(key \<mapsto> pk_register ops s)"
      have l: "kfu_loop ops ks ?fs = (Pending, u)" using Cons.prems(1) Some p by simp
      have w: "wake_inv ops ks ?fs"
        using Cons.prems(2) register [OF p] by (auto simp: wake_inv_def)
      have d: "dom ?fs = dom fs" using Some by auto
      show ?thesis using Cons.IH [OF l w] unfolding d .
    qed
  qed
  then show "dom (kfu_futures u) = dom fs"
    and "kfu_futures u k = Some s \<Longrightarrow> pk_peek ops s = Pending \<and> pk_waker ops s" by blast+
qed

lemma loop_ready:
  assumes "kfu_loop ops ks fs = (Ready r, u)" "wake_inv ops ks fs"
  shows "\<exists>key s. r = Some (key, s) \<and> fs key \<noteq> None \<and> pk_peek ops s \<noteq> Pending \<and>
    dom (kfu_futures u) = dom fs - {key} \<and> wake_inv ops (kfu_notifications u) (kfu_futures u)"
  using assms
proof (induction ks arbitrary: fs)
  case Nil
  then show ?case by simp
next
  case (Cons key ks)
  show ?case
  proof (cases "fs key")
    case None
    then have "wake_inv ops ks fs" using Cons.prems(2) by (rule wake_inv_absent)
    then show ?thesis using Cons.IH Cons.prems(1) None by simp
  next
    case (Some s)
    show ?thesis
    proof (cases "pk_peek ops s")
      case Pending
      let ?fs = "fs(key \<mapsto> pk_register ops s)"
      have "kfu_loop ops ks ?fs = (Ready r, u)" using Cons.prems(1) Some Pending by simp
      moreover have "wake_inv ops ks ?fs"
        using Cons.prems(2) register [OF Pending] by (auto simp: wake_inv_def)
      ultimately obtain key' s' where ih: "r = Some (key', s')" "?fs key' \<noteq> None" "pk_peek ops s' \<noteq> Pending"
        "dom (kfu_futures u) = dom ?fs - {key'}" "wake_inv ops (kfu_notifications u) (kfu_futures u)"
        using Cons.IH [of ?fs] by blast
      have d: "dom ?fs = dom fs" using Some by auto
      then have "fs key' \<noteq> None" using ih(2) by (metis domIff)
      then show ?thesis using ih(1,3-5) unfolding d by blast
    next
      case (Ready i)
      have "wake_inv ops ks (fs(key := None))" using Cons.prems(2) by (auto simp: wake_inv_def)
      moreover have "r = Some (key, s)" "u = \<lparr>kfu_notifications = ks, kfu_futures = fs(key := None)\<rparr>"
        using Cons.prems(1) Some Ready by simp_all
      moreover have "dom (fs(key := None)) = dom fs - {key}" by (auto split: if_splits)
      ultimately show ?thesis using Some Ready by (metis kfu.select_convs option.distinct(1) poll.distinct(1))
    qed
  qed
qed

text \<open>Polling changes no stream in a way that a peek shows.\<close>

lemma loop_peek:
  assumes "kfu_loop ops ks fs = (r, u)"
  shows "(case r of
      Ready (Some (key, s)) \<Rightarrow> kfu_futures u key = None \<and> map_option (pk_peek ops) (fs key) = Some (pk_peek ops s) \<and>
        (\<forall>k. k \<noteq> key \<longrightarrow> map_option (pk_peek ops) (kfu_futures u k) = map_option (pk_peek ops) (fs k))
    | _ \<Rightarrow> \<forall>k. map_option (pk_peek ops) (kfu_futures u k) = map_option (pk_peek ops) (fs k))"
  using assms
proof (induction ks arbitrary: fs)
  case Nil
  then show ?case by auto
next
  case (Cons key ks)
  show ?case
  proof (cases "fs key")
    case None
    then show ?thesis using Cons by simp
  next
    case (Some s)
    show ?thesis
    proof (cases "pk_peek ops s")
      case Pending
      let ?fs = "fs(key \<mapsto> pk_register ops s)"
      have same: "map_option (pk_peek ops) (?fs k) = map_option (pk_peek ops) (fs k)" for k
        using register [OF Pending] Some Pending by simp
      have "kfu_loop ops ks ?fs = (r, u)" using Cons.prems Some Pending by simp
      from Cons.IH [OF this] show ?thesis unfolding same .
    next
      case (Ready i)
      then have "r = Ready (Some (key, s))" "u = \<lparr>kfu_notifications = ks, kfu_futures = fs(key := None)\<rparr>"
        using Cons.prems Some by simp_all
      then show ?thesis using Some by simp
    qed
  qed
qed

lemma stream_peek:
  assumes "map_option (pk_peek ops) (kfu_futures u k) = map_option (pk_peek ops) (kfu_futures (ps_pending ps) k)"
  shows "map_option (pk_peek ops) (ps_stream k (ps\<lparr>ps_pending := u\<rparr>)) = map_option (pk_peek ops) (ps_stream k ps)"
  using assms
  by (cases "kfu_futures u k"; cases "kfu_futures (ps_pending ps) k") (auto simp: ps_stream_def split: option.split)

text \<open>
  Polling succeeds, keeps the invariants and the keys, and leaves only streams pending that
  are not ready and will wake the set when they are.
\<close>

lemma poll_ready_complete:
  assumes "ps_inv ps" "ps_wake_inv ops ps"
  shows "\<exists>ps'. ps_poll_ready_loop ops ps = (Inr (), ps') \<and> ps_inv ps' \<and> ps_wake_inv ops ps' \<and>
    ps_priorities ps' = ps_priorities ps \<and>
    (\<forall>k. map_option (pk_peek ops) (ps_stream k ps') = map_option (pk_peek ops) (ps_stream k ps)) \<and>
    (\<forall>k s. kfu_futures (ps_pending ps') k = Some s \<longrightarrow> pk_peek ops s = Pending \<and> pk_waker ops s)"
  using assms
proof (induction "length (kfu_notifications (ps_pending ps))" arbitrary: ps rule: less_induct)
  case less
  note inv = less.prems(1) and wk = less.prems(2)
  obtain r u where poll: "kfu_poll_next ops (ps_pending ps) = (r, u)" by fastforce
  show ?case
  proof (cases "kfu_futures (ps_pending ps) = Map.empty")
    case True
    then have "r = Ready None" "u = ps_pending ps" using poll by (simp_all add: kfu_poll_next_def)
    then show ?thesis using inv wk poll True by simp
  next
    case False
    then have loop: "kfu_loop ops (kfu_notifications (ps_pending ps)) (kfu_futures (ps_pending ps)) = (r, u)"
      using poll by (simp add: kfu_poll_next_def)
    note wk' = wk [unfolded ps_wake_inv_def]
    show ?thesis
    proof (cases r)
      case Pending
      note pend = loop_pending [OF loop [unfolded Pending] wk']
      have "ps_inv (ps\<lparr>ps_pending := u\<rparr>)" by (rule ps_inv_pending [OF inv pend(1)])
      moreover have "ps_wake_inv ops (ps\<lparr>ps_pending := u\<rparr>)"
        using pend(2) by (simp add: ps_wake_inv_def wake_inv_def)
      moreover have "map_option (pk_peek ops) (ps_stream k (ps\<lparr>ps_pending := u\<rparr>)) = map_option (pk_peek ops) (ps_stream k ps)" for k
        using loop_peek [OF loop] Pending by (intro stream_peek) simp
      ultimately show ?thesis using poll Pending pend(2) by simp
    next
      case (Ready x)
      obtain key s where key: "x = Some (key, s)" "kfu_futures (ps_pending ps) key \<noteq> None"
        "dom (kfu_futures u) = dom (kfu_futures (ps_pending ps)) - {key}"
        "wake_inv ops (kfu_notifications u) (kfu_futures u)"
        using loop_ready [OF loop [unfolded Ready] wk'] by blast
      obtain p where p: "ps_priorities ps key = Some p" and e: "ready_at ps key = Map.empty"
        using ps_invD [OF inv, of key] key(2) by (auto simp: slot_ok_def split: option.splits)
      let ?ps = "ps\<lparr>ps_pending := u, ps_ready := bt_insert (p, key) s (ps_ready ps)\<rparr>"
      have new: "map_of (ps_ready ps) (p, key) = None"
        using e by (simp add: ready_at_def fun_eq_iff)
      have "ps_inv ?ps" by (rule ps_inv_ready [OF inv p e key(3)])
      moreover have "ps_wake_inv ops ?ps" using key(4) by (simp add: ps_wake_inv_def)
      moreover have "length (kfu_notifications (ps_pending ?ps)) < length (kfu_notifications (ps_pending ps))"
        using kfu_poll_shorter [of ops "ps_pending ps" key s u] poll Ready key(1) by simp
      ultimately have "\<exists>ps'. ps_poll_ready_loop ops ?ps = (Inr (), ps') \<and> ps_inv ps' \<and> ps_wake_inv ops ps' \<and>
          ps_priorities ps' = ps_priorities ?ps \<and>
          (\<forall>k. map_option (pk_peek ops) (ps_stream k ps') = map_option (pk_peek ops) (ps_stream k ?ps)) \<and>
          (\<forall>k s. kfu_futures (ps_pending ps') k = Some s \<longrightarrow> pk_peek ops s = Pending \<and> pk_waker ops s)"
        by (intro less.hyps) simp_all
      moreover have "ps_poll_ready_loop ops ps = ps_poll_ready_loop ops ?ps"
        by (subst ps_poll_ready_loop.simps) (simp add: poll Ready key(1) p new Let_def)
      moreover have "map_option (pk_peek ops) (ps_stream k ?ps) = map_option (pk_peek ops) (ps_stream k ps)" for k
      proof (cases "k = key")
        case True
        then show ?thesis
          using loop_peek [OF loop] Ready key(1) p by (auto simp: ps_stream_def map_of_bt_insert)
      next
        case False
        then have "ps_stream k ?ps = ps_stream k (ps\<lparr>ps_pending := u\<rparr>)"
          by (simp add: ps_stream_def map_of_bt_insert split: option.split)
        then show ?thesis using False loop_peek [OF loop] Ready key(1) by (simp add: stream_peek)
      qed
      ultimately show ?thesis by simp
    qed
  qed
qed

lemma take_ready:
  assumes inv: "ps_inv ps" and r: "map_of (ps_ready ps) (p, key) = Some s" and x: "pk_peek ops s = Ready (Some x)"
  shows "\<exists>ps'. ps_take_ready_value_and_reprioritize ops key q ps = (Inr (Some (p, x)), ps') \<and> ps_inv ps' \<and>
    ps_priorities ps' = (ps_priorities ps)(key \<mapsto> q) \<and> (ps_wake_inv ops ps \<longrightarrow> ps_wake_inv ops ps')"
proof -
  note k = ready_pending_None [OF inv r]
  obtain s' where s': "pk_next ops s = (Ready (Some x), s')" using next_peeked [OF x] by blast
  let ?ps = "ps\<lparr>ps_ready := bt_remove (p, key) (ps_ready ps), ps_priorities := (ps_priorities ps)(key \<mapsto> q),
      ps_pending := \<lparr>kfu_notifications = kfu_notifications (ps_pending ps) @ [key],
        kfu_futures = (kfu_futures (ps_pending ps))(key \<mapsto> s')\<rparr>\<rparr>"
  have "ps_take_ready_value_and_reprioritize ops key q ps = (Inr (Some (p, x)), ?ps)"
    by (simp add: ps_take_ready_value_and_reprioritize_def k(1,2) r x s' kfu_try_insert_def Let_def)
  moreover have "ps_inv ?ps" by (rule ps_inv_unready [OF inv k(1,3)])
  moreover have "ps_wake_inv ops ps \<longrightarrow> ps_wake_inv ops ?ps" by (auto simp: ps_wake_inv_def wake_inv_def)
  ultimately show ?thesis by (intro exI [of _ ?ps]) simp
qed

lemma take_other:
  assumes inv: "ps_inv ps" and wk: "ps_wake_inv ops ps" and n: "\<And>s. ps_stream key ps = Some s \<Longrightarrow> pk_peek ops s \<noteq> Ready None"
  shows "(\<exists>v. fst (ps_take_ready_value_and_reprioritize ops key q ps) = Inr v) \<and>
    ps_inv (snd (ps_take_ready_value_and_reprioritize ops key q ps)) \<and>
    ps_wake_inv ops (snd (ps_take_ready_value_and_reprioritize ops key q ps))"
proof (cases "ps_priorities ps key")
  case None
  then show ?thesis using inv wk by (simp add: ps_take_ready_value_and_reprioritize_def)
next
  case (Some p)
  show ?thesis
  proof (cases "map_of (ps_ready ps) (p, key)")
    case None
    then show ?thesis using inv wk Some by (simp add: ps_take_ready_value_and_reprioritize_def)
  next
    case s: (Some s)
    note k = ready_pending_None [OF inv s]
    have "ps_stream key ps = Some s" by (simp add: ps_stream_def k s)
    then consider (item) x where "pk_peek ops s = Ready (Some x)" | (pending) "pk_peek ops s = Pending"
      using n by (metis not_None_eq poll.exhaust)
    then show ?thesis
    proof cases
      case item
      then show ?thesis using take_ready [OF inv s, of x q] wk by auto
    next
      case pending
      let ?ps = "ps\<lparr>ps_ready := bt_remove (p, key) (ps_ready ps), ps_priorities := (ps_priorities ps)(key \<mapsto> p),
          ps_pending := \<lparr>kfu_notifications = kfu_notifications (ps_pending ps) @ [key],
            kfu_futures = (kfu_futures (ps_pending ps))(key \<mapsto> s)\<rparr>\<rparr>"
      have "(ps_priorities ps)(key \<mapsto> p) = ps_priorities ps" using k(1) by (auto simp: fun_eq_iff)
      then have "ps_take_ready_value_and_reprioritize ops key q ps = (Inr None, ?ps)"
        by (simp add: ps_take_ready_value_and_reprioritize_def k(1,2) s pending kfu_try_insert_def Let_def)
      moreover have "ps_inv ?ps" by (rule ps_inv_unready [OF inv k(1,3)])
      moreover have "ps_wake_inv ops ?ps" using wk by (auto simp: ps_wake_inv_def wake_inv_def)
      ultimately show ?thesis by simp
    qed
  qed
qed

text \<open>
  A change of a stream that wakes the registered waker whenever the stream stops being
  pending loses no wake-up.
\<close>

lemma stream_mut_wake:
  assumes wk: "ps_wake_inv ops ps"
    and f: "\<And>s. pk_peek ops s = Pending \<Longrightarrow> pk_waker ops s \<Longrightarrow>
      snd (f s) \<or> pk_peek ops (fst (f s)) = Pending \<and> pk_waker ops (fst (f s))"
  shows "ps_wake_inv ops (ps_stream_mut key f ps)"
proof (cases "kfu_futures (ps_pending ps) key")
  case None
  then show ?thesis using wk by (auto simp: ps_stream_mut_def ps_wake_inv_def split: option.splits)
next
  case (Some s)
  obtain s' b where fs: "f s = (s', b)" by fastforce
  have "key \<in> set (kfu_notifications (ps_pending ps)) \<or> b \<or> pk_peek ops s' = Pending \<and> pk_waker ops s'"
    using wk f [of s] Some fs by (auto simp: ps_wake_inv_def wake_inv_def)
  then show ?thesis
    using wk Some by (auto simp: ps_stream_mut_def fs Let_def ps_wake_inv_def wake_inv_def kfu_wake_def)
qed

end

end
