(* ===== verification/StreamMap.thy ===== *)
theory StreamMap
  imports PollSet
begin

text \<open>
  The streams of a circuit hop: \<open>tor-proto/src/streammap.rs\<close> with \<open>halfstream.rs\<close>, and the
  command checkers of \<open>stream/incoming.rs\<close>, \<open>client/stream/data.rs\<close> and
  \<open>client/stream/resolve.rs\<close>.

  \<^item> The receiver of outgoing messages is the queue of messages in it, with a flag for a
    dropped sender and one for a registered waker.
  \<^item> Of the queue of incoming messages only the approximate number of buffered bytes is
    used here.
  \<^item> The methods of an entry that may wake a blocked stream return whether they do.
  \<^item> The argument \<open>dbg\<close> of an operation says whether debug assertions and the checks of
    arithmetic overflow are compiled in (\<open>cfg!(debug_assertions)\<close>). A failed check is a panic;
    the map stays as it is at the check.
\<close>

section \<open>Command checkers\<close>

datatype stream_status = StreamOpen | StreamClosed

datatype cmd_checker =
    OutboundDataCmdChecker bool
  | InboundDataCmdChecker
  | ResolveCmdChecker
  | IncomingCmdChecker "RelayCmd list"

definition outbound_data_check_msg :: "unparsed_relay_msg \<Rightarrow> bool \<Rightarrow> (proto_error + stream_status) \<times> bool" where
  "outbound_data_check_msg msg expecting_connected =
     (if unparsed_cmd msg = RC_CONNECTED then
        if \<not> expecting_connected
        then (Inl (ProtoStreamProto ''Received CONNECTED twice on a stream.''), expecting_connected)
        else (Inr StreamOpen, False)
      else if unparsed_cmd msg = RC_DATA then
        if \<not> expecting_connected then (Inr StreamOpen, expecting_connected)
        else (Inl (ProtoStreamProto ''Received DATA before CONNECTED on a stream''), expecting_connected)
      else if unparsed_cmd msg = RC_END then (Inr StreamClosed, expecting_connected)
      else (Inl (ProtoStreamProto ''Unexpected message on a data stream!''), expecting_connected))"

definition inbound_data_check_msg :: "unparsed_relay_msg \<Rightarrow> proto_error + stream_status" where
  "inbound_data_check_msg msg =
     (if unparsed_cmd msg = RC_DATA then Inr StreamOpen
      else if unparsed_cmd msg = RC_END then Inr StreamClosed
      else Inl (ProtoStreamProto ''Unexpected message on an incoming data stream!''))"

definition resolve_check_msg :: "unparsed_relay_msg \<Rightarrow> proto_error + stream_status" where
  "resolve_check_msg msg =
     (if unparsed_cmd msg = RC_RESOLVED then Inr StreamClosed
      else if unparsed_cmd msg = RC_END then Inr StreamClosed
      else Inl (ProtoStreamProto ''Unexpected message on resolve stream''))"

definition incoming_check_msg :: "unparsed_relay_msg \<Rightarrow> RelayCmd list \<Rightarrow> proto_error + stream_status" where
  "incoming_check_msg msg allow_commands =
     (if unparsed_cmd msg \<in> set allow_commands then Inr StreamOpen
      else Inl (ProtoStreamProto ''Unexpected message on incoming stream''))"

fun check_msg :: "unparsed_relay_msg \<Rightarrow> (cmd_checker, proto_error, stream_status) eff" where
  "check_msg msg (OutboundDataCmdChecker expecting_connected) =
     (case outbound_data_check_msg msg expecting_connected of (r, x) \<Rightarrow> (r, OutboundDataCmdChecker x))"
| "check_msg msg InboundDataCmdChecker = (inbound_data_check_msg msg, InboundDataCmdChecker)"
| "check_msg msg ResolveCmdChecker = (resolve_check_msg msg, ResolveCmdChecker)"
| "check_msg msg (IncomingCmdChecker allow_commands) =
     (incoming_check_msg msg allow_commands, IncomingCmdChecker allow_commands)"

text \<open>Decoding at a type that \<open>restricted_msg!\<close> limits to some messages.\<close>

definition decode_restricted :: "RelayCmd list \<Rightarrow> string \<Rightarrow> unparsed_relay_msg \<Rightarrow> proto_error + unit" where
  "decode_restricted cmds object msg =
     decode_only ''permitted'' (\<lambda>m. if AnyRelayMsg_cmd m \<in> set cmds then Some () else None) object msg"

definition outbound_data_consume_checked_msg :: "unparsed_relay_msg \<Rightarrow> proto_error + unit" where
  "outbound_data_consume_checked_msg =
     decode_restricted [RC_DATA, RC_END, RC_CONNECTED] ''cell on half-closed stream''"

definition inbound_data_consume_checked_msg :: "unparsed_relay_msg \<Rightarrow> proto_error + unit" where
  "inbound_data_consume_checked_msg = decode_restricted [RC_DATA, RC_END] ''cell on half-closed stream''"

definition resolve_consume_checked_msg :: "unparsed_relay_msg \<Rightarrow> proto_error + unit" where
  "resolve_consume_checked_msg = decode_restricted [RC_END, RC_RESOLVED] ''message on resolve stream.''"

definition incoming_consume_checked_msg :: "unparsed_relay_msg \<Rightarrow> proto_error + unit" where
  "incoming_consume_checked_msg =
     decode_restricted [RC_BEGIN, RC_BEGIN_DIR, RC_RESOLVE] ''invalid message on incoming stream''"

fun consume_checked_msg :: "unparsed_relay_msg \<Rightarrow> cmd_checker \<Rightarrow> proto_error + unit" where
  "consume_checked_msg msg (OutboundDataCmdChecker _) = outbound_data_consume_checked_msg msg"
| "consume_checked_msg msg InboundDataCmdChecker = inbound_data_consume_checked_msg msg"
| "consume_checked_msg msg ResolveCmdChecker = resolve_consume_checked_msg msg"
| "consume_checked_msg msg (IncomingCmdChecker _) = incoming_consume_checked_msg msg"

section \<open>Half-closed streams\<close>

record half_stream =
  hs_flow_control :: stream_flow_ctrl
  hs_recvw :: u16
  hs_cmd_checker :: cmd_checker

definition hs_flow :: "(stream_flow_ctrl, proto_error, unit) eff \<Rightarrow> (half_stream, proto_error, stream_status) eff" where
  "hs_flow f h =
     (case f (hs_flow_control h) of
        (Inl e, c) \<Rightarrow> (Inl e, h\<lparr>hs_flow_control := c\<rparr>)
      | (Inr _, c) \<Rightarrow> (Inr StreamOpen, h\<lparr>hs_flow_control := c\<rparr>))"

definition hs_handle_msg :: "unparsed_relay_msg \<Rightarrow> (half_stream, proto_error, stream_status) eff" where
  "hs_handle_msg msg =
     (if unparsed_cmd msg = RC_SENDME then hs_flow (put_for_incoming_sendme msg)
      else if unparsed_cmd msg = RC_XON then hs_flow (handle_incoming_xon msg)
      else if unparsed_cmd msg = RC_XOFF then hs_flow (handle_incoming_xoff msg)
      else
        ebind (\<lambda>h. if cmd_counts_towards_windows (unparsed_cmd msg)
                  then (case recv_take StreamParams (hs_recvw h) of
                          (Inl e, w) \<Rightarrow> (Inl e, h\<lparr>hs_recvw := w\<rparr>)
                        | (Inr _, w) \<Rightarrow> (Inr (), h\<lparr>hs_recvw := w\<rparr>))
                  else (Inr (), h)) (\<lambda>_.
        ebind (\<lambda>h. case check_msg msg (hs_cmd_checker h) of (r, c) \<Rightarrow> (r, h\<lparr>hs_cmd_checker := c\<rparr>)) (\<lambda>status.
        ebind (\<lambda>h. (consume_checked_msg msg (hs_cmd_checker h), h)) (\<lambda>_. eret status))))"

section \<open>Open streams\<close>

record rx_queue =
  rx_msgs :: "any_relay_msg list"
  rx_closed :: bool
  rx_waker :: bool

record open_ent =
  oe_sink_bytes :: nat
  oe_dropped :: u16
  oe_cmd_checker :: cmd_checker
  oe_flow_ctrl :: stream_flow_ctrl
  oe_rx :: rx_queue
  oe_flow_ctrl_waker :: bool

definition open_peek :: "open_ent \<Rightarrow> any_relay_msg option poll" where
  "open_peek e =
     (case rx_msgs (oe_rx e) of
        [] \<Rightarrow> if rx_closed (oe_rx e) then Ready None else Pending
      | m # _ \<Rightarrow> if \<not> flow_can_send m (oe_flow_ctrl e) then Pending else Ready (Some m))"

text \<open>\<open>poll_peek_mut\<close> leaves the waker with whatever blocks the stream.\<close>

definition open_register :: "open_ent \<Rightarrow> open_ent" where
  "open_register e =
     (case rx_msgs (oe_rx e) of
        [] \<Rightarrow> e\<lparr>oe_rx := (oe_rx e)\<lparr>rx_waker := True\<rparr>\<rparr>
      | m # _ \<Rightarrow> e\<lparr>oe_flow_ctrl_waker := True\<rparr>)"

definition open_waker :: "open_ent \<Rightarrow> bool" where
  "open_waker e = (case rx_msgs (oe_rx e) of [] \<Rightarrow> rx_waker (oe_rx e) | m # _ \<Rightarrow> oe_flow_ctrl_waker e)"

definition open_next :: "open_ent \<Rightarrow> any_relay_msg option poll \<times> open_ent" where
  "open_next e =
     (case open_peek e of
        Pending \<Rightarrow> (Pending, open_register e)
      | Ready _ \<Rightarrow>
          (case rx_msgs (oe_rx e) of
             [] \<Rightarrow> (Ready None, e)
           | m # ms \<Rightarrow> (Ready (Some m), e\<lparr>oe_rx := (oe_rx e)\<lparr>rx_msgs := ms\<rparr>\<rparr>)))"

definition open_ops :: "(open_ent, any_relay_msg) peekable" where
  "open_ops = \<lparr>pk_peek = open_peek, pk_register = open_register, pk_waker = open_waker, pk_next = open_next\<rparr>"

definition oe_put_for_incoming_sendme :: "unparsed_relay_msg \<Rightarrow> open_ent \<Rightarrow> (proto_error + unit) \<times> open_ent \<times> bool" where
  "oe_put_for_incoming_sendme msg e =
     (case put_for_incoming_sendme msg (oe_flow_ctrl e) of
        (Inl err, c) \<Rightarrow> (Inl err, e\<lparr>oe_flow_ctrl := c\<rparr>, False)
      | (Inr _, c) \<Rightarrow> (Inr (), e\<lparr>oe_flow_ctrl := c, oe_flow_ctrl_waker := False\<rparr>, oe_flow_ctrl_waker e))"

definition oe_flow :: "(stream_flow_ctrl, proto_error, 'a) eff \<Rightarrow> (open_ent, proto_error, 'a) eff" where
  "oe_flow f e = (case f (oe_flow_ctrl e) of (r, c) \<Rightarrow> (r, e\<lparr>oe_flow_ctrl := c\<rparr>))"

definition oe_maybe_send_xon :: "XonKbpsEwma \<Rightarrow> (open_ent, proto_error, xon option) eff" where
  "oe_maybe_send_xon rate e = oe_flow (maybe_send_xon rate (oe_sink_bytes e)) e"

definition oe_maybe_send_xoff :: "(open_ent, proto_error, u8 option) eff" where
  "oe_maybe_send_xoff e = oe_flow (maybe_send_xoff (oe_sink_bytes e)) e"

definition oe_handle_incoming_xon :: "unparsed_relay_msg \<Rightarrow> (open_ent, proto_error, unit) eff" where
  "oe_handle_incoming_xon msg = oe_flow (handle_incoming_xon msg)"

definition oe_handle_incoming_xoff :: "unparsed_relay_msg \<Rightarrow> (open_ent, proto_error, unit) eff" where
  "oe_handle_incoming_xoff msg = oe_flow (handle_incoming_xoff msg)"

definition oe_about_to_send :: "any_relay_msg \<Rightarrow> (open_ent, proto_error, unit) eff" where
  "oe_about_to_send msg = oe_flow (flow_about_to_send msg)"

text \<open>The sending half of the queue: a message comes in, or the sender is dropped; either wakes the reader.\<close>

definition rx_send :: "any_relay_msg \<Rightarrow> open_ent \<Rightarrow> open_ent \<times> bool" where
  "rx_send m e =
     (e\<lparr>oe_rx := (oe_rx e)\<lparr>rx_msgs := rx_msgs (oe_rx e) @ [m], rx_waker := False\<rparr>\<rparr>, rx_waker (oe_rx e))"

definition rx_drop_sender :: "open_ent \<Rightarrow> open_ent \<times> bool" where
  "rx_drop_sender e = (e\<lparr>oe_rx := (oe_rx e)\<lparr>rx_closed := True, rx_waker := False\<rparr>\<rparr>, rx_waker (oe_rx e))"

section \<open>The map\<close>

record end_sent_ent =
  es_half_stream :: half_stream
  es_explicitly_dropped :: bool
  es_expiry :: nat

datatype closed_ent = EndReceived | EndSent end_sent_ent

datatype stream_ent = EntOpen open_ent | EntEndReceived | EntEndSent end_sent_ent

datatype should_send_end = SendEnd | DontSendEnd

datatype terminate_reason = StreamTargetClosed | ExplicitEnd

record stream_map =
  sm_open :: "(stream_id, u64, open_ent) poll_set"
  sm_closed :: "stream_id \<rightharpoonup> closed_ent"
  sm_next_stream_id :: stream_id
  sm_next_priority :: u64

definition StreamMap_new :: "stream_id \<Rightarrow> stream_map" where
  "StreamMap_new next_stream_id =
     \<lparr>sm_open = ps_new, sm_closed = Map.empty, sm_next_stream_id = next_stream_id, sm_next_priority = 0\<rparr>"

definition wrapping_next_stream_id :: "stream_id \<Rightarrow> stream_id" where
  "wrapping_next_stream_id i = (if i = - 1 then 1 else i + 1)"

definition take_next_priority :: "bool \<Rightarrow> (stream_map, proto_error, u64) eff" where
  "take_next_priority dbg sm =
     (let rv = sm_next_priority sm in
      if dbg \<and> rv = - 1 then (Inl (ProtoPanic ''attempt to add with overflow''), sm)
      else (Inr rv, sm\<lparr>sm_next_priority := rv + 1\<rparr>))"

definition panic_of :: "ps_error \<Rightarrow> proto_error" where
  "panic_of e = (case e of PsPanic m \<Rightarrow> ProtoPanic m | KeyAlreadyInserted \<Rightarrow> ProtoPanic ''key already inserted'')"

definition new_open_ent :: "nat \<Rightarrow> rx_queue \<Rightarrow> stream_flow_ctrl \<Rightarrow> cmd_checker \<Rightarrow> open_ent" where
  "new_open_ent sink_bytes rx flow checker =
     \<lparr>oe_sink_bytes = sink_bytes, oe_dropped = 0, oe_cmd_checker = checker, oe_flow_ctrl = flow,
      oe_rx = rx, oe_flow_ctrl_waker = False\<rparr>"

fun add_ent_loop :: "nat \<Rightarrow> u64 \<Rightarrow> open_ent \<Rightarrow> (stream_map, proto_error, stream_id) eff" where
  "add_ent_loop 0 priority ent sm = (Inl ProtoIdRangeFull, sm)"
| "add_ent_loop (Suc n) priority ent sm =
     (let i = sm_next_stream_id sm;
          sm1 = sm\<lparr>sm_next_stream_id := wrapping_next_stream_id i\<rparr>
      in case ps_try_insert i priority ent (sm_open sm1) of
           (Inr _, ps) \<Rightarrow> (Inr i, sm1\<lparr>sm_open := ps\<rparr>)
         | (Inl KeyAlreadyInserted, ps) \<Rightarrow> add_ent_loop n priority ent (sm1\<lparr>sm_open := ps\<rparr>)
         | (Inl (PsPanic m), ps) \<Rightarrow> (Inl (ProtoPanic m), sm1\<lparr>sm_open := ps\<rparr>))"

definition add_ent :: "bool \<Rightarrow> open_ent \<Rightarrow> (stream_map, proto_error, stream_id) eff" where
  "add_ent dbg ent = ebind (take_next_priority dbg) (\<lambda>priority. add_ent_loop 65536 priority ent)"

definition add_ent_with_id :: "bool \<Rightarrow> open_ent \<Rightarrow> stream_id \<Rightarrow> (stream_map, proto_error, unit) eff" where
  "add_ent_with_id dbg ent i =
     ebind (take_next_priority dbg) (\<lambda>priority sm.
       case ps_try_insert i priority ent (sm_open sm) of
         (Inr _, ps) \<Rightarrow> (Inr (), sm\<lparr>sm_open := ps\<rparr>)
       | (Inl KeyAlreadyInserted, ps) \<Rightarrow> (Inl (ProtoIdUnavailable i), sm\<lparr>sm_open := ps\<rparr>)
       | (Inl (PsPanic m), ps) \<Rightarrow> (Inl (ProtoPanic m), sm\<lparr>sm_open := ps\<rparr>))"

text \<open>\<open>get_mut\<close>, as the entry it refers to.\<close>

definition get_ent :: "stream_id \<Rightarrow> stream_map \<Rightarrow> stream_ent option" where
  "get_ent i sm =
     (case ps_stream i (sm_open sm) of
        Some e \<Rightarrow> Some (EntOpen e)
      | None \<Rightarrow>
          (case sm_closed sm i of
             Some EndReceived \<Rightarrow> Some EntEndReceived
           | Some (EndSent e) \<Rightarrow> Some (EntEndSent e)
           | None \<Rightarrow> None))"

text \<open>The check that an identifier was not in the map of closed streams before it was put there.\<close>

definition assert_no_prev :: "bool \<Rightarrow> closed_ent option \<Rightarrow> 'a \<Rightarrow> proto_error + 'a" where
  "assert_no_prev dbg prev x =
     (if dbg \<and> prev \<noteq> None then Inl (ProtoPanic ''Unexpected duplicate entry'') else Inr x)"

definition ending_msg_received :: "bool \<Rightarrow> nat \<Rightarrow> stream_id \<Rightarrow> (stream_map, proto_error, unit) eff" where
  "ending_msg_received dbg now i sm =
     (case ps_remove now i (sm_open sm) of
        (Inl e, ps) \<Rightarrow> (Inl (panic_of e), sm\<lparr>sm_open := ps\<rparr>)
      | (Inr (Some _), ps) \<Rightarrow>
          (assert_no_prev dbg (sm_closed sm i) (),
           sm\<lparr>sm_open := ps, sm_closed := (sm_closed sm)(i \<mapsto> EndReceived)\<rparr>)
      | (Inr None, ps) \<Rightarrow>
          (case sm_closed sm i of
             None \<Rightarrow> (Inl (ProtoViolation ''Received END cell on nonexistent stream''), sm\<lparr>sm_open := ps\<rparr>)
           | Some EndReceived \<Rightarrow> (Inl (ProtoViolation ''Received two END cells on same stream''), sm\<lparr>sm_open := ps\<rparr>)
           | Some (EndSent _) \<Rightarrow> (Inr (), sm\<lparr>sm_open := ps, sm_closed := (sm_closed sm)(i := None)\<rparr>)))"

definition RECV_WINDOW_INIT :: u16 where
  "RECV_WINDOW_INIT = 500"

definition terminate ::
  "bool \<Rightarrow> nat \<Rightarrow> stream_id \<Rightarrow> terminate_reason \<Rightarrow> nat \<Rightarrow> (stream_map, proto_error, should_send_end) eff" where
  "terminate dbg now i why expiry sm =
     (case ps_remove now i (sm_open sm) of
        (Inl e, ps) \<Rightarrow> (Inl (panic_of e), sm\<lparr>sm_open := ps\<rparr>)
      | (Inr (Some (_, ent)), ps) \<Rightarrow>
          (case recv_decrement_n (oe_dropped ent) RECV_WINDOW_INIT of
             (Inl e, _) \<Rightarrow> (Inl e, sm\<lparr>sm_open := ps\<rparr>)
           | (Inr _, recv_window) \<Rightarrow>
               let half = \<lparr>hs_flow_control = oe_flow_ctrl ent, hs_recvw = recv_window,
                           hs_cmd_checker = oe_cmd_checker ent\<rparr>
               in (assert_no_prev dbg (sm_closed sm i) SendEnd, sm\<lparr>sm_open := ps, sm_closed := (sm_closed sm)(i \<mapsto> EndSent
                    \<lparr>es_half_stream = half, es_explicitly_dropped = (why = StreamTargetClosed),
                     es_expiry = expiry\<rparr>)\<rparr>))
      | (Inr None, ps) \<Rightarrow>
          let sm1 = sm\<lparr>sm_open := ps, sm_closed := (sm_closed sm)(i := None)\<rparr> in
          (case sm_closed sm i of
             None \<Rightarrow> (Inl (ProtoInternal ''Somehow we terminated a nonexistent stream?''), sm1)
           | Some EndReceived \<Rightarrow> (Inr DontSendEnd, sm1)
           | Some (EndSent e) \<Rightarrow>
               (case why of
                  StreamTargetClosed \<Rightarrow>
                    if \<not> es_explicitly_dropped e then (Inr DontSendEnd, sm1)
                    else (Inl (ProtoBadApiUsage ''Tried to close an already closed stream.''), sm1)
                | ExplicitEnd \<Rightarrow> (Inl (ProtoBadApiUsage ''Tried to end an already closed stream.''), sm1))))"

definition poll_ready_streams_iter ::
  "(stream_map, proto_error, (stream_id \<times> any_relay_msg option) list) eff" where
  "poll_ready_streams_iter sm =
     (case ps_poll_ready_iter open_ops (sm_open sm) of
        (Inl e, ps) \<Rightarrow> (Inl (panic_of e), sm\<lparr>sm_open := ps\<rparr>)
      | (Inr xs, ps) \<Rightarrow>
          (Inr (map (\<lambda>(sid, _, ent). (sid, case open_peek ent of Ready m \<Rightarrow> m | Pending \<Rightarrow> None)) xs),
           sm\<lparr>sm_open := ps\<rparr>))"

definition take_ready_msg :: "bool \<Rightarrow> stream_id \<Rightarrow> (stream_map, proto_error, any_relay_msg option) eff" where
  "take_ready_msg dbg sid =
     ebind (take_next_priority dbg) (\<lambda>new_priority sm.
       case ps_take_ready_value_and_reprioritize open_ops sid new_priority (sm_open sm) of
         (Inl e, ps) \<Rightarrow> (Inl (panic_of e), sm\<lparr>sm_open := ps\<rparr>)
       | (Inr v, ps) \<Rightarrow> (Inr (map_option snd v), sm\<lparr>sm_open := ps\<rparr>))"

definition remove_expired_halfstreams :: "nat \<Rightarrow> stream_map \<Rightarrow> stream_map" where
  "remove_expired_halfstreams now sm =
     sm\<lparr>sm_closed := (\<lambda>i. case sm_closed sm i of
          None \<Rightarrow> None
        | Some EndReceived \<Rightarrow> Some EndReceived
        | Some (EndSent e) \<Rightarrow> if es_expiry e > now then Some (EndSent e) else None)\<rparr>"

section \<open>The open streams keep the contract of a peekable stream\<close>

interpretation open_pk: peekable_contract open_ops
proof (unfold_locales, goal_cases)
  case (1 s)
  then show ?case
    by (auto simp: open_ops_def open_peek_def open_register_def open_waker_def split: list.splits if_splits)
next
  case (2 s x)
  then show ?case
    by (auto simp: open_ops_def open_peek_def open_next_def split: list.splits if_splits)
qed

end
