(* ===== verification/StreamMap_Laws.thy ===== *)
theory StreamMap_Laws
  imports StreamMap
begin

text \<open>
  Properties of the streams of a circuit hop: the poll set loses no wake-up and does not
  panic, stream identifiers are allocated completely, streams are served in turn, the map
  implements a small state machine per stream, and a half-closed stream accepts a bounded
  amount of data.
\<close>

section \<open>Histories of a poll set of open streams\<close>

text \<open>
  What the reactor does with the open streams. It takes a message only from a stream that
  has not ended, and changes a stream only through methods that wake it when it stops being
  blocked.
\<close>

definition wakes_up :: "(open_ent \<Rightarrow> open_ent \<times> bool) \<Rightarrow> bool" where
  "wakes_up f \<longleftrightarrow> (\<forall>e. open_peek e = Pending \<longrightarrow> open_waker e \<longrightarrow>
     snd (f e) \<or> open_peek (fst (f e)) = Pending \<and> open_waker (fst (f e)))"

inductive ps_reach :: "(stream_id, u64, open_ent) poll_set \<Rightarrow> bool" where
  New: "ps_reach ps_new"
| Insert: "ps_reach ps \<Longrightarrow> ps_reach (snd (ps_try_insert k p e ps))"
| Remove: "ps_reach ps \<Longrightarrow> ps_reach (snd (ps_remove now k ps))"
| Poll: "ps_reach ps \<Longrightarrow> ps_reach (snd (ps_poll_ready_loop open_ops ps))"
| Take: "ps_reach ps \<Longrightarrow> (\<And>e. ps_stream k ps = Some e \<Longrightarrow> open_peek e \<noteq> Ready None) \<Longrightarrow>
    ps_reach (snd (ps_take_ready_value_and_reprioritize open_ops k p ps))"
| Change: "ps_reach ps \<Longrightarrow> wakes_up f \<Longrightarrow> ps_reach (ps_stream_mut k f ps)"

lemma open_ops_sel [simp]:
  "pk_peek open_ops = open_peek" "pk_waker open_ops = open_waker" "pk_register open_ops = open_register"
  "pk_next open_ops = open_next"
  by (simp_all add: open_ops_def)

lemma rx_wakes_up: "wakes_up (rx_send m)" "wakes_up rx_drop_sender"
  by (auto simp: wakes_up_def rx_send_def rx_drop_sender_def open_peek_def open_waker_def split: list.splits if_splits)

lemma sendme_wakes_up: "wakes_up (\<lambda>e. snd (oe_put_for_incoming_sendme msg e))"
proof -
  have keep: "flow_can_send m c' = flow_can_send m c"
    if "put_for_incoming_sendme msg c = (Inl err, c')" for m c c' err
  proof (cases c)
    case (WindowBased w)
    have "c' = WindowBased w"
      using that by (auto simp: WindowBased on_window_def window_put_for_incoming_sendme_def ebind_def elift_def
          send_put_def split: prod.splits sum.splits option.splits if_splits)
    then show ?thesis by (simp add: WindowBased)
  next
    case (XonXoffBased x)
    then show ?thesis using that by simp
  qed
  show ?thesis
    unfolding wakes_up_def
    by (auto simp: oe_put_for_incoming_sendme_def open_peek_def open_waker_def keep
        split: prod.splits sum.splits list.splits if_splits)
qed

lemma ps_remove_wake: "ps_wake_inv ops ps \<Longrightarrow> ps_wake_inv ops (snd (ps_remove now k ps))"
  by (auto simp: ps_remove_def ps_wake_inv_def wake_inv_def kfu_remove_def Let_def
      split: option.splits prod.splits if_splits)

lemma ps_insert_wake: "ps_wake_inv ops ps \<Longrightarrow> ps_wake_inv ops (snd (ps_try_insert k p e ps))"
  by (auto simp: ps_try_insert_def ps_wake_inv_def wake_inv_def kfu_try_insert_def
      split: option.splits if_splits)

lemma ps_reach_inv: "ps_reach ps \<Longrightarrow> ps_inv ps \<and> ps_wake_inv open_ops ps"
proof (induction rule: ps_reach.induct)
  case New
  show ?case by (simp add: ps_inv_new) (simp add: ps_wake_inv_def wake_inv_def ps_new_def kfu_new_def)
next
  case (Insert ps k p e)
  then show ?case by (simp add: ps_insert_inv ps_insert_wake)
next
  case (Remove ps now k)
  have "ps_inv (snd (ps_remove now k ps))"
    using Remove ps_remove_result [of ps k _ now] by (cases "ps_priorities ps k") (auto simp: ps_remove_def)
  then show ?case using Remove by (simp add: ps_remove_wake)
next
  case (Poll ps)
  then show ?case using open_pk.poll_ready_complete [of ps] by auto
next
  case (Take ps k p)
  then show ?case using open_pk.take_other [of ps k p] by simp
next
  case (Change ps f k)
  then show ?case
    using ps_stream_mut_inv [of ps k f] open_pk.stream_mut_wake [of ps f k] by (auto simp: wakes_up_def)
qed

section \<open>Identifiers\<close>

lemma next_id_nat:
  assumes "i \<noteq> 0"
  shows "wrapping_next_stream_id i \<noteq> 0"
    and "unat (wrapping_next_stream_id i) = unat i mod 65535 + 1"
proof -
  have top: "unat (- 1 :: stream_id) = 65535" by (simp add: unsigned_minus_1_eq_mask mask_eq_exp_minus_1)
  show n: "unat (wrapping_next_stream_id i) = unat i mod 65535 + 1"
  proof (cases "i = - 1")
    case True
    then show ?thesis by (simp add: wrapping_next_stream_id_def top)
  next
    case False
    then have "unat i \<noteq> 65535" using top by (metis word_unat_eq_iff)
    then have "unat i < 65535" using unat_lt2p [of i] by simp
    then show ?thesis using False by (simp add: wrapping_next_stream_id_def unat_word_ariths)
  qed
  then show "wrapping_next_stream_id i \<noteq> 0" by auto
qed

lemma next_ids_nat:
  assumes "i \<noteq> 0"
  shows "(wrapping_next_stream_id ^^ j) i \<noteq> 0 \<and>
    unat ((wrapping_next_stream_id ^^ j) i) = (unat i - 1 + j) mod 65535 + 1"
proof (induction j)
  case 0
  have "0 < unat i" "unat i < 65536" using assms unat_lt2p [of i] by (simp_all add: unat_gt_0)
  then show ?case using assms by simp
next
  case (Suc j)
  let ?k = "(wrapping_next_stream_id ^^ j) i"
  have "unat (wrapping_next_stream_id ?k) = ((unat i - 1 + j) mod 65535 + 1) mod 65535 + 1"
    using next_id_nat(2) [of ?k] Suc by simp
  then show ?case using next_id_nat(1) [of ?k] Suc by (simp add: mod_Suc_eq)
qed

text \<open>The identifiers tried, from any start, include every one there is.\<close>

lemma next_ids_cover:
  assumes "i \<noteq> 0" "t \<noteq> 0"
  obtains j where "j < 65535" "(wrapping_next_stream_id ^^ j) i = t"
proof -
  let ?a = "unat i - 1" and ?b = "unat t - 1"
  let ?j = "(?b + 65535 - ?a) mod 65535"
  have a: "?a < 65535" and b: "?b < 65535" and t: "unat t = ?b + 1"
    using assms unat_lt2p [of i] unat_lt2p [of t] by (simp_all add: unat_gt_0)
  have "(?a + ?j) mod 65535 = (?a + (?b + 65535 - ?a)) mod 65535" by (rule mod_add_right_eq)
  also have "?a + (?b + 65535 - ?a) = ?b + 65535" using a by simp
  finally have "(?a + ?j) mod 65535 = ?b" using b by simp
  then have "unat ((wrapping_next_stream_id ^^ ?j) i) = unat t"
    using next_ids_nat [OF assms(1), of ?j] t by simp
  then have "(wrapping_next_stream_id ^^ ?j) i = t" by (simp add: word_unat_eq_iff)
  moreover have "?j < 65535" by simp
  ultimately show ?thesis using that by blast
qed

section \<open>Histories of a stream map\<close>

text \<open>
  The operations are those of a build with or without debug assertions; each of them may be
  either. The half-closed streams change by the messages received on them, the open ones by
  the methods of their entries. The number counts the priorities that were asked for.
\<close>

inductive sm_reach :: "nat \<Rightarrow> stream_map \<Rightarrow> bool" where
  New: "i \<noteq> 0 \<Longrightarrow> sm_reach 0 (StreamMap_new i)"
| Add: "sm_reach n sm \<Longrightarrow> sm_reach (Suc n) (snd (add_ent dbg e sm))"
| AddWithId: "sm_reach n sm \<Longrightarrow> sm_reach (Suc n) (snd (add_ent_with_id dbg e i sm))"
| EndingMsg: "sm_reach n sm \<Longrightarrow> sm_reach n (snd (ending_msg_received dbg now i sm))"
| Terminate: "sm_reach n sm \<Longrightarrow> sm_reach n (snd (terminate dbg now i why expiry sm))"
| PollReady: "sm_reach n sm \<Longrightarrow> sm_reach n (snd (poll_ready_streams_iter sm))"
| TakeReady: "sm_reach n sm \<Longrightarrow> (\<And>e. get_ent i sm = Some (EntOpen e) \<Longrightarrow> open_peek e \<noteq> Ready None) \<Longrightarrow>
    sm_reach (Suc n) (snd (take_ready_msg dbg i sm))"
| Expire: "sm_reach n sm \<Longrightarrow> sm_reach n (remove_expired_halfstreams now sm)"
| OpenChange: "sm_reach n sm \<Longrightarrow> wakes_up f \<Longrightarrow> sm_reach n (sm\<lparr>sm_open := ps_stream_mut i f (sm_open sm)\<rparr>)"
| HalfChange: "sm_reach n sm \<Longrightarrow> sm_closed sm i = Some (EndSent es) \<Longrightarrow>
    sm_reach n (sm\<lparr>sm_closed := (sm_closed sm)(i \<mapsto> EndSent
      (es\<lparr>es_half_stream := snd (hs_handle_msg msg (es_half_stream es))\<rparr>))\<rparr>)"

text \<open>
  The invariant holds whatever the priorities are. While the 64-bit counter of priorities has
  not wrapped around, the priorities of the open streams are distinct and below the next one.
\<close>

definition sm_inv :: "stream_map \<Rightarrow> bool" where
  "sm_inv sm \<longleftrightarrow> ps_inv (sm_open sm) \<and> ps_wake_inv open_ops (sm_open sm) \<and> sm_next_stream_id sm \<noteq> 0"

definition sm_order :: "nat \<Rightarrow> stream_map \<Rightarrow> bool" where
  "sm_order n sm \<longleftrightarrow> (n < 2 ^ 64 \<longrightarrow> unat (sm_next_priority sm) \<le> n \<and>
     (\<forall>k p. ps_priorities (sm_open sm) k = Some p \<longrightarrow> p < sm_next_priority sm) \<and>
     inj_on (ps_priorities (sm_open sm)) (dom (ps_priorities (sm_open sm))))"

lemma get_ent_open [simp]: "get_ent i sm = Some (EntOpen e) \<longleftrightarrow> ps_stream i (sm_open sm) = Some e"
  by (auto simp: get_ent_def split: option.splits closed_ent.splits)

lemma get_ent_cong:
  "ps_stream k (sm_open a) = ps_stream k (sm_open b) \<Longrightarrow> sm_closed a k = sm_closed b k \<Longrightarrow> get_ent k a = get_ent k b"
  by (simp add: get_ent_def split: option.split)

lemma ps_stream_None: "ps_inv ps \<Longrightarrow> ps_stream k ps = None \<longleftrightarrow> ps_priorities ps k = None"
  using ps_invD [of ps k] by (auto simp: ps_stream_def slot_ok_def ready_at_def fun_eq_iff split: option.splits if_splits)

lemma ps_insert_stream:
  assumes "ps_inv ps" "ps_priorities ps k = None"
  shows "ps_stream j (snd (ps_try_insert k p e ps)) = (if j = k then Some e else ps_stream j ps)"
  using assms by (auto simp: ps_insert_result ps_stream_def split: option.splits)

text \<open>The loop of \<open>add_ent\<close> takes the first free identifier of those it tries.\<close>

lemma add_ent_loop_result:
  assumes "ps_inv (sm_open sm)"
  shows "(\<exists>j<n. let i = (wrapping_next_stream_id ^^ j) (sm_next_stream_id sm) in
       ps_priorities (sm_open sm) i = None \<and>
       (\<forall>j'<j. ps_priorities (sm_open sm) ((wrapping_next_stream_id ^^ j') (sm_next_stream_id sm)) \<noteq> None) \<and>
       add_ent_loop n p e sm = (Inr i, sm\<lparr>sm_next_stream_id := wrapping_next_stream_id i,
          sm_open := snd (ps_try_insert i p e (sm_open sm))\<rparr>)) \<or>
    (\<forall>j<n. ps_priorities (sm_open sm) ((wrapping_next_stream_id ^^ j) (sm_next_stream_id sm)) \<noteq> None) \<and>
       add_ent_loop n p e sm = (Inl ProtoIdRangeFull,
         sm\<lparr>sm_next_stream_id := (wrapping_next_stream_id ^^ n) (sm_next_stream_id sm)\<rparr>)"
  using assms
proof (induction n arbitrary: sm)
  case 0
  then show ?case by simp
next
  case (Suc n)
  let ?i = "sm_next_stream_id sm"
  show ?case
  proof (cases "ps_priorities (sm_open sm) ?i")
    case None
    then show ?thesis
      using Suc.prems by (intro disjI1 exI [of _ 0]) (simp add: Let_def ps_insert_result)
  next
    case (Some q)
    let ?sm = "sm\<lparr>sm_next_stream_id := wrapping_next_stream_id ?i\<rparr>"
    have step: "add_ent_loop (Suc n) p e sm = add_ent_loop n p e ?sm"
      using Some Suc.prems by (simp add: Let_def ps_insert_result)
    have less: "(\<forall>j<Suc m. P j) \<longleftrightarrow> P 0 \<and> (\<forall>j<m. P (Suc j))" for m and P :: "nat \<Rightarrow> bool"
      by (metis Suc_less_eq less_Suc_eq_0_disj)
    have "ps_inv (sm_open ?sm)" using Suc.prems by simp
    from Suc.IH [OF this] show ?thesis
    proof
      assume "\<exists>j<n. let i = (wrapping_next_stream_id ^^ j) (sm_next_stream_id ?sm) in
         ps_priorities (sm_open ?sm) i = None \<and>
         (\<forall>j'<j. ps_priorities (sm_open ?sm) ((wrapping_next_stream_id ^^ j') (sm_next_stream_id ?sm)) \<noteq> None) \<and>
         add_ent_loop n p e ?sm = (Inr i, ?sm\<lparr>sm_next_stream_id := wrapping_next_stream_id i,
            sm_open := snd (ps_try_insert i p e (sm_open ?sm))\<rparr>)"
      then obtain j where "j < n" and j: "let i = (wrapping_next_stream_id ^^ j) (sm_next_stream_id ?sm) in
         ps_priorities (sm_open ?sm) i = None \<and>
         (\<forall>j'<j. ps_priorities (sm_open ?sm) ((wrapping_next_stream_id ^^ j') (sm_next_stream_id ?sm)) \<noteq> None) \<and>
         add_ent_loop n p e ?sm = (Inr i, ?sm\<lparr>sm_next_stream_id := wrapping_next_stream_id i,
            sm_open := snd (ps_try_insert i p e (sm_open ?sm))\<rparr>)" by blast
      then show ?thesis
        unfolding step using Some by (intro disjI1 exI [of _ "Suc j"]) (simp add: Let_def less funpow_swap1)
    next
      assume "(\<forall>j<n. ps_priorities (sm_open ?sm) ((wrapping_next_stream_id ^^ j) (sm_next_stream_id ?sm)) \<noteq> None) \<and>
         add_ent_loop n p e ?sm = (Inl ProtoIdRangeFull,
           ?sm\<lparr>sm_next_stream_id := (wrapping_next_stream_id ^^ n) (sm_next_stream_id ?sm)\<rparr>)"
      then show ?thesis
        unfolding step using Some by (intro disjI2) (simp add: less funpow_swap1)
    qed
  qed
qed

text \<open>\<open>add_ent\<close> fails only when every identifier belongs to an open stream, or when the check of the
  counter of priorities fails.\<close>

lemma take_next_priority_eq:
  "take_next_priority dbg sm =
     (if dbg \<and> sm_next_priority sm = - 1 then (Inl (ProtoPanic ''attempt to add with overflow''), sm)
      else (Inr (sm_next_priority sm), sm\<lparr>sm_next_priority := sm_next_priority sm + 1\<rparr>))"
  by (simp add: take_next_priority_def Let_def)

lemma add_ent_result:
  assumes "sm_inv sm" "dbg \<longrightarrow> sm_next_priority sm \<noteq> - 1"
  obtains (added) i where "i \<noteq> 0" "ps_priorities (sm_open sm) i = None"
      "add_ent dbg e sm = (Inr i, sm\<lparr>sm_next_priority := sm_next_priority sm + 1,
         sm_next_stream_id := wrapping_next_stream_id i,
         sm_open := snd (ps_try_insert i (sm_next_priority sm) e (sm_open sm))\<rparr>)"
      "ps_priorities (sm_open sm) (sm_next_stream_id sm) = None \<Longrightarrow> i = sm_next_stream_id sm"
  | (full) k where "\<forall>i. i \<noteq> 0 \<longrightarrow> ps_priorities (sm_open sm) i \<noteq> None" "k \<noteq> 0"
      "add_ent dbg e sm = (Inl ProtoIdRangeFull, sm\<lparr>sm_next_priority := sm_next_priority sm + 1, sm_next_stream_id := k\<rparr>)"
proof -
  let ?sm = "sm\<lparr>sm_next_priority := sm_next_priority sm + 1\<rparr>"
  let ?nth = "\<lambda>j. (wrapping_next_stream_id ^^ j) (sm_next_stream_id sm)"
  have inv: "ps_inv (sm_open ?sm)" and nz: "sm_next_stream_id sm \<noteq> 0" using assms by (simp_all add: sm_inv_def)
  have run: "add_ent dbg e sm = add_ent_loop 65536 (sm_next_priority sm) e ?sm"
    using assms(2) by (auto simp: add_ent_def ebind_def take_next_priority_eq)
  consider (a) j where "ps_priorities (sm_open sm) (?nth j) = None"
      "\<forall>j'<j. ps_priorities (sm_open sm) (?nth j') \<noteq> None"
      "add_ent dbg e sm = (Inr (?nth j), ?sm\<lparr>sm_next_stream_id := wrapping_next_stream_id (?nth j),
          sm_open := snd (ps_try_insert (?nth j) (sm_next_priority sm) e (sm_open sm))\<rparr>)"
    | (b) "\<forall>j<65536. ps_priorities (sm_open sm) (?nth j) \<noteq> None"
      "add_ent dbg e sm = (Inl ProtoIdRangeFull, ?sm\<lparr>sm_next_stream_id := ?nth 65536\<rparr>)"
    using add_ent_loop_result [OF inv, of 65536 "sm_next_priority sm" e] unfolding run by (auto simp: Let_def)
  then show ?thesis
  proof cases
    case (a j)
    then have "ps_priorities (sm_open sm) (sm_next_stream_id sm) = None \<Longrightarrow> j = 0"
      by (metis funpow_0 gr0I)
    then show ?thesis using a next_ids_nat [OF nz, of j] by (intro added [of "?nth j"]) auto
  next
    case b
    have "ps_priorities (sm_open sm) i \<noteq> None" if i: "i \<noteq> 0" for i
    proof -
      obtain j where "j < 65535" "?nth j = i" by (rule next_ids_cover [OF nz i])
      moreover from this have "j < 65536" by simp
      ultimately show ?thesis using b(1) by blast
    qed
    then show ?thesis using b(2) next_ids_nat [OF nz, of 65536] by (intro full [of "?nth 65536"]) auto
  qed
qed

text \<open>Inserting, removing and moving a stream to the end of the queue keep the invariant.\<close>

lemma sm_inv_closed [simp]: "sm_inv (sm\<lparr>sm_closed := c\<rparr>) \<longleftrightarrow> sm_inv sm"
  by (simp add: sm_inv_def)

lemma sm_order_fields [simp]:
  "sm_order n (sm\<lparr>sm_closed := c\<rparr>) \<longleftrightarrow> sm_order n sm" "sm_order n (sm\<lparr>sm_next_stream_id := m\<rparr>) \<longleftrightarrow> sm_order n sm"
  by (simp_all add: sm_order_def)

text \<open>The next priority is handed out; a stream that gets it is behind all others.\<close>

lemma sm_order_next:
  assumes "sm_order n sm" "sm_next_priority sm' = sm_next_priority sm + 1"
    and "ps_priorities (sm_open sm') = ps_priorities (sm_open sm) \<or>
      (\<exists>i. ps_priorities (sm_open sm') = (ps_priorities (sm_open sm))(i \<mapsto> sm_next_priority sm))"
  shows "sm_order (Suc n) sm'"
  unfolding sm_order_def
proof
  let ?p = "ps_priorities (sm_open sm)" and ?n = "sm_next_priority sm"
  assume "Suc n < 2 ^ 64"
  then have o: "unat ?n \<le> n" "\<And>k p. ?p k = Some p \<Longrightarrow> p < ?n" "inj_on ?p (dom ?p)" and n: "unat ?n + 1 < 2 ^ 64"
    using assms(1) by (auto simp: sm_order_def)
  have u: "unat (?n + 1) = unat ?n + 1" using n by (subst unat_add_lem [THEN iffD1]) simp_all
  then have less: "?n < ?n + 1" by (simp add: word_less_nat_alt)
  have lt: "p < ?n + 1" if "?p k = Some p" for k p using o(2) [OF that] less by (rule less_trans)
  have "inj_on (?p(i \<mapsto> ?n)) (dom (?p(i \<mapsto> ?n)))" for i
    using o(3) unfolding inj_on_def dom_def by (auto dest: o(2) split: if_splits)
  then show "unat (sm_next_priority sm') \<le> Suc n \<and>
      (\<forall>k p. ps_priorities (sm_open sm') k = Some p \<longrightarrow> p < sm_next_priority sm') \<and>
      inj_on (ps_priorities (sm_open sm')) (dom (ps_priorities (sm_open sm')))"
    using assms(2,3) o(1,3) u less lt by (auto split: if_splits)
qed

lemma sm_order_Suc: "sm_order n sm \<Longrightarrow> sm_order (Suc n) sm"
  by (auto simp: sm_order_def)

lemma sm_inv_insert:
  assumes "sm_inv sm" "m \<noteq> 0"
  shows "sm_inv (sm\<lparr>sm_next_priority := q, sm_next_stream_id := m, sm_open := snd (ps_try_insert i p e (sm_open sm))\<rparr>)"
  using assms ps_insert_inv [of "sm_open sm"] ps_insert_wake [of open_ops "sm_open sm"] by (simp add: sm_inv_def)

lemma insert_priorities:
  assumes "ps_inv ps"
  shows "ps_priorities (snd (ps_try_insert i p e ps)) = ps_priorities ps \<or>
    ps_priorities (snd (ps_try_insert i p e ps)) = (ps_priorities ps)(i \<mapsto> p)"
  by (simp add: ps_insert_result [OF assms])

lemma sm_inv_remove:
  assumes "sm_inv sm"
  shows "sm_inv (sm\<lparr>sm_open := snd (ps_remove now i (sm_open sm))\<rparr>)"
    and "\<exists>v. fst (ps_remove now i (sm_open sm)) = Inr v"
    and "sm_order n sm \<Longrightarrow> sm_order n (sm\<lparr>sm_open := snd (ps_remove now i (sm_open sm))\<rparr>)"
proof -
  let ?p = "ps_priorities (sm_open sm)"
  have inv: "ps_inv (sm_open sm)" using assms by (auto simp: sm_inv_def)
  have rem: "ps_inv (snd (ps_remove now i (sm_open sm))) \<and> (\<exists>v. fst (ps_remove now i (sm_open sm)) = Inr v) \<and>
      ps_priorities (snd (ps_remove now i (sm_open sm))) = ?p(i := None)"
  proof (cases "?p i")
    case None
    moreover from this have "?p = ?p(i := None)" by (auto simp: fun_eq_iff)
    ultimately show ?thesis using inv by (simp add: ps_remove_def)
  next
    case (Some q)
    then show ?thesis using ps_remove_result [OF inv, of i q now] by auto
  qed
  then show "sm_inv (sm\<lparr>sm_open := snd (ps_remove now i (sm_open sm))\<rparr>)"
      "\<exists>v. fst (ps_remove now i (sm_open sm)) = Inr v"
    using assms ps_remove_wake [of open_ops "sm_open sm"] unfolding sm_inv_def by auto
  have "inj_on ?p (dom ?p) \<Longrightarrow> inj_on (?p(i := None)) (dom (?p(i := None)))"
    unfolding inj_on_def dom_def by auto
  then show "sm_order n sm \<Longrightarrow> sm_order n (sm\<lparr>sm_open := snd (ps_remove now i (sm_open sm))\<rparr>)"
    using rem by (auto simp: sm_order_def split: if_splits)
qed

lemma take_priorities:
  assumes "ps_inv ps"
  shows "(\<exists>p x. ps_priorities ps i = Some p \<and> fst (ps_take_ready_value_and_reprioritize open_ops i q ps) = Inr (Some (p, x)) \<and>
      ps_priorities (snd (ps_take_ready_value_and_reprioritize open_ops i q ps)) = (ps_priorities ps)(i \<mapsto> q)) \<or>
    (\<forall>v. fst (ps_take_ready_value_and_reprioritize open_ops i q ps) \<noteq> Inr (Some v)) \<and>
      ps_priorities (snd (ps_take_ready_value_and_reprioritize open_ops i q ps)) = ps_priorities ps"
proof (cases "\<exists>p s x. map_of (ps_ready ps) (p, i) = Some s \<and> open_peek s = Ready (Some x)")
  case True
  then obtain p s x where r: "map_of (ps_ready ps) (p, i) = Some s" and x: "pk_peek open_ops s = Ready (Some x)" by auto
  show ?thesis
    using open_pk.take_ready [OF assms r x, of q] ready_pending_None(1) [OF assms r] by auto
next
  case False
  then show ?thesis
    by (auto simp: ps_take_ready_value_and_reprioritize_def Let_def split: option.splits poll.splits prod.splits)
qed

lemma take_ready_msg_eq:
  "dbg \<and> sm_next_priority sm = - 1 \<Longrightarrow> take_ready_msg dbg i sm = (Inl (ProtoPanic ''attempt to add with overflow''), sm)"
  "\<not> (dbg \<and> sm_next_priority sm = - 1) \<Longrightarrow> take_ready_msg dbg i sm =
     (case ps_take_ready_value_and_reprioritize open_ops i (sm_next_priority sm) (sm_open sm) of
        (r, ps) \<Rightarrow> ((case r of Inl e \<Rightarrow> Inl (panic_of e) | Inr v \<Rightarrow> Inr (map_option snd v)),
          sm\<lparr>sm_next_priority := sm_next_priority sm + 1, sm_open := ps\<rparr>))"
  by (auto simp: take_ready_msg_def ebind_def take_next_priority_eq split: prod.split sum.split)

lemma sm_inv_take:
  assumes "sm_inv sm" "\<And>e. get_ent i sm = Some (EntOpen e) \<Longrightarrow> open_peek e \<noteq> Ready None"
  shows "sm_inv (snd (take_ready_msg dbg i sm))"
    and "sm_order n sm \<Longrightarrow> sm_order (Suc n) (snd (take_ready_msg dbg i sm))"
    and "dbg \<longrightarrow> sm_next_priority sm \<noteq> - 1 \<Longrightarrow> \<exists>v. fst (take_ready_msg dbg i sm) = Inr v"
proof -
  let ?n = "sm_next_priority sm"
  have inv: "ps_inv (sm_open sm)" and wk: "ps_wake_inv open_ops (sm_open sm)" using assms(1) by (auto simp: sm_inv_def)
  obtain r ps where r: "ps_take_ready_value_and_reprioritize open_ops i ?n (sm_open sm) = (r, ps)" by fastforce
  have ok: "(\<exists>v. r = Inr v) \<and> ps_inv ps \<and> ps_wake_inv open_ops ps"
    using open_pk.take_other [OF inv wk, of i ?n] assms(2) by (simp add: r)
  show "sm_inv (snd (take_ready_msg dbg i sm))"
    using ok assms(1) take_ready_msg_eq [of dbg sm i] by (cases "dbg \<and> ?n = - 1") (auto simp: sm_inv_def r)
  show "\<exists>v. fst (take_ready_msg dbg i sm) = Inr v" if "dbg \<longrightarrow> ?n \<noteq> - 1"
    using ok that take_ready_msg_eq(2) [of dbg sm i] by (auto simp: r)
  assume o: "sm_order n sm"
  show "sm_order (Suc n) (snd (take_ready_msg dbg i sm))"
  proof (cases "dbg \<and> ?n = - 1")
    case True
    then show ?thesis using o take_ready_msg_eq(1) [of dbg sm i] sm_order_Suc by simp
  next
    case False
    have "ps_priorities ps = ps_priorities (sm_open sm) \<or> ps_priorities ps = (ps_priorities (sm_open sm))(i \<mapsto> ?n)"
      using take_priorities [OF inv, of i ?n] by (auto simp: r)
    then show ?thesis
      using False take_ready_msg_eq(2) [OF False, of i] by (intro sm_order_next [OF o]) (auto simp: r)
  qed
qed

lemma sm_inv_add:
  assumes "sm_inv sm" "sm_order n sm"
  shows "sm_inv (snd (add_ent dbg e sm)) \<and> sm_order (Suc n) (snd (add_ent dbg e sm))"
proof (cases "dbg \<and> sm_next_priority sm = - 1")
  case True
  then show ?thesis using assms sm_order_Suc by (simp add: add_ent_def ebind_def take_next_priority_eq)
next
  case False
  then have d: "dbg \<longrightarrow> sm_next_priority sm \<noteq> - 1" by simp
  have ps: "ps_inv (sm_open sm)" using assms(1) by (simp add: sm_inv_def)
  show ?thesis
  proof (cases rule: add_ent_result [OF assms(1) d, of e])
    case (1 i)
    then show ?thesis
      using sm_inv_insert [OF assms(1), of "wrapping_next_stream_id i"] next_id_nat(1) [of i] insert_priorities [OF ps, of i "sm_next_priority sm" e]
      by (auto intro!: sm_order_next [OF assms(2)])
  next
    case (2 k)
    then show ?thesis using assms by (auto simp: sm_inv_def intro!: sm_order_next [OF assms(2)])
  qed
qed

lemma sm_inv_add_with_id:
  assumes "sm_inv sm" "sm_order n sm"
  shows "sm_inv (snd (add_ent_with_id dbg e i sm)) \<and> sm_order (Suc n) (snd (add_ent_with_id dbg e i sm))"
proof (cases "dbg \<and> sm_next_priority sm = - 1")
  case True
  then show ?thesis using assms sm_order_Suc by (simp add: add_ent_with_id_def ebind_def take_next_priority_eq)
next
  case False
  have ps: "ps_inv (sm_open sm)" and nz: "sm_next_stream_id sm \<noteq> 0" using assms(1) by (simp_all add: sm_inv_def)
  let ?ps = "snd (ps_try_insert i (sm_next_priority sm) e (sm_open sm))"
  have "snd (add_ent_with_id dbg e i sm) = sm\<lparr>sm_next_priority := sm_next_priority sm + 1, sm_open := ?ps\<rparr>"
    using False by (auto simp: add_ent_with_id_def ebind_def take_next_priority_eq split: prod.split sum.split ps_error.split)
  moreover have "sm_inv (sm\<lparr>sm_next_priority := sm_next_priority sm + 1, sm_open := ?ps\<rparr>)"
    using sm_inv_insert [OF assms(1) nz, where q = "sm_next_priority sm + 1"] by (simp add: sm_inv_def)
  ultimately show ?thesis
    using insert_priorities [OF ps, of i "sm_next_priority sm" e] by (auto intro!: sm_order_next [OF assms(2)])
qed

lemma sm_reach_invs: "sm_reach n sm \<Longrightarrow> sm_inv sm \<and> sm_order n sm"
proof (induction rule: sm_reach.induct)
  case (New i)
  then show ?case
    using ps_reach_inv [OF ps_reach.New]
    by (simp add: sm_inv_def sm_order_def StreamMap_new_def ps_inv_new) (simp add: ps_new_def)
next
  case (Add n sm dbg e)
  then show ?case using sm_inv_add by blast
next
  case (AddWithId n sm dbg e i)
  then show ?case using sm_inv_add_with_id by blast
next
  case (EndingMsg n sm dbg now i)
  then show ?case
    using sm_inv_remove [where sm = sm and now = now and i = i]
    by (auto simp: ending_msg_received_def split: prod.splits sum.splits option.splits closed_ent.splits)
next
  case (Terminate n sm dbg now i why expiry)
  then show ?case
    using sm_inv_remove [where sm = sm and now = now and i = i]
    by (auto simp: terminate_def Let_def split: prod.splits sum.splits option.splits closed_ent.splits terminate_reason.splits)
next
  case (PollReady n sm)
  then show ?case
    using open_pk.poll_ready_complete [of "sm_open sm"]
    by (auto simp: sm_inv_def sm_order_def poll_ready_streams_iter_def ps_poll_ready_iter_def ebind_def)
next
  case (TakeReady n sm i dbg)
  then show ?case using sm_inv_take [of sm i] by blast
next
  case (OpenChange n sm f i)
  have "ps_priorities (ps_stream_mut i f (sm_open sm)) = ps_priorities (sm_open sm)"
    by (auto simp: ps_stream_mut_def Let_def split: option.splits prod.splits)
  then show ?case
    using OpenChange ps_stream_mut_inv [of "sm_open sm" i f] open_pk.stream_mut_wake [of "sm_open sm" f i]
    by (auto simp: sm_inv_def sm_order_def wakes_up_def)
qed (simp_all add: sm_inv_def sm_order_def remove_expired_halfstreams_def)

lemmas sm_reach_inv = sm_reach_invs [THEN conjunct1] and sm_reach_order = sm_reach_invs [THEN conjunct2]

section \<open>Scheduling\<close>

lemma poll_ready_order:
  assumes "ps_inv ps"
  shows "sorted_wrt (\<lambda>a b. a \<le> b) (map (\<lambda>(k, _). the (ps_priorities ps k)) (map (\<lambda>((p, k), e). (k, f e)) (ps_ready ps)))"
proof -
  have "bt_ordered (ps_ready ps)" using assms by (simp add: ps_inv_def)
  then have d: "distinct (map fst (ps_ready ps))" and s: "sorted_wrt (<) (map fst (ps_ready ps))"
    by (auto simp: bt_ordered_def strict_sorted_iff)
  have p: "ps_priorities ps k = Some p" if "((p, k), e) \<in> set (ps_ready ps)" for p k e
    using ready_pending_None(1) [OF assms, of p k e] that d by (simp add: map_of_eq_Some_iff)
  have "map (\<lambda>(k, _). the (ps_priorities ps k)) (map (\<lambda>((p, k), e). (k, f e)) (ps_ready ps)) = map fst (map fst (ps_ready ps))"
    by (auto simp: p)
  moreover have "sorted_wrt (\<lambda>a b. a \<le> b) (map fst (map fst (ps_ready ps)))"
    unfolding sorted_wrt_map using s [unfolded sorted_wrt_map]
    by (rule sorted_wrt_mono_rel [rotated]) (auto simp: less_prod_def)
  ultimately show ?thesis by (simp only:)
qed

lemma poll_ready_result:
  assumes "sm_inv sm"
  obtains xs sm' where "poll_ready_streams_iter sm = (Inr xs, sm')"
    and "\<And>k e m. ps_stream k (sm_open sm) = Some e \<Longrightarrow> open_peek e = Ready m \<Longrightarrow> (k, m) \<in> set xs"
    and "\<And>k e. ps_stream k (sm_open sm') = Some e \<Longrightarrow> k \<notin> fst ` set xs \<Longrightarrow> open_peek e = Pending \<and> open_waker e"
    and "sorted_wrt (\<lambda>a b. a \<le> b) (map (\<lambda>(k, _). the (ps_priorities (sm_open sm) k)) xs)"
proof -
  have inv: "ps_inv (sm_open sm)" and wk: "ps_wake_inv open_ops (sm_open sm)" using assms by (auto simp: sm_inv_def)
  obtain ps where ps: "ps_poll_ready_loop open_ops (sm_open sm) = (Inr (), ps)" "ps_inv ps"
    "ps_priorities ps = ps_priorities (sm_open sm)"
    "\<forall>k. map_option open_peek (ps_stream k ps) = map_option open_peek (ps_stream k (sm_open sm))"
    "\<forall>k s. kfu_futures (ps_pending ps) k = Some s \<longrightarrow> open_peek s = Pending \<and> open_waker s"
    using open_pk.poll_ready_complete [OF inv wk] by auto
  let ?xs = "map (\<lambda>((p, k), e). (k, case open_peek e of Ready m \<Rightarrow> m | Pending \<Rightarrow> None)) (ps_ready ps)"
  have poll: "poll_ready_streams_iter sm = (Inr ?xs, sm\<lparr>sm_open := ps\<rparr>)"
    by (simp add: poll_ready_streams_iter_def ps_poll_ready_iter_def ebind_def ps(1) comp_def case_prod_unfold
        del: ps_poll_ready_loop.simps)
  have ready: "\<exists>p. map_of (ps_ready ps) (p, k) = Some e"
    if "ps_stream k ps = Some e" "\<not> (open_peek e = Pending \<and> open_waker e)" for k e
    using that ps(5) by (auto simp: ps_stream_def split: option.splits)
  have listed: "(k, m) \<in> set ?xs" if e: "ps_stream k (sm_open sm) = Some e" and m: "open_peek e = Ready m" for k e m
  proof -
    have "map_option open_peek (ps_stream k ps) = Some (Ready m)" using ps(4) e m by simp
    then obtain e' where e': "ps_stream k ps = Some e'" "open_peek e' = Ready m" by auto
    then obtain p where "map_of (ps_ready ps) (p, k) = Some e'" using ready [of k e'] by auto
    then have "((p, k), e') \<in> set (ps_ready ps)" by (rule map_of_SomeD)
    then show ?thesis using e'(2) by (force simp: image_iff)
  qed
  have waiting: "open_peek e = Pending \<and> open_waker e" if e: "ps_stream k ps = Some e" and k: "k \<notin> fst ` set ?xs" for k e
  proof (rule ccontr)
    assume "\<not> (open_peek e = Pending \<and> open_waker e)"
    then obtain p where "map_of (ps_ready ps) (p, k) = Some e" using ready e by blast
    then have "((p, k), e) \<in> set (ps_ready ps)" by (rule map_of_SomeD)
    then show False using k by (force simp: image_iff)
  qed
  show ?thesis
    using poll listed waiting poll_ready_order [OF ps(2)] ps(3) by (intro that) auto
qed

text \<open>
  C7. No wake-up is lost. After any history, polling for ready streams succeeds; it lists
  every open stream that has a message it may send, or that has ended, with that message;
  every stream it does not list is blocked and has the waker registered; and the streams
  come in the order of their priorities.
\<close>

theorem stream_map_no_lost_wakeups:
  assumes "sm_reach n sm"
  shows "\<exists>xs sm'. poll_ready_streams_iter sm = (Inr xs, sm') \<and>
    (\<forall>k e m. get_ent k sm = Some (EntOpen e) \<and> open_peek e = Ready m \<longrightarrow> (k, m) \<in> set xs) \<and>
    (\<forall>k e. get_ent k sm' = Some (EntOpen e) \<and> k \<notin> fst ` set xs \<longrightarrow> open_peek e = Pending \<and> open_waker e) \<and>
    sorted (map (\<lambda>(k, _). the (ps_priorities (sm_open sm) k)) xs)"
proof -
  obtain xs sm' where "poll_ready_streams_iter sm = (Inr xs, sm')"
    "\<And>k e m. ps_stream k (sm_open sm) = Some e \<Longrightarrow> open_peek e = Ready m \<Longrightarrow> (k, m) \<in> set xs"
    "\<And>k e. ps_stream k (sm_open sm') = Some e \<Longrightarrow> k \<notin> fst ` set xs \<Longrightarrow> open_peek e = Pending \<and> open_waker e"
    "sorted (map (\<lambda>(k, _). the (ps_priorities (sm_open sm) k)) xs)"
    by (rule poll_ready_result [OF sm_reach_inv [OF assms]]) blast
  then show ?thesis by (intro exI [of _ xs] exI [of _ sm']) auto
qed

text \<open>
  C24. Streams take turns. Taking a message from a stream puts it behind every other open
  stream and changes the place of no other, as long as fewer than $2^{64}$ priorities have
  been given out before; the counter of priorities has 64 bits.
\<close>

theorem take_ready_round_robin:
  assumes "sm_reach n sm" "n < 2 ^ 64" "take_ready_msg dbg i sm = (Inr (Some m), sm')"
  shows "\<exists>p. ps_priorities (sm_open sm') i = Some p \<and>
    (\<forall>k q. k \<noteq> i \<and> ps_priorities (sm_open sm') k = Some q \<longrightarrow> q < p) \<and>
    (\<forall>k. k \<noteq> i \<longrightarrow> ps_priorities (sm_open sm') k = ps_priorities (sm_open sm) k)"
proof -
  let ?n = "sm_next_priority sm"
  have inv: "ps_inv (sm_open sm)" using sm_reach_inv [OF assms(1)] by (simp add: sm_inv_def)
  have "\<not> (dbg \<and> ?n = - 1)" using take_ready_msg_eq(1) [of dbg sm i] assms(3) by auto
  then have "ps_priorities (sm_open sm') = (ps_priorities (sm_open sm))(i \<mapsto> ?n)"
    using take_priorities [OF inv, of i ?n] take_ready_msg_eq(2) [of dbg sm i] assms(3)
    by (auto split: prod.splits sum.splits dest!: sym [of "Some m"])
  then show ?thesis using sm_reach_order [OF assms(1)] assms(2) by (auto simp: sm_order_def)
qed


lemma next_priority_ok: "sm_reach n sm \<Longrightarrow> n + 1 < 2 ^ 64 \<Longrightarrow> sm_next_priority sm \<noteq> - 1"
proof
  assume "sm_reach n sm" "n + 1 < 2 ^ 64" "sm_next_priority sm = - 1"
  then have "unat (- 1 :: u64) \<le> n" using sm_reach_order [of n sm] by (simp add: sm_order_def)
  moreover have "unat (- 1 :: u64) = 2 ^ 64 - 1" by (simp add: unsigned_minus_1_eq_mask mask_eq_exp_minus_1)
  ultimately show False using \<open>n + 1 < 2 ^ 64\<close> by simp
qed

lemma ps_remove_cases:
  assumes "ps_inv ps"
  obtains (absent) "ps_stream i ps = None" "ps_remove now i ps = (Inr None, ps)"
  | (there) p e ps' where "ps_stream i ps = Some e" "ps_remove now i ps = (Inr (Some (p, e)), ps')"
      "ps_stream i ps' = None" "\<And>k. k \<noteq> i \<Longrightarrow> ps_stream k ps' = ps_stream k ps"
proof (cases "ps_priorities ps i")
  case None
  then show ?thesis using absent ps_stream_None [OF assms, of i] by (simp add: ps_remove_def)
next
  case (Some p)
  let ?ps = "snd (ps_remove now i ps)"
  obtain e where e: "ps_stream i ps = Some e" "fst (ps_remove now i ps) = Inr (Some (p, e))" "ps_inv ?ps"
    "ps_priorities ?ps = (ps_priorities ps)(i := None)" "\<forall>k. k \<noteq> i \<longrightarrow> ps_stream k ?ps = ps_stream k ps"
    using ps_remove_result [OF assms Some, of now] by (elim exE conjE) (rule that)
  have "ps_stream i ?ps = None" using ps_stream_None [OF e(3), of i] e(4) by simp
  then show ?thesis using there [of e p ?ps] e by (metis prod.collapse)
qed

lemma decrement_initial: "d \<le> 500 \<Longrightarrow> recv_decrement_n d RECV_WINDOW_INIT = (Inr (), 500 - d)"
  by (simp add: recv_decrement_n_def RECV_WINDOW_INIT_def checked_sub_u16_def)



section \<open>Allocation of identifiers\<close>

text \<open>
  C22. Allocation is complete. Opening a stream fails exactly when each of the 65535
  identifiers belongs to an open stream; otherwise it gives one that did not, after which the
  stream is found under it and every other stream is as before. In a build with debug
  assertions fewer than $2^{64} - 1$ priorities must have been given out.
\<close>

theorem stream_id_allocation:
  assumes "sm_reach n sm" "dbg \<Longrightarrow> n + 1 < 2 ^ 64"
  shows "(if \<forall>i. i \<noteq> 0 \<longrightarrow> ps_stream i (sm_open sm) \<noteq> None
     then fst (add_ent dbg e sm) = Inl ProtoIdRangeFull
     else \<exists>i. fst (add_ent dbg e sm) = Inr i \<and> i \<noteq> 0 \<and> ps_stream i (sm_open sm) = None \<and>
       get_ent i (snd (add_ent dbg e sm)) = Some (EntOpen e) \<and>
       (\<forall>k. k \<noteq> i \<longrightarrow> get_ent k (snd (add_ent dbg e sm)) = get_ent k sm))"
proof -
  have inv: "sm_inv sm" by (rule sm_reach_inv [OF assms(1)])
  then have ps: "ps_inv (sm_open sm)" by (simp add: sm_inv_def)
  have d: "dbg \<longrightarrow> sm_next_priority sm \<noteq> - 1" using assms(2) next_priority_ok [OF assms(1)] by blast
  show ?thesis
  proof (cases rule: add_ent_result [OF inv d, of e])
    case (1 i)
    then show ?thesis
      by (auto simp: ps_stream_None [OF ps] ps_insert_stream [OF ps] intro!: exI [of _ i] get_ent_cong)
  next
    case (2 k)
    then show ?thesis by (simp add: ps_stream_None [OF ps])
  qed
qed

text \<open>
  C40. An identifier that is still half closed is given out again: the allocation looks at the
  open streams only, so that afterwards the identifier is in both maps, which the comments on
  the two fields exclude. In a build with debug assertions the end of that stream panics,
  whichever side ends it.
\<close>

theorem stream_id_reuse:
  assumes "sm_reach n sm" "n + 1 < 2 ^ 64" "ps_stream (sm_next_stream_id sm) (sm_open sm) = None"
    "sm_closed sm (sm_next_stream_id sm) = Some c" "oe_dropped e \<le> 500"
  shows "fst (add_ent dbg e sm) = Inr (sm_next_stream_id sm) \<and>
    ps_stream (sm_next_stream_id sm) (sm_open (snd (add_ent dbg e sm))) = Some e \<and>
    sm_closed (snd (add_ent dbg e sm)) (sm_next_stream_id sm) = Some c \<and>
    fst (ending_msg_received True now (sm_next_stream_id sm) (snd (add_ent dbg e sm))) =
      Inl (ProtoPanic ''Unexpected duplicate entry'') \<and>
    fst (terminate True now (sm_next_stream_id sm) why expiry (snd (add_ent dbg e sm))) =
      Inl (ProtoPanic ''Unexpected duplicate entry'')"
proof -
  let ?i = "sm_next_stream_id sm" and ?sm = "snd (add_ent dbg e sm)"
  have inv: "sm_inv sm" by (rule sm_reach_inv [OF assms(1)])
  then have ps: "ps_inv (sm_open sm)" and nz: "?i \<noteq> 0" by (simp_all add: sm_inv_def)
  have d: "dbg \<longrightarrow> sm_next_priority sm \<noteq> - 1" using assms(2) next_priority_ok [OF assms(1)] by blast
  have free: "ps_priorities (sm_open sm) ?i = None"
    using assms(3) by (simp add: ps_stream_None [OF ps])
  have added: "fst (add_ent dbg e sm) = Inr ?i \<and> ps_stream ?i (sm_open ?sm) = Some e \<and> sm_closed ?sm ?i = Some c"
  proof (cases rule: add_ent_result [OF inv d, of e])
    case (1 i)
    then show ?thesis using free assms(4) by (simp add: ps_insert_stream [OF ps])
  next
    case (2 k)
    then show ?thesis using free nz by blast
  qed
  have "ps_inv (sm_open ?sm)" using sm_reach_inv [OF sm_reach.Add [OF assms(1)], of dbg e] by (simp add: sm_inv_def)
  then obtain p ps' where "ps_remove now ?i (sm_open ?sm) = (Inr (Some (p, e)), ps')"
    using added by (cases rule: ps_remove_cases [of "sm_open ?sm" ?i now]) auto
  then show ?thesis
    using added decrement_initial [OF assms(5)]
    by (simp add: ending_msg_received_def terminate_def assert_no_prev_def Let_def)
qed

section \<open>The life of a stream\<close>

text \<open>
  The state machine that the comments of \<open>streammap.rs\<close> describe, by stream: which events it
  accepts and where they lead. An END that was sent is remembered until the other side has
  sent its own, with a flag for whether the local target has been dropped too.
\<close>

datatype life = Unused | Live | EndIn | EndOut bool

fun life_of :: "stream_ent option \<Rightarrow> life" where
  "life_of None = Unused"
| "life_of (Some (EntOpen _)) = Live"
| "life_of (Some EntEndReceived) = EndIn"
| "life_of (Some (EntEndSent es)) = EndOut (es_explicitly_dropped es)"






text \<open>
  C37. A transition of the map forgets a half-closed stream. A stream that was ended
  explicitly and whose target is then dropped is removed from the map although no END has
  arrived, since the flag is set on an entry already taken out of the map; the END of the
  other side is then a protocol violation.
\<close>

theorem terminate_forgets_half_stream:
  assumes "sm_reach n sm" "get_ent i sm = Some (EntOpen e)" "oe_dropped e \<le> 500"
    and "sm1 = snd (terminate dbg now i ExplicitEnd expiry sm)"
    and "terminate dbg now' i StreamTargetClosed expiry' sm1 = (r, sm2)"
  shows "life_of (get_ent i sm1) = EndOut False \<and> r = Inr DontSendEnd \<and> get_ent i sm2 = None \<and>
    fst (ending_msg_received dbg now'' i sm2) = Inl (ProtoViolation ''Received END cell on nonexistent stream'')"
proof -
  have ps: "ps_inv (sm_open sm)" using sm_reach_inv [OF assms(1)] by (simp add: sm_inv_def)
  show ?thesis
  proof (cases rule: ps_remove_cases [OF ps, of i now])
    case 1
    then show ?thesis using assms(2) by simp
  next
    case (2 p e' ps')
    then have s1: "sm1 = sm\<lparr>sm_open := ps', sm_closed := (sm_closed sm)(i \<mapsto> EndSent
        \<lparr>es_half_stream = \<lparr>hs_flow_control = oe_flow_ctrl e, hs_recvw = 500 - oe_dropped e, hs_cmd_checker = oe_cmd_checker e\<rparr>,
         es_explicitly_dropped = False, es_expiry = expiry\<rparr>)\<rparr>"
      using assms(2-4) by (simp add: terminate_def decrement_initial Let_def)
    have "sm_reach n sm1" unfolding assms(4) by (rule sm_reach.Terminate [OF assms(1)])
    then have ps1: "ps_inv (sm_open sm1)" by (auto dest: sm_reach_inv simp: sm_inv_def)
    have "ps_stream i (sm_open sm1) = None" using 2 by (simp add: s1)
    then have rem: "ps_remove t i (sm_open sm1) = (Inr None, sm_open sm1)" for t
      by (cases rule: ps_remove_cases [OF ps1, of i t]) auto
    show ?thesis
      using assms(5) 2(3) rem by (auto simp: s1 terminate_def ending_msg_received_def get_ent_def Let_def)
  qed
qed

text \<open>
  C38. The comment on \<open>take_ready_value_and_reprioritize\<close> says that a stream that has ended is
  left in place. It is dropped from the ready streams and keeps its priority, so that the
  stream can no longer be found and terminating it panics.
\<close>

theorem take_ended_stream_panics:
  assumes "sm_reach n sm" "dbg \<Longrightarrow> n + 1 < 2 ^ 64" "map_of (ps_ready (sm_open sm)) (p, i) = Some e" "open_peek e = Ready None"
    and "take_ready_msg dbg i sm = (r, sm')"
  shows "r = Inr None \<and> ps_stream i (sm_open sm') = None \<and>
    fst (terminate dbg' now i why expiry sm') = Inl (ProtoPanic ''Unexpectedly no value for key'')"
proof -
  have ps: "ps_inv (sm_open sm)" using sm_reach_inv [OF assms(1)] by (simp add: sm_inv_def)
  note at = ready_pending_None [OF ps assms(3)]
  obtain s where "fst (ps_remove now i (sm_open sm)) = Inr (Some (p, s))" using ps_remove_result [OF ps at(1), of now] by blast
  then obtain a where a: "dec_streams now (ps_activity (sm_open sm)) = Some a"
    by (auto simp: ps_remove_def at(1) Let_def split: option.splits)
  have "r = Inr None \<and> sm' = sm\<lparr>sm_next_priority := sm_next_priority sm + 1,
      sm_open := (sm_open sm)\<lparr>ps_ready := bt_remove (p, i) (ps_ready (sm_open sm))\<rparr>\<rparr>"
    using assms(3-5) at next_priority_ok [OF assms(1)] assms(2) take_ready_msg_eq(2) [of dbg sm i]
    by (auto simp: ps_take_ready_value_and_reprioritize_def)
  then show ?thesis
    using at a
    by (simp add: ps_stream_def terminate_def ps_remove_def kfu_remove_def map_of_bt_remove panic_of_def)
qed

section \<open>Half-closed streams\<close>

lemma hs_handle_window:
  assumes "hs_handle_msg msg h = (Inr st, h')"
  shows "unat (hs_recvw h') + (if unparsed_cmd msg = RC_DATA then 1 else 0) = unat (hs_recvw h)"
proof -
  have flow: "hs_recvw h' = hs_recvw h" if "hs_flow f h = (Inr st, h')" for f
    using that by (auto simp: hs_flow_def split: prod.splits sum.splits)
  have ne: "RC_SENDME \<noteq> RC_DATA" "RC_XON \<noteq> RC_DATA" "RC_XOFF \<noteq> RC_DATA" by code_simp+
  consider f where "hs_flow f h = (Inr st, h')" "unparsed_cmd msg \<noteq> RC_DATA"
    | (data) "unparsed_cmd msg = RC_DATA" | (other) "unparsed_cmd msg \<noteq> RC_DATA" "hs_recvw h' = hs_recvw h"
    using assms ne
    by (auto simp: hs_handle_msg_def ebind_def eret_def cmd_counts_towards_windows_def split: if_splits prod.splits sum.splits)
  then show ?thesis
  proof cases
    case data
    then show ?thesis
      using assms ne
      by (auto simp: hs_handle_msg_def ebind_def eret_def cmd_counts_towards_windows_def recv_take_def
          checked_sub_u16_def unat_sub word_le_nat_alt split: if_splits prod.splits sum.splits option.splits)
  qed (use flow in auto)
qed

lemma hs_run_window:
  assumes "emapM hs_handle_msg msgs h = (Inr sts, h')"
  shows "unat (hs_recvw h') + length (filter (\<lambda>m. unparsed_cmd m = RC_DATA) msgs) = unat (hs_recvw h)"
  using assms
proof (induction msgs arbitrary: h sts)
  case Nil
  then show ?case by (simp add: eret_def)
next
  case (Cons m ms)
  then obtain st h1 sts' where "hs_handle_msg m h = (Inr st, h1)" "emapM hs_handle_msg ms h1 = (Inr sts', h')"
    by (auto simp: ebind_def eret_def split: prod.splits sum.splits)
  then show ?case using hs_handle_window [of m h st h1] Cons.IH [of h1 sts'] by auto
qed

text \<open>
  C25. After the local side has ended a stream, the other end can have at most as many DATA
  messages accepted on it as an initial window less the messages already dropped, whatever
  other messages come between them; the next one is an error.
\<close>

theorem half_stream_data_bound:
  assumes "sm_reach n sm" "get_ent i sm = Some (EntOpen e)" "oe_dropped e \<le> 500"
    and "terminate dbg now i why expiry sm = (r, sm')" "get_ent i sm' = Some (EntEndSent es)"
    and "fst (emapM hs_handle_msg msgs (es_half_stream es)) = Inr sts"
  shows "length (filter (\<lambda>m. unparsed_cmd m = RC_DATA) msgs) \<le> 500 - unat (oe_dropped e)"
proof -
  have ps: "ps_inv (sm_open sm)" using sm_reach_inv [OF assms(1)] by (simp add: sm_inv_def)
  have "hs_recvw (es_half_stream es) = 500 - oe_dropped e"
  proof (cases rule: ps_remove_cases [OF ps, of i now])
    case 1
    then show ?thesis using assms(2) by simp
  next
    case (2 p e' ps')
    then show ?thesis
      using assms(2-5) by (auto simp: terminate_def decrement_initial Let_def get_ent_def)
  qed
  then have "unat (hs_recvw (es_half_stream es)) = 500 - unat (oe_dropped e)"
    using assms(3) by (simp add: unat_sub)
  moreover obtain h' where "emapM hs_handle_msg msgs (es_half_stream es) = (Inr sts, h')"
    using assms(6) by (metis prod.collapse)
  ultimately show ?thesis using hs_run_window by fastforce
qed

section \<open>Examples\<close>

text \<open>A map with one stream, and with given messages waiting on it.\<close>

definition ex_open :: "any_relay_msg list \<Rightarrow> bool \<Rightarrow> open_ent" where
  "ex_open ms closed =
     new_open_ent 0 \<lparr>rx_msgs = ms, rx_closed = closed, rx_waker = False\<rparr> (WindowBased 500) (OutboundDataCmdChecker False)"

definition ex_map :: "any_relay_msg list \<Rightarrow> bool \<Rightarrow> stream_map" where
  "ex_map ms closed = snd (add_ent True (ex_open ms closed) (StreamMap_new 7))"

lemma ex_map_reach: "sm_reach 1 (ex_map ms closed)"
  using sm_reach.Add [OF sm_reach.New, of 7 True "ex_open ms closed"] by (simp add: ex_map_def)

lemma ex_map_eq:
  "ex_map ms closed =
     \<lparr>sm_open = \<lparr>ps_priorities = [7 \<mapsto> 0], ps_ready = [],
        ps_pending = \<lparr>kfu_notifications = [7], kfu_futures = [7 \<mapsto> ex_open ms closed]\<rparr>, ps_activity = InUse 1\<rparr>,
      sm_closed = Map.empty, sm_next_stream_id = 8, sm_next_priority = 1\<rparr>"
proof -
  have "add_ent_loop 65536 p e sm = (Inr (sm_next_stream_id sm),
      sm\<lparr>sm_next_stream_id := wrapping_next_stream_id (sm_next_stream_id sm), sm_open := ps\<rparr>)"
    if "ps_try_insert (sm_next_stream_id sm) p e (sm_open sm) = (Inr (), ps)" for p e sm ps
    using add_ent_loop.simps(2) [of 65535 p e sm] that by (simp add: Let_def)
  then show ?thesis
    by (simp add: ex_map_def add_ent_def ebind_def take_next_priority_eq StreamMap_new_def
        ps_try_insert_def ps_new_def kfu_new_def kfu_try_insert_def inc_streams_def n_open_streams_def
        wrapping_next_stream_id_def)
qed

lemma ex_peek [simp]:
  "open_peek (ex_open [] False) = Pending"
  "open_peek (ex_open [] True) = Ready None"
  "open_peek (ex_open (m # ms) c) = Ready (Some m)"
  by (simp_all add: ex_open_def new_open_ent_def open_peek_def window_can_send_def)

lemma ex_next [simp]: "open_next (ex_open (m # ms) c) = (Ready (Some m), ex_open ms c)"
  by (simp add: open_next_def) (simp add: ex_open_def new_open_ent_def)

lemma ex_dropped [simp]: "oe_dropped (ex_open ms c) = 0"
  by (simp add: ex_open_def new_open_ent_def)

lemma ex_stream [simp]: "ps_stream 7 (sm_open (ex_map ms c)) = Some (ex_open ms c)"
  by (simp add: ex_map_eq ps_stream_def)

lemma ex_polled:
  assumes "open_peek (ex_open ms c) = Ready m"
  shows "poll_ready_streams_iter (ex_map ms c) = (Inr [(7, m)],
    \<lparr>sm_open = \<lparr>ps_priorities = [7 \<mapsto> 0], ps_ready = [((0, 7), ex_open ms c)],
        ps_pending = \<lparr>kfu_notifications = [], kfu_futures = Map.empty\<rparr>, ps_activity = InUse 1\<rparr>,
      sm_closed = Map.empty, sm_next_stream_id = 8, sm_next_priority = 1\<rparr>)"
  using assms
  by (simp add: ex_map_eq poll_ready_streams_iter_def ps_poll_ready_iter_def kfu_poll_next_def Let_def ebind_def)

theorem stream_map_no_lost_wakeups_witness:
  "\<exists>xs sm'. poll_ready_streams_iter (ex_map [RDrop] False) = (Inr xs, sm') \<and> (7, Some RDrop) \<in> set xs"
proof -
  obtain xs sm' where "poll_ready_streams_iter (ex_map [RDrop] False) = (Inr xs, sm')"
    "\<forall>k e m. get_ent k (ex_map [RDrop] False) = Some (EntOpen e) \<and> open_peek e = Ready m \<longrightarrow> (k, m) \<in> set xs"
    using stream_map_no_lost_wakeups [OF ex_map_reach, of "[RDrop]" False] by (elim exE conjE) (rule that)
  moreover from this(2) have "(7, Some RDrop) \<in> set xs"
    by (rule allE [of _ 7]) (auto dest: spec [of _ "ex_open [RDrop] False"])
  ultimately show ?thesis by blast
qed

text \<open>Two streams with a message each.\<close>

definition ex_two :: stream_map where
  "ex_two = snd (poll_ready_streams_iter (snd (add_ent True (ex_open [RDrop] False) (ex_map [RDrop] False))))"

lemma ex_two_eq:
  "ex_two =
     \<lparr>sm_open = \<lparr>ps_priorities = [7 \<mapsto> 0, 8 \<mapsto> 1], ps_ready = [((0, 7), ex_open [RDrop] False), ((1, 8), ex_open [RDrop] False)],
        ps_pending = \<lparr>kfu_notifications = [], kfu_futures = Map.empty\<rparr>, ps_activity = InUse 2\<rparr>,
      sm_closed = Map.empty, sm_next_stream_id = 9, sm_next_priority = 2\<rparr>"
proof -
  have "add_ent_loop 65536 p e sm = (Inr (sm_next_stream_id sm),
      sm\<lparr>sm_next_stream_id := wrapping_next_stream_id (sm_next_stream_id sm), sm_open := ps\<rparr>)"
    if "ps_try_insert (sm_next_stream_id sm) p e (sm_open sm) = (Inr (), ps)" for p e sm ps
    using add_ent_loop.simps(2) [of 65535 p e sm] that by (simp add: Let_def)
  then have "snd (add_ent True (ex_open [RDrop] False) (ex_map [RDrop] False)) =
     \<lparr>sm_open = \<lparr>ps_priorities = [7 \<mapsto> 0, 8 \<mapsto> 1], ps_ready = [],
        ps_pending = \<lparr>kfu_notifications = [7, 8], kfu_futures = [7 \<mapsto> ex_open [RDrop] False, 8 \<mapsto> ex_open [RDrop] False]\<rparr>, ps_activity = InUse 2\<rparr>,
      sm_closed = Map.empty, sm_next_stream_id = 9, sm_next_priority = 2\<rparr>"
    by (simp add: ex_map_eq add_ent_def ebind_def take_next_priority_eq ps_try_insert_def kfu_try_insert_def
        inc_streams_def n_open_streams_def wrapping_next_stream_id_def)
  then show ?thesis
    by (simp add: ex_two_def poll_ready_streams_iter_def ps_poll_ready_iter_def kfu_poll_next_def Let_def ebind_def
        fun_upd_twist less_prod_def word_less_nat_alt)
qed

lemma ex_two_reach: "sm_reach 2 ex_two"
  using sm_reach.PollReady [OF sm_reach.Add [OF ex_map_reach], of True "ex_open [RDrop] False" "[RDrop]" False]
  by (simp add: ex_two_def numeral_2_eq_2)

theorem take_ready_round_robin_witness:
  "\<exists>sm' p. take_ready_msg True 7 ex_two = (Inr (Some RDrop), sm') \<and>
    ps_priorities (sm_open ex_two) 8 = Some 1 \<and> ps_priorities (sm_open sm') 7 = Some p \<and> 1 < p"
proof -
  obtain sm' where sm': "take_ready_msg True 7 ex_two = (Inr (Some RDrop), sm')"
    by (simp add: ex_two_eq take_ready_msg_eq ps_take_ready_value_and_reprioritize_def Let_def kfu_try_insert_def)
  have e: "ps_priorities (sm_open ex_two) 8 = Some 1" by (simp add: ex_two_eq)
  obtain p where p: "ps_priorities (sm_open sm') 7 = Some p"
      "\<forall>k q. k \<noteq> 7 \<and> ps_priorities (sm_open sm') k = Some q \<longrightarrow> q < p"
      "\<forall>k. k \<noteq> 7 \<longrightarrow> ps_priorities (sm_open sm') k = ps_priorities (sm_open ex_two) k"
    using take_ready_round_robin [OF ex_two_reach _ sm'] by auto
  have "ps_priorities (sm_open sm') 8 = Some 1" using p(3) e by simp
  moreover have "(8 :: stream_id) \<noteq> 7" by simp
  ultimately have "1 < p" using p(2) by blast
  then show ?thesis using sm' p(1) e by blast
qed



theorem stream_id_allocation_witness:
  "\<exists>i. fst (add_ent True (ex_open [] False) (StreamMap_new 7)) = Inr i"
proof -
  have "ps_stream 1 (sm_open (StreamMap_new 7)) = None"
    by (simp add: StreamMap_new_def ps_stream_def ps_new_def kfu_new_def)
  then have some_free: "\<not> (\<forall>i. i \<noteq> 0 \<longrightarrow> ps_stream i (sm_open (StreamMap_new 7)) \<noteq> None)" by (metis one_neq_zero)
  have reach: "sm_reach 0 (StreamMap_new 7)" by (rule sm_reach.New) simp
  have "0 + 1 < (2 :: nat) ^ 64" by simp
  from stream_id_allocation [OF reach this, of True "ex_open [] False"] show ?thesis
    unfolding if_not_P [OF some_free] by blast
qed


theorem terminate_forgets_half_stream_witness:
  "fst (ending_msg_received True 2 7 (snd (terminate True 1 7 StreamTargetClosed 9 (snd (terminate True 0 7 ExplicitEnd 9 (ex_map [] False)))))) =
     Inl (ProtoViolation ''Received END cell on nonexistent stream'')"
proof -
  have e: "get_ent 7 (ex_map [] False) = Some (EntOpen (ex_open [] False))" by simp
  have d: "oe_dropped (ex_open [] False) \<le> 500" by simp
  show ?thesis
    by (rule terminate_forgets_half_stream [OF ex_map_reach e d refl prod.collapse [symmetric],
          THEN conjunct2, THEN conjunct2, THEN conjunct2])
qed

definition ex_data_cell :: unparsed_relay_msg where
  "ex_data_cell = UnparsedV0 (2 # replicate 9 0 @ 3 # replicate 498 0)"

lemma ex_terminated:
  "terminate True 0 7 ExplicitEnd 9 (ex_map [] False) = (Inr SendEnd,
     \<lparr>sm_open = \<lparr>ps_priorities = Map.empty, ps_ready = [],
        ps_pending = \<lparr>kfu_notifications = [7], kfu_futures = Map.empty\<rparr>, ps_activity = Disused 0\<rparr>,
      sm_closed = [7 \<mapsto> EndSent \<lparr>es_half_stream = \<lparr>hs_flow_control = WindowBased 500, hs_recvw = 500,
          hs_cmd_checker = OutboundDataCmdChecker False\<rparr>, es_explicitly_dropped = False, es_expiry = 9\<rparr>],
      sm_next_stream_id = 8, sm_next_priority = 1\<rparr>)"
  by (simp add: terminate_def ex_map_eq ps_remove_def dec_streams_def kfu_remove_def decrement_initial assert_no_prev_def)
    (simp add: ex_open_def new_open_ent_def)

theorem half_stream_data_bound_witness:
  "length (filter (\<lambda>m. unparsed_cmd m = RC_DATA) [ex_data_cell, ex_data_cell]) \<le> 500"
proof -
  let ?es = "\<lparr>es_half_stream = \<lparr>hs_flow_control = WindowBased 500, hs_recvw = 500,
      hs_cmd_checker = OutboundDataCmdChecker False\<rparr>, es_explicitly_dropped = False, es_expiry = 9\<rparr>"
  have e: "get_ent 7 (ex_map [] False) = Some (EntOpen (ex_open [] False))" by simp
  have "fst (emapM hs_handle_msg [ex_data_cell, ex_data_cell] (es_half_stream ?es)) = Inr [StreamOpen, StreamOpen]"
    by code_simp
  from half_stream_data_bound [OF ex_map_reach e _ ex_terminated _ this] show ?thesis
    by (simp add: get_ent_def ps_stream_def)
qed

text \<open>A stream opened with a given identifier, the next one to be allocated, and ended.\<close>

definition ex_reused :: stream_map where
  "ex_reused = snd (terminate True 0 7 ExplicitEnd 9 (snd (add_ent_with_id True (ex_open [] False) 7 (StreamMap_new 7))))"

theorem stream_id_reuse_witness:
  "fst (add_ent True (ex_open [] False) ex_reused) = Inr 7 \<and>
   fst (terminate True 0 7 ExplicitEnd 9 (snd (add_ent True (ex_open [] False) ex_reused))) =
     Inl (ProtoPanic ''Unexpected duplicate entry'')"
proof -
  have reach: "sm_reach 1 ex_reused"
    using sm_reach.Terminate [OF sm_reach.AddWithId [OF sm_reach.New]] by (simp add: ex_reused_def)
  have "ps_stream 7 (sm_open ex_reused) = None \<and> sm_next_stream_id ex_reused = 7 \<and> (\<exists>c. sm_closed ex_reused 7 = Some c)"
    by (simp add: ex_reused_def add_ent_with_id_def ebind_def take_next_priority_eq StreamMap_new_def terminate_def ps_remove_def
        dec_streams_def kfu_remove_def decrement_initial ps_try_insert_def ps_new_def kfu_new_def kfu_try_insert_def
        inc_streams_def n_open_streams_def ps_stream_def Let_def)
  then show ?thesis using stream_id_reuse [OF reach, of _ "ex_open [] False" True 0 ExplicitEnd 9] by auto
qed

theorem take_ended_stream_panics_witness:
  "fst (terminate True 0 7 ExplicitEnd 9 (snd (take_ready_msg True 7 (snd (poll_ready_streams_iter (ex_map [] True)))))) =
     Inl (ProtoPanic ''Unexpectedly no value for key'')"
proof -
  let ?sm = "snd (poll_ready_streams_iter (ex_map [] True))"
  have reach: "sm_reach 1 ?sm" by (rule sm_reach.PollReady [OF ex_map_reach])
  have "map_of (ps_ready (sm_open ?sm)) (0, 7) = Some (ex_open [] True)" by (simp add: ex_polled)
  from take_ended_stream_panics [OF reach _ this _ prod.collapse [symmetric], of True True 0 ExplicitEnd 9] show ?thesis by simp
qed

end
