(* ===== verification/RelayCrypto.thy ===== *)
theory RelayCrypto
  imports RelayCell_Laws Sendme
begin

text \<open>
  Onion encryption of relay cells on a circuit, \<open>tor-proto/src/crypto/cell.rs\<close>. The layers of a
  circuit are trait objects there; here they are the states, with the methods of the traits
  in records of operations. A method takes the command of the channel cell, the state of the
  layer and the body of the cell, and returns the changed body and state.

  A locale states what the two ends of a layer promise each other, and the properties of a
  whole circuit are proved from it once, for both directions and for every kind of layer.
\<close>

text \<open>Writing bytes at a position.\<close>

definition overwrite :: "nat \<Rightarrow> byte list \<Rightarrow> byte list \<Rightarrow> byte list" where
  "overwrite at bs xs = take at xs @ bs @ drop (at + length bs) xs"

lemma length_overwrite [simp]: "at + length bs \<le> length xs \<Longrightarrow> length (overwrite at bs xs) = length xs"
  by (simp add: overwrite_def)

lemma nth_overwrite:
  "at + length bs \<le> length xs \<Longrightarrow> i < length xs \<Longrightarrow>
    overwrite at bs xs ! i = (if at \<le> i \<and> i < at + length bs then bs ! (i - at) else xs ! i)"
  by (auto simp: overwrite_def nth_append)

lemma encode_length: "relay_encode format fill m = Inr cell \<Longrightarrow> fills fill \<Longrightarrow> relay_msg_wf (ro_msg m) \<Longrightarrow> length cell = 509"
  using relay_encode_eq(2) [of m _ fill format cell] relay_msg_reads_back [of "ro_msg m"]
  by (auto simp: reads_back_def encodes_def)

section \<open>Layers\<close>

record 'l outbound_client_ops =
  originate_for :: "ChanCmd \<Rightarrow> 'l \<Rightarrow> byte list \<Rightarrow> sendme_tag \<times> byte list \<times> 'l"
  encrypt_outbound :: "ChanCmd \<Rightarrow> 'l \<Rightarrow> byte list \<Rightarrow> byte list \<times> 'l"

record 'l inbound_client_ops =
  decrypt_inbound :: "ChanCmd \<Rightarrow> 'l \<Rightarrow> byte list \<Rightarrow> sendme_tag option \<times> byte list \<times> 'l"

record 'l inbound_relay_ops =
  originate :: "ChanCmd \<Rightarrow> 'l \<Rightarrow> byte list \<Rightarrow> sendme_tag \<times> byte list \<times> 'l"
  encrypt_inbound :: "ChanCmd \<Rightarrow> 'l \<Rightarrow> byte list \<Rightarrow> byte list \<times> 'l"

record 'l outbound_relay_ops =
  decrypt_outbound :: "ChanCmd \<Rightarrow> 'l \<Rightarrow> byte list \<Rightarrow> sendme_tag option \<times> byte list \<times> 'l"

datatype crypt_error = NoSuchHop | BadCellAuth | TooManyHops

section \<open>A client's view of a circuit\<close>

text \<open>The loop over the remaining layers, from the farthest one to the closest.\<close>

fun encrypt_layers :: "('l \<Rightarrow> byte list \<Rightarrow> byte list \<times> 'l) \<Rightarrow> 'l list \<Rightarrow> byte list \<Rightarrow> byte list \<times> 'l list" where
  "encrypt_layers enc [] cell = (cell, [])"
| "encrypt_layers enc (l # ls) cell =
     (case enc l cell of (cell1, l1) \<Rightarrow>
        (case encrypt_layers enc ls cell1 of (cell2, ls2) \<Rightarrow> (cell2, l1 # ls2)))"

definition encrypt_to_hop ::
  "('l \<Rightarrow> byte list \<Rightarrow> sendme_tag \<times> byte list \<times> 'l) \<Rightarrow> ('l \<Rightarrow> byte list \<Rightarrow> byte list \<times> 'l) \<Rightarrow>
   nat \<Rightarrow> byte list \<Rightarrow> 'l list \<Rightarrow> (crypt_error + sendme_tag) \<times> byte list \<times> 'l list" where
  "encrypt_to_hop seal enc hop cell layers =
     (if hop \<ge> length layers then (Inl NoSuchHop, cell, layers)
      else case rev (take (hop + 1) layers) of
        [] \<Rightarrow> (Inl NoSuchHop, cell, layers)
      | first # rest \<Rightarrow>
          (case seal first cell of (tag, cell1, first1) \<Rightarrow>
             (case encrypt_layers enc rest cell1 of (cell2, rest2) \<Rightarrow>
                (Inr tag, cell2, rev (first1 # rest2) @ drop (hop + 1) layers))))"

definition OutboundClientCrypt_encrypt ::
  "'l outbound_client_ops \<Rightarrow> ChanCmd \<Rightarrow> byte list \<Rightarrow> u8 \<Rightarrow> 'l list \<Rightarrow> (crypt_error + sendme_tag) \<times> byte list \<times> 'l list" where
  "OutboundClientCrypt_encrypt ops cmd cell hop layers =
     encrypt_to_hop (originate_for ops cmd) (encrypt_outbound ops cmd) (unat hop) cell layers"

text \<open>The loop over the layers from the closest one, with their numbers.\<close>

fun decrypt_layers ::
  "('l \<Rightarrow> byte list \<Rightarrow> sendme_tag option \<times> byte list \<times> 'l) \<Rightarrow> nat \<Rightarrow> byte list \<Rightarrow> 'l list \<Rightarrow>
   (crypt_error + nat \<times> sendme_tag) \<times> byte list \<times> 'l list" where
  "decrypt_layers dec n cell [] = (Inl BadCellAuth, cell, [])"
| "decrypt_layers dec n cell (l # ls) =
     (case dec l cell of
        (Some tag, cell1, l1) \<Rightarrow> (Inr (n, tag), cell1, l1 # ls)
      | (None, cell1, l1) \<Rightarrow>
          (case decrypt_layers dec (Suc n) cell1 ls of (r, cell2, ls2) \<Rightarrow> (r, cell2, l1 # ls2)))"

definition InboundClientCrypt_decrypt ::
  "'l inbound_client_ops \<Rightarrow> ChanCmd \<Rightarrow> byte list \<Rightarrow> 'l list \<Rightarrow> (crypt_error + u8 \<times> sendme_tag) \<times> byte list \<times> 'l list" where
  "InboundClientCrypt_decrypt ops cmd cell layers =
     (case decrypt_layers (decrypt_inbound ops cmd) 0 cell layers of
        (Inr (hopnum, tag), cell1, layers1) \<Rightarrow>
          (if hopnum < 256 then Inr (word_of_nat hopnum, tag) else Inl TooManyHops, cell1, layers1)
      | (Inl e, cell1, layers1) \<Rightarrow> (Inl e, cell1, layers1))"

definition add_layer :: "'l \<Rightarrow> 'l list \<Rightarrow> 'l list option" where
  "add_layer l layers = (if length layers < 255 then Some (layers @ [l]) else None)"

section \<open>The relays of a circuit\<close>

text \<open>
  Away from the client each relay of the path decrypts the cell and passes on what it does
  not recognize; towards the client the relay that sends a cell and each relay before it
  encrypt it.
\<close>

definition relays_outbound ::
  "'r outbound_relay_ops \<Rightarrow> ChanCmd \<Rightarrow> byte list \<Rightarrow> 'r list \<Rightarrow> (crypt_error + nat \<times> sendme_tag) \<times> byte list \<times> 'r list" where
  "relays_outbound ops cmd = decrypt_layers (decrypt_outbound ops cmd) 0"

definition relays_inbound ::
  "'r inbound_relay_ops \<Rightarrow> ChanCmd \<Rightarrow> nat \<Rightarrow> byte list \<Rightarrow> 'r list \<Rightarrow> (crypt_error + sendme_tag) \<times> byte list \<times> 'r list" where
  "relays_inbound ops cmd = encrypt_to_hop (originate ops cmd) (encrypt_inbound ops cmd)"

text \<open>
  A history of a circuit in one direction: cells with their commands and their hops, what
  sending each returns, and where it is recognized, with which tag and which body.
\<close>

fun outbound_run ::
  "'c outbound_client_ops \<Rightarrow> 'r outbound_relay_ops \<Rightarrow> (ChanCmd \<times> u8 \<times> byte list) list \<Rightarrow> 'c list \<Rightarrow> 'r list \<Rightarrow>
   ((crypt_error + sendme_tag) \<times> (crypt_error + nat \<times> sendme_tag) \<times> byte list) list" where
  "outbound_run oc ro [] layers relays = []"
| "outbound_run oc ro ((cmd, hop, cell) # xs) layers relays =
     (case OutboundClientCrypt_encrypt oc cmd cell hop layers of (r, cell1, layers1) \<Rightarrow>
        (case relays_outbound ro cmd cell1 relays of (r1, body, relays1) \<Rightarrow>
           (r, r1, body) # outbound_run oc ro xs layers1 relays1))"

fun inbound_run ::
  "'c inbound_client_ops \<Rightarrow> 'r inbound_relay_ops \<Rightarrow> (ChanCmd \<times> u8 \<times> byte list) list \<Rightarrow> 'c list \<Rightarrow> 'r list \<Rightarrow>
   ((crypt_error + sendme_tag) \<times> (crypt_error + u8 \<times> sendme_tag) \<times> byte list) list" where
  "inbound_run ic ri [] layers relays = []"
| "inbound_run ic ri ((cmd, hop, cell) # xs) layers relays =
     (case relays_inbound ri cmd (unat hop) cell relays of (r, cell1, relays1) \<Rightarrow>
        (case InboundClientCrypt_decrypt ic cmd cell1 layers of (r1, body, layers1) \<Rightarrow>
           (r, r1, body) # inbound_run ic ri xs layers1 relays1))"

section \<open>The contract of a layer\<close>

text \<open>Two cells are the same but for the bytes at some positions.\<close>

definition agree_except :: "nat set \<Rightarrow> byte list \<Rightarrow> byte list \<Rightarrow> bool" where
  "agree_except auth a b \<longleftrightarrow> length a = 509 \<and> length b = 509 \<and> (\<forall>i<509. i \<notin> auth \<longrightarrow> a ! i = b ! i)"

text \<open>
  One end of a layer originates cells or encrypts those of layers further inside, the other
  end decrypts. The ends start in paired states. What was originated is recognized, with the
  same tag, and is the original but for the fields of the authentication; what was encrypted
  is decrypted, and either way the ends stay paired, unless a cell of an inner layer happens to
  be recognized.
\<close>

locale layer_pair =
  fixes seal :: "ChanCmd \<Rightarrow> 'a \<Rightarrow> byte list \<Rightarrow> sendme_tag \<times> byte list \<times> 'a"
    and enc :: "ChanCmd \<Rightarrow> 'a \<Rightarrow> byte list \<Rightarrow> byte list \<times> 'a"
    and dec :: "ChanCmd \<Rightarrow> 'b \<Rightarrow> byte list \<Rightarrow> sendme_tag option \<times> byte list \<times> 'b"
    and paired :: "'a \<Rightarrow> 'b \<Rightarrow> bool"
    and auth :: "nat set"
  assumes seal_dec: "paired a b \<Longrightarrow> length cell = 509 \<Longrightarrow> seal cmd a cell = (tag, cell', a') \<Longrightarrow>
      length cell' = 509 \<and> (\<exists>body b'. dec cmd b cell' = (Some tag, body, b') \<and> paired a' b' \<and> agree_except auth cell body)"
    and enc_dec: "paired a b \<Longrightarrow> length cell = 509 \<Longrightarrow> enc cmd a cell = (cell', a') \<Longrightarrow>
      length cell' = 509 \<and> (\<exists>t b'. dec cmd b cell' = (t, cell, b') \<and> (t = None \<longrightarrow> paired a' b'))"
begin

definition hop_ok :: "nat \<Rightarrow> nat \<Rightarrow> byte list \<Rightarrow> sendme_tag \<Rightarrow> 'a list \<Rightarrow>
    (crypt_error + nat \<times> sendme_tag) \<times> byte list \<times> 'b list \<Rightarrow> bool" where
  "hop_ok n hop cell tag as' res \<longleftrightarrow>
     (case res of (r, body, bs') \<Rightarrow>
        \<exists>k tag'. r = Inr (k, tag') \<and> n \<le> k \<and> k \<le> n + hop \<and>
          (k = n + hop \<longrightarrow> tag' = tag \<and> agree_except auth cell body \<and> list_all2 paired as' bs'))"

end

text \<open>Adding a layer at the front of a circuit.\<close>

lemma encrypt_layers_snoc:
  "encrypt_layers enc (ls @ [l]) cell =
     (case encrypt_layers enc ls cell of (cell1, ls1) \<Rightarrow>
        (case enc l cell1 of (cell2, l2) \<Rightarrow> (cell2, ls1 @ [l2])))"
  by (induction ls arbitrary: cell) (auto split: prod.splits)

lemma encrypt_to_hop_0:
  "encrypt_to_hop seal enc 0 cell (l # ls) = (case seal l cell of (tag, cell1, l1) \<Rightarrow> (Inr tag, cell1, l1 # ls))"
  by (auto simp: encrypt_to_hop_def split: prod.splits)

lemma encrypt_to_hop_Suc:
  assumes "hop < length ls"
  shows "encrypt_to_hop seal enc (Suc hop) cell (l # ls) =
    (case encrypt_to_hop seal enc hop cell ls of (r, cell1, ls1) \<Rightarrow>
       (case enc l cell1 of (cell2, l2) \<Rightarrow> (r, cell2, l2 # ls1)))"
proof -
  obtain f rest where "rev (take (hop + 1) ls) = f # rest"
    using assms by (cases "rev (take (hop + 1) ls)") auto
  then show ?thesis
    using assms by (auto simp: encrypt_to_hop_def encrypt_layers_snoc split: prod.splits)
qed

lemma length_encrypt_layers: "encrypt_layers enc ls cell = (c, ls') \<Longrightarrow> length ls' = length ls"
  by (induction ls arbitrary: cell c ls') (auto split: prod.splits)

lemma encrypt_to_hop_length:
  assumes "encrypt_to_hop seal enc hop cell ls = (r, cell', ls')" "hop < length ls"
  shows "length ls' = length ls"
proof -
  obtain f rest where f: "rev (take (hop + 1) ls) = f # rest"
    using assms(2) by (cases "rev (take (hop + 1) ls)") auto
  then have "length rest = hop" using assms(2) by (metis Suc_eq_plus1 Suc_leI length_Cons length_rev length_take min_absorb2 nat.inject)
  then show ?thesis
    using assms f by (auto simp: encrypt_to_hop_def dest: length_encrypt_layers split: prod.splits)
qed

context layer_pair
begin

text \<open>
  A cell for a hop is recognized at that hop or before it; if at that hop, by the same tag,
  with the same content, and all layers stay paired.
\<close>

lemma onion:
  assumes "list_all2 paired as bs" "hop < length as" "length cell = 509"
    and "encrypt_to_hop (seal cmd) (enc cmd) hop cell as = (r, cell', as')"
  shows "length cell' = 509 \<and> (\<exists>tag. r = Inr tag \<and> hop_ok n hop cell tag as' (decrypt_layers (dec cmd) n cell' bs))"
  using assms
proof (induction as arbitrary: bs hop n r cell' as')
  case Nil
  then show ?case by simp
next
  case (Cons a as)
  then obtain b bs1 where bs: "bs = b # bs1" and p: "paired a b" and ps: "list_all2 paired as bs1"
    by (auto simp: list_all2_Cons1)
  show ?case
  proof (cases hop)
    case 0
    obtain tag c a1 where s: "seal cmd a cell = (tag, c, a1)" by (metis prod_cases3)
    then have eq: "r = Inr tag" "cell' = c" "as' = a1 # as"
      using Cons.prems(4) 0 by (simp_all add: encrypt_to_hop_0)
    show ?thesis
      using seal_dec [OF p Cons.prems(3) s] ps unfolding eq bs 0 hop_ok_def by auto
  next
    case (Suc h)
    obtain r1 c1 as1 where e: "encrypt_to_hop (seal cmd) (enc cmd) h cell as = (r1, c1, as1)" by (metis prod_cases3)
    obtain c2 a2 where w: "enc cmd a c1 = (c2, a2)" by fastforce
    have h: "h < length as" using Cons.prems(2) Suc by simp
    then have eq: "r = r1" "cell' = c2" "as' = a2 # as1"
      using Cons.prems(4) e w Suc by (simp_all add: encrypt_to_hop_Suc)
    obtain tag where ih: "length c1 = 509" "r1 = Inr tag"
      "hop_ok (Suc n) h cell tag as1 (decrypt_layers (dec cmd) (Suc n) c1 bs1)"
      using Cons.IH [OF ps h Cons.prems(3) e, of "Suc n"] by blast
    obtain t b' where d: "length c2 = 509" "dec cmd b c2 = (t, c1, b')" "t = None \<Longrightarrow> paired a2 b'"
      using enc_dec [OF p ih(1) w] by blast
    show ?thesis
    proof (cases t)
      case None
      obtain r2 body bs2 where dl: "decrypt_layers (dec cmd) (Suc n) c1 bs1 = (r2, body, bs2)" by (metis prod_cases3)
      show ?thesis
        using ih d None unfolding eq bs Suc hop_ok_def by (auto simp: dl)
    next
      case (Some x)
      then show ?thesis using ih d unfolding eq bs Suc hop_ok_def by auto
    qed
  qed
qed

text \<open>
  In a history in which no hop closer than the intended one recognizes a cell by accident,
  every cell arrives at its hop.
\<close>

lemma outbound_delivered:
  assumes ops: "originate_for oc = seal" "encrypt_outbound oc = enc" "decrypt_outbound ro = dec"
    and "list_all2 paired as bs" "\<forall>(cmd, hop, cell)\<in>set xs. unat hop < length as \<and> length cell = 509"
    and "list_all2 (\<lambda>(cmd, hop, cell) (r, r1, body). \<forall>k t. r1 = Inr (k, t) \<longrightarrow> unat hop \<le> k) xs (outbound_run oc ro xs as bs)"
  shows "list_all2 (\<lambda>(cmd, hop, cell) (r, r1, body). \<exists>tag. r = Inr tag \<and> r1 = Inr (unat hop, tag) \<and> agree_except auth cell body)
    xs (outbound_run oc ro xs as bs)"
  using assms(4-)
proof (induction xs arbitrary: as bs)
  case Nil
  then show ?case by simp
next
  case (Cons x xs)
  obtain cmd hop cell where x: "x = (cmd, hop, cell)" by (metis prod_cases3)
  obtain r cell1 as1 where e: "encrypt_to_hop (seal cmd) (enc cmd) (unat hop) cell as = (r, cell1, as1)" by (metis prod_cases3)
  obtain r1 body bs1 where d: "decrypt_layers (dec cmd) 0 cell1 bs = (r1, body, bs1)" by (metis prod_cases3)
  have h: "unat hop < length as" "length cell = 509" using Cons.prems(2) x by auto
  obtain tag k tag1 where ok: "r = Inr tag" "r1 = Inr (k, tag1)" "k \<le> unat hop"
    "k = unat hop \<Longrightarrow> tag1 = tag \<and> agree_except auth cell body \<and> list_all2 paired as1 bs1"
    using onion [OF Cons.prems(1) h e, of 0] by (auto simp: hop_ok_def d)
  have run: "outbound_run oc ro (x # xs) as bs = (r, r1, body) # outbound_run oc ro xs as1 bs1"
    by (simp add: x OutboundClientCrypt_encrypt_def relays_outbound_def ops e d)
  then have k: "k = unat hop" using Cons.prems(3) ok(2,3) by (simp add: x)
  have "length as1 = length as" using e h(1) by (rule encrypt_to_hop_length)
  then show ?case
    using Cons.IH [of as1 bs1] Cons.prems ok k unfolding run by (simp add: x)
qed

lemma inbound_delivered:
  assumes ops: "originate ri = seal" "encrypt_inbound ri = enc" "decrypt_inbound ic = dec"
    and "list_all2 paired as bs" "\<forall>(cmd, hop, cell)\<in>set xs. unat hop < length as \<and> length cell = 509"
    and "list_all2 (\<lambda>(cmd, hop, cell) (r, r1, body). \<forall>k t. r1 = Inr (k, t) \<longrightarrow> hop \<le> k) xs (inbound_run ic ri xs bs as)"
  shows "list_all2 (\<lambda>(cmd, hop, cell) (r, r1, body). \<exists>tag. r = Inr tag \<and> r1 = Inr (hop, tag) \<and> agree_except auth cell body)
    xs (inbound_run ic ri xs bs as)"
  using assms(4-)
proof (induction xs arbitrary: as bs)
  case Nil
  then show ?case by simp
next
  case (Cons x xs)
  obtain cmd hop cell where x: "x = (cmd, hop, cell)" by (metis prod_cases3)
  obtain r cell1 as1 where e: "encrypt_to_hop (seal cmd) (enc cmd) (unat hop) cell as = (r, cell1, as1)" by (metis prod_cases3)
  obtain r1 body bs1 where d: "decrypt_layers (dec cmd) 0 cell1 bs = (r1, body, bs1)" by (metis prod_cases3)
  have h: "unat hop < length as" "length cell = 509" using Cons.prems(2) x by auto
  obtain tag k tag1 where ok: "r = Inr tag" "r1 = Inr (k, tag1)" "k \<le> unat hop"
    "k = unat hop \<Longrightarrow> tag1 = tag \<and> agree_except auth cell body \<and> list_all2 paired as1 bs1"
    using onion [OF Cons.prems(1) h e, of 0] by (auto simp: hop_ok_def d)
  have k256: "k < 256" by (rule le_less_trans [OF ok(3) unat_byte_less])
  then have run: "inbound_run ic ri (x # xs) bs as = (r, Inr (word_of_nat k, tag1), body) # inbound_run ic ri xs bs1 as1"
    by (simp add: x InboundClientCrypt_decrypt_def relays_inbound_def ops e d ok(2))
  then have "unat hop \<le> unat (word_of_nat k :: u8)" using Cons.prems(3) by (simp add: x word_le_nat_alt)
  then have k: "k = unat hop" using ok(3) k256 by (simp add: unat_u8_of_nat)
  have "length as1 = length as" using e h(1) by (rule encrypt_to_hop_length)
  then show ?case
    using Cons.IH [of as1 bs1] Cons.prems ok k unfolding run by (simp add: x)
qed

end

text \<open>
  A circuit may have layers of two kinds, as it does when an onion service adds a hop of its
  own to the hops of the relays: then each hop uses the methods of its kind.
\<close>

fun sum_seal where
  "sum_seal f g cmd (Inl l) cell = (case f cmd l cell of (tag, c, l1) \<Rightarrow> (tag, c, Inl l1))"
| "sum_seal f g cmd (Inr l) cell = (case g cmd l cell of (tag, c, l1) \<Rightarrow> (tag, c, Inr l1))"

fun sum_enc where
  "sum_enc f g cmd (Inl l) cell = (case f cmd l cell of (c, l1) \<Rightarrow> (c, Inl l1))"
| "sum_enc f g cmd (Inr l) cell = (case g cmd l cell of (c, l1) \<Rightarrow> (c, Inr l1))"

definition dyn_outbound_client :: "'a outbound_client_ops \<Rightarrow> 'b outbound_client_ops \<Rightarrow> ('a + 'b) outbound_client_ops" where
  "dyn_outbound_client a b =
     \<lparr>originate_for = sum_seal (originate_for a) (originate_for b),
      encrypt_outbound = sum_enc (encrypt_outbound a) (encrypt_outbound b)\<rparr>"

definition dyn_inbound_client :: "'a inbound_client_ops \<Rightarrow> 'b inbound_client_ops \<Rightarrow> ('a + 'b) inbound_client_ops" where
  "dyn_inbound_client a b = \<lparr>decrypt_inbound = sum_seal (decrypt_inbound a) (decrypt_inbound b)\<rparr>"

definition dyn_inbound_relay :: "'a inbound_relay_ops \<Rightarrow> 'b inbound_relay_ops \<Rightarrow> ('a + 'b) inbound_relay_ops" where
  "dyn_inbound_relay a b =
     \<lparr>originate = sum_seal (originate a) (originate b), encrypt_inbound = sum_enc (encrypt_inbound a) (encrypt_inbound b)\<rparr>"

definition dyn_outbound_relay :: "'a outbound_relay_ops \<Rightarrow> 'b outbound_relay_ops \<Rightarrow> ('a + 'b) outbound_relay_ops" where
  "dyn_outbound_relay a b = \<lparr>decrypt_outbound = sum_seal (decrypt_outbound a) (decrypt_outbound b)\<rparr>"

lemmas dyn_defs = dyn_outbound_client_def dyn_inbound_client_def dyn_inbound_relay_def dyn_outbound_relay_def

fun sum_paired where
  "sum_paired p q (Inl a) (Inl b) = p a b"
| "sum_paired p q (Inr a) (Inr b) = q a b"
| "sum_paired p q _ _ = False"

lemma agree_except_mono: "agree_except f a b \<Longrightarrow> f \<subseteq> g \<Longrightarrow> agree_except g a b"
  by (auto simp: agree_except_def)

locale two_layers =
  first: layer_pair seal1 enc1 dec1 paired1 auth1 + second: layer_pair seal2 enc2 dec2 paired2 auth2
  for seal1 enc1 dec1 paired1 auth1 seal2 enc2 dec2 paired2 auth2

sublocale two_layers \<subseteq> either: layer_pair "sum_seal seal1 seal2" "sum_enc enc1 enc2" "sum_seal dec1 dec2"
    "sum_paired paired1 paired2" "auth1 \<union> auth2"
proof (unfold_locales, goal_cases)
  case (1 a b cell cmd tag cell' a')
  then consider (l) x y x1 where "a = Inl x" "b = Inl y" "paired1 x y" "seal1 cmd x cell = (tag, cell', x1)" "a' = Inl x1"
    | (r) x y x1 where "a = Inr x" "b = Inr y" "paired2 x y" "seal2 cmd x cell = (tag, cell', x1)" "a' = Inr x1"
    by (cases a; cases b) (auto split: prod.splits)
  then show ?case
  proof cases
    case l
    from first.seal_dec [OF l(3) 1(2) l(4)] show ?thesis using l agree_except_mono [of auth1 _ _ "auth1 \<union> auth2"] by fastforce
  next
    case r
    from second.seal_dec [OF r(3) 1(2) r(4)] show ?thesis using r agree_except_mono [of auth2 _ _ "auth1 \<union> auth2"] by fastforce
  qed
next
  case (2 a b cell cmd cell' a')
  then consider (l) x y x1 where "a = Inl x" "b = Inl y" "paired1 x y" "enc1 cmd x cell = (cell', x1)" "a' = Inl x1"
    | (r) x y x1 where "a = Inr x" "b = Inr y" "paired2 x y" "enc2 cmd x cell = (cell', x1)" "a' = Inr x1"
    by (cases a; cases b) (auto split: prod.splits)
  then show ?case
  proof cases
    case l
    from first.enc_dec [OF l(3) 2(2) l(4)] show ?thesis using l by fastforce
  next
    case r
    from second.enc_dec [OF r(3) 2(2) r(4)] show ?thesis using r by fastforce
  qed
qed

end
