(* ===== verification/Tor1.thy ===== *)
theory Tor1
  imports RelayCrypto
begin

text \<open>
  The relay cell encryption in use, \<open>tor-proto/src/crypto/cell/tor1.rs\<close>: a stream cipher and a
  running digest for each direction of each hop.

  The cipher and the digest are other crates and are parameters, the record \<open>tor1_prims\<close>. What
  the code relies on is the predicate \<open>prims_ok\<close>: applying a key stream twice from the same
  position gives the input back and advances the position equally, a digest may be fed in
  pieces, and it has at least the 20 bytes of a SENDME tag.
\<close>

section \<open>The state of a layer\<close>

record ('c, 'd) tor1_prims =
  cipher_new :: "byte list \<Rightarrow> 'c"
  apply_keystream :: "'c \<Rightarrow> byte list \<Rightarrow> byte list \<times> 'c"
  key_size :: nat
  digest_new :: 'd
  digest_update :: "'d \<Rightarrow> byte list \<Rightarrow> 'd"
  digest_finalize :: "'d \<Rightarrow> byte list"
  output_size :: nat

record ('c, 'd) tor1_state =
  t1_cipher :: 'c
  t1_digest :: 'd
  t1_last_sendme_tag :: sendme_tag

record ('c, 'd) tor1_pair =
  t1_fwd :: "('c, 'd) tor1_state"
  t1_back :: "('c, 'd) tor1_state"
  t1_binding :: "byte list"

definition CIRC_BINDING_LEN :: nat where
  "CIRC_BINDING_LEN = 32"

definition tor1_seed_len :: "('c, 'd) tor1_prims \<Rightarrow> nat" where
  "tor1_seed_len P = key_size P * 2 + output_size P * 2 + CIRC_BINDING_LEN"

definition tor1_initialize :: "('c, 'd) tor1_prims \<Rightarrow> byte list \<Rightarrow> proto_error + ('c, 'd) tor1_pair" where
  "tor1_initialize P seed =
     (if length seed \<noteq> tor1_seed_len P then Inl (ProtoInternal ''seed length was invalid'')
      else
        let dlen = output_size P; keylen = key_size P;
            df = take dlen seed; seed1 = drop dlen seed;
            db = take dlen seed1; seed2 = drop dlen seed1;
            kf = take keylen seed2; seed3 = drop keylen seed2;
            kb = take keylen seed3; seed4 = drop keylen seed3;
            binding_key = take CIRC_BINDING_LEN seed4;
            state = \<lambda>k d. \<lparr>t1_cipher = cipher_new P k, t1_digest = digest_update P (digest_new P) d,
                          t1_last_sendme_tag = SendmeTag_from20 (replicate 20 0)\<rparr>
        in Inr \<lparr>t1_fwd = state kf df, t1_back = state kb db, t1_binding = binding_key\<rparr>)"

definition tor1_split_client_layer ::
  "('c, 'd) tor1_pair \<Rightarrow> ('c, 'd) tor1_state \<times> ('c, 'd) tor1_state \<times> byte list" where
  "tor1_split_client_layer p = (t1_fwd p, t1_back p, t1_binding p)"

definition tor1_split_relay_layer ::
  "('c, 'd) tor1_pair \<Rightarrow> ('c, 'd) tor1_state \<times> ('c, 'd) tor1_state \<times> byte list" where
  "tor1_split_relay_layer p = (t1_fwd p, t1_back p, t1_binding p)"

section \<open>The digest of a cell\<close>

definition ct_is_zero :: "byte list \<Rightarrow> bool" where
  "ct_is_zero x = foldl (\<and>) True (map (\<lambda>b. b = 0) x)"

definition set_digest :: "('c, 'd) tor1_prims \<Rightarrow> byte list \<Rightarrow> 'd \<Rightarrow> byte list \<times> 'd \<times> sendme_tag" where
  "set_digest P cell d =
     (let cell1 = overwrite 1 [0, 0] cell;
          cell2 = overwrite 5 [0, 0, 0, 0] cell1;
          d1 = digest_update P d cell2;
          computed_digest = digest_finalize P d1;
          sendme_tag = SendmeTag_from20 (take 20 computed_digest);
          used_digest_prefix = take 4 computed_digest
      in (overwrite 5 used_digest_prefix cell2, d1, sendme_tag))"

definition is_recognized :: "('c, 'd) tor1_prims \<Rightarrow> byte list \<Rightarrow> 'd \<Rightarrow> sendme_tag \<Rightarrow> bool \<times> 'd \<times> sendme_tag" where
  "is_recognized P cell d rcvd =
     (if \<not> ct_is_zero (take 2 (drop 1 cell)) then (False, d, rcvd)
      else
        let dtmp = digest_update P (digest_update P (digest_update P d (take 5 cell)) [0, 0, 0, 0]) (drop 9 cell);
            result = digest_finalize P dtmp
        in if take 4 (drop 5 cell) = take 4 result then (True, dtmp, SendmeTag_from20 (take 20 result))
           else (False, d, rcvd))"

section \<open>The four roles of a layer\<close>

definition tor1_encrypt_outbound ::
  "('c, 'd) tor1_prims \<Rightarrow> ChanCmd \<Rightarrow> ('c, 'd) tor1_state \<Rightarrow> byte list \<Rightarrow> byte list \<times> ('c, 'd) tor1_state" where
  "tor1_encrypt_outbound P cmd st cell =
     (case apply_keystream P (t1_cipher st) cell of (cell1, c) \<Rightarrow> (cell1, st\<lparr>t1_cipher := c\<rparr>))"

definition tor1_originate_for ::
  "('c, 'd) tor1_prims \<Rightarrow> ChanCmd \<Rightarrow> ('c, 'd) tor1_state \<Rightarrow> byte list \<Rightarrow> sendme_tag \<times> byte list \<times> ('c, 'd) tor1_state" where
  "tor1_originate_for P cmd st cell =
     (case set_digest P cell (t1_digest st) of (cell1, d, tag) \<Rightarrow>
        let st1 = st\<lparr>t1_digest := d, t1_last_sendme_tag := tag\<rparr> in
        (case tor1_encrypt_outbound P cmd st1 cell1 of (cell2, st2) \<Rightarrow> (t1_last_sendme_tag st2, cell2, st2)))"

definition tor1_encrypt_inbound ::
  "('c, 'd) tor1_prims \<Rightarrow> ChanCmd \<Rightarrow> ('c, 'd) tor1_state \<Rightarrow> byte list \<Rightarrow> byte list \<times> ('c, 'd) tor1_state" where
  "tor1_encrypt_inbound P cmd st cell =
     (case apply_keystream P (t1_cipher st) cell of (cell1, c) \<Rightarrow> (cell1, st\<lparr>t1_cipher := c\<rparr>))"

definition tor1_originate ::
  "('c, 'd) tor1_prims \<Rightarrow> ChanCmd \<Rightarrow> ('c, 'd) tor1_state \<Rightarrow> byte list \<Rightarrow> sendme_tag \<times> byte list \<times> ('c, 'd) tor1_state" where
  "tor1_originate P cmd st cell =
     (case set_digest P cell (t1_digest st) of (cell1, d, tag) \<Rightarrow>
        let st1 = st\<lparr>t1_digest := d, t1_last_sendme_tag := tag\<rparr> in
        (case tor1_encrypt_inbound P cmd st1 cell1 of (cell2, st2) \<Rightarrow> (t1_last_sendme_tag st2, cell2, st2)))"

definition tor1_decrypt_outbound ::
  "('c, 'd) tor1_prims \<Rightarrow> ChanCmd \<Rightarrow> ('c, 'd) tor1_state \<Rightarrow> byte list \<Rightarrow> sendme_tag option \<times> byte list \<times> ('c, 'd) tor1_state" where
  "tor1_decrypt_outbound P cmd st cell =
     (case apply_keystream P (t1_cipher st) cell of (cell1, c) \<Rightarrow>
      (case is_recognized P cell1 (t1_digest st) (t1_last_sendme_tag st) of (ok, d, tag) \<Rightarrow>
         let st1 = st\<lparr>t1_cipher := c, t1_digest := d, t1_last_sendme_tag := tag\<rparr>
         in (if ok then Some (t1_last_sendme_tag st1) else None, cell1, st1)))"

definition tor1_decrypt_inbound ::
  "('c, 'd) tor1_prims \<Rightarrow> ChanCmd \<Rightarrow> ('c, 'd) tor1_state \<Rightarrow> byte list \<Rightarrow> sendme_tag option \<times> byte list \<times> ('c, 'd) tor1_state" where
  "tor1_decrypt_inbound P cmd st cell =
     (case apply_keystream P (t1_cipher st) cell of (cell1, c) \<Rightarrow>
      (case is_recognized P cell1 (t1_digest st) (t1_last_sendme_tag st) of (ok, d, tag) \<Rightarrow>
         let st1 = st\<lparr>t1_cipher := c, t1_digest := d, t1_last_sendme_tag := tag\<rparr>
         in (if ok then Some (t1_last_sendme_tag st1) else None, cell1, st1)))"

text \<open>The implementations of the traits.\<close>

definition tor1_client_outbound :: "('c, 'd) tor1_prims \<Rightarrow> ('c, 'd) tor1_state outbound_client_ops" where
  "tor1_client_outbound P = \<lparr>originate_for = tor1_originate_for P, encrypt_outbound = tor1_encrypt_outbound P\<rparr>"

definition tor1_client_inbound :: "('c, 'd) tor1_prims \<Rightarrow> ('c, 'd) tor1_state inbound_client_ops" where
  "tor1_client_inbound P = \<lparr>decrypt_inbound = tor1_decrypt_inbound P\<rparr>"

definition tor1_relay_inbound :: "('c, 'd) tor1_prims \<Rightarrow> ('c, 'd) tor1_state inbound_relay_ops" where
  "tor1_relay_inbound P = \<lparr>originate = tor1_originate P, encrypt_inbound = tor1_encrypt_inbound P\<rparr>"

definition tor1_relay_outbound :: "('c, 'd) tor1_prims \<Rightarrow> ('c, 'd) tor1_state outbound_relay_ops" where
  "tor1_relay_outbound P = \<lparr>decrypt_outbound = tor1_decrypt_outbound P\<rparr>"

lemmas tor1_ops_defs = tor1_client_outbound_def tor1_client_inbound_def tor1_relay_inbound_def tor1_relay_outbound_def

section \<open>The two ends of a layer\<close>

definition prims_ok :: "('c, 'd) tor1_prims \<Rightarrow> bool" where
  "prims_ok P \<longleftrightarrow>
     (\<forall>c x. length (fst (apply_keystream P c x)) = length x) \<and>
     (\<forall>c x. apply_keystream P c (fst (apply_keystream P c x)) = (x, snd (apply_keystream P c x))) \<and>
     (\<forall>d a b. digest_update P (digest_update P d a) b = digest_update P d (a @ b)) \<and>
     (\<forall>d. length (digest_finalize P d) = output_size P) \<and> 20 \<le> output_size P"

text \<open>Both ends have the same cipher and the same digest.\<close>

definition tor1_paired :: "('c, 'd) tor1_prims \<Rightarrow> ('c, 'd) tor1_state \<Rightarrow> ('c, 'd) tor1_state \<Rightarrow> bool" where
  "tor1_paired P a b \<longleftrightarrow> prims_ok P \<and> t1_cipher a = t1_cipher b \<and> t1_digest a = t1_digest b"

definition tor1_auth :: "nat set" where
  "tor1_auth = {1, 2, 5, 6, 7, 8}"

lemma set_digest_recognized:
  assumes ok: "prims_ok P" and len: "length cell = 509" and s: "set_digest P cell d = (cell', d', tag)"
  shows "length cell' = 509 \<and> is_recognized P cell' d t = (True, d', tag) \<and> agree_except tor1_auth cell cell'"
proof -
  define z where "z = overwrite 5 [0, 0, 0, 0] (overwrite 1 [0, 0] cell)"
  define h where "h = digest_finalize P (digest_update P d z)"
  have h: "length (take 4 h) = 4" using ok by (simp add: prims_ok_def h_def)
  have eq: "cell' = overwrite 5 (take 4 h) z" "d' = digest_update P d z" "tag = SendmeTag_from20 (take 20 h)"
    using s by (auto simp: set_digest_def Let_def z_def h_def)
  have lz: "length z = 509" using len by (simp add: z_def)
  have lc: "length cell' = 509" using lz h by (simp add: eq)
  have nth: "cell' ! i = (if 5 \<le> i \<and> i < 9 then h ! (i - 5) else if 1 \<le> i \<and> i < 3 then 0 else cell ! i)" if "i < 509" for i
    using that len lz h by (auto simp: eq z_def nth_overwrite nth_Cons split: nat.split)
  have "take 5 cell' @ [0, 0, 0, 0] @ drop 9 cell' = overwrite 5 [0, 0, 0, 0] cell'" by (simp add: overwrite_def)
  also have "\<dots> = z"
    using len lz lc h by (intro nth_equalityI) (auto simp: nth nth_overwrite z_def nth_Cons split: nat.split)
  finally have whole: "digest_update P (digest_update P (digest_update P d (take 5 cell')) [0, 0, 0, 0]) (drop 9 cell') = d'"
    using ok by (simp add: prims_ok_def eq(2))
  have "take 2 (drop 1 cell') = [0, 0]" using lc by (intro nth_equalityI) (auto simp: nth nth_Cons split: nat.split)
  then have zero: "ct_is_zero (take 2 (drop 1 cell'))" by (simp add: ct_is_zero_def)
  have "take 4 (drop 5 cell') = take 4 h" using lc h by (intro nth_equalityI) (auto simp: nth)
  then have "is_recognized P cell' d t = (True, d', tag)"
    using zero unfolding is_recognized_def Let_def whole by (simp add: eq(2,3) h_def)
  moreover have "agree_except tor1_auth cell cell'"
    using len lc nth by (auto simp: agree_except_def tor1_auth_def)
  ultimately show ?thesis using lc by blast
qed

lemma is_recognized_False: "is_recognized P cell d t = (False, d', t') \<Longrightarrow> d' = d"
  by (auto simp: is_recognized_def Let_def split: if_splits)

lemma keystream_twice:
  assumes "prims_ok P" "apply_keystream P c x = (y, c')"
  shows "apply_keystream P c y = (x, c')" "length y = length x"
  using assms unfolding prims_ok_def by (metis fst_conv snd_conv)+

interpretation tor1_out: layer_pair "tor1_originate_for P" "tor1_encrypt_outbound P" "tor1_decrypt_outbound P"
    "tor1_paired P" tor1_auth for P
proof (unfold_locales, goal_cases)
  case (1 a b cell cmd tag cell' a')
  obtain c d t where s: "set_digest P cell (t1_digest a) = (c, d, t)" by (metis prod_cases3)
  obtain e k where e: "apply_keystream P (t1_cipher a) c = (e, k)" by fastforce
  have ok: "prims_ok P" and same: "t1_cipher b = t1_cipher a" "t1_digest b = t1_digest a"
    using 1(1) by (simp_all add: tor1_paired_def)
  have eq: "tag = t" "cell' = e" "a' = a\<lparr>t1_digest := d, t1_last_sendme_tag := t, t1_cipher := k\<rparr>"
    using 1(3) by (auto simp: tor1_originate_for_def tor1_encrypt_outbound_def s e Let_def)
  show ?case
    using set_digest_recognized [OF ok 1(2) s] keystream_twice [OF ok e] ok
    by (simp add: eq tor1_decrypt_outbound_def same Let_def tor1_paired_def)
next
  case (2 a b cell cmd cell' a')
  obtain e k where e: "apply_keystream P (t1_cipher a) cell = (e, k)" by fastforce
  have ok: "prims_ok P" and same: "t1_cipher b = t1_cipher a" "t1_digest b = t1_digest a"
    using 2(1) by (simp_all add: tor1_paired_def)
  obtain r d t where r: "is_recognized P cell (t1_digest a) (t1_last_sendme_tag b) = (r, d, t)" by (metis prod_cases3)
  have eq: "cell' = e" "a' = a\<lparr>t1_cipher := k\<rparr>"
    using 2(3) by (simp_all add: tor1_encrypt_outbound_def e)
  show ?case
    using keystream_twice [OF ok e] 2(2) ok r
    by (auto simp: eq tor1_decrypt_outbound_def same Let_def tor1_paired_def dest: is_recognized_False)
qed

text \<open>Towards the client a layer does the same with the other state.\<close>

lemma tor1_directions:
  "tor1_originate P = tor1_originate_for P" "tor1_encrypt_inbound P = tor1_encrypt_outbound P"
  "tor1_decrypt_inbound P = tor1_decrypt_outbound P"
  by (simp_all add: fun_eq_iff tor1_originate_def tor1_originate_for_def tor1_encrypt_inbound_def
      tor1_encrypt_outbound_def tor1_decrypt_inbound_def tor1_decrypt_outbound_def)

interpretation tor1_in: layer_pair "tor1_originate P" "tor1_encrypt_inbound P" "tor1_decrypt_inbound P"
    "tor1_paired P" tor1_auth for P
  unfolding tor1_directions by (rule tor1_out.layer_pair_axioms)

text \<open>The layers of a relay, and of an onion service at the end of a circuit.\<close>

interpretation hs_out: two_layers "tor1_originate_for P" "tor1_encrypt_outbound P" "tor1_decrypt_outbound P"
    "tor1_paired P" tor1_auth "tor1_originate_for Q" "tor1_encrypt_outbound Q" "tor1_decrypt_outbound Q"
    "tor1_paired Q" tor1_auth for P Q
  by unfold_locales


section \<open>Messages over a circuit\<close>

text \<open>The decoder skips the bytes that the digest and the recognized field overwrite.\<close>

lemma agree_tor1:
  assumes "agree_except tor1_auth a b"
  shows "b = take 1 a @ take 2 (drop 1 b) @ take 2 (drop 3 a) @ take 4 (drop 5 b) @ drop 9 a"
proof (rule nth_equalityI)
  have la: "length a = 509" and lb: "length b = 509" using assms by (simp_all add: agree_except_def)
  show "length b = length (take 1 a @ take 2 (drop 1 b) @ take 2 (drop 3 a) @ take 4 (drop 5 b) @ drop 9 a)"
    using la lb by simp
  fix i
  assume i: "i < length b"
  have same: "a ! i = b ! i" if "i \<notin> tor1_auth" using assms that i lb by (auto simp: agree_except_def)
  consider "i < 1" | "1 \<le> i" "i < 3" | "3 \<le> i" "i < 5" | "5 \<le> i" "i < 9" | "9 \<le> i" by linarith
  then show "b ! i = (take 1 a @ take 2 (drop 1 b) @ take 2 (drop 3 a) @ take 4 (drop 5 b) @ drop 9 a) ! i"
    using la lb i same by cases (auto simp: nth_append tor1_auth_def)
qed

lemma decode_v0_authenticated:
  assumes "relay_encode V0 fill m = Inr cell" "fills fill" "relay_msg_wf (ro_msg m)" "ro_streamid m \<noteq> Some 0"
    and "agree_except tor1_auth cell body"
  shows "decode_singleton V0 body = Inr m"
proof -
  obtain bs where bs: "AnyRelayMsg_encode_onto (ro_msg m) = (bs, Inr ())"
    using relay_msg_reads_back [OF assms(3)] by (auto simp: reads_back_def encodes_def)
  obtain pad where pad: "cell = cell_start V0 m bs @ pad" using relay_encode_eq(2) [OF bs assms(2,1)] by blast
  have "cell_fits V0 m bs" using relay_encode_eq(1) [OF bs assms(2)] assms(1) by blast
  then have len: "length bs < 65536" by simp
  have dec: "fst (AnyRelayMsg_decode_from_reader (AnyRelayMsg_cmd (ro_msg m)) (rdr pre bs c)) = Inr (ro_msg m)" for pre c
    using relay_msg_reads_back [OF assms(3)] bs by (auto simp: reads_back_def encodes_def)
  define r d where "r = take 2 (drop 1 body)" and "d = take 4 (drop 5 body)"
  have lens: "length r = 2" "length d = 4" using assms(5) by (simp_all add: r_def d_def agree_except_def)
  have body: "body = AnyRelayMsg_cmd (ro_msg m) # r @ to_be_bytes (StreamId_get_or_zero (ro_streamid m)) @ d @
      to_be_bytes (word_of_nat (length bs) :: u16) @ bs @ pad"
    using agree_tor1 [OF assms(5)] unfolding r_def [symmetric] d_def [symmetric]
    by (simp add: pad v0_bytes_def)
  show ?thesis
    using decode_v0_any [OF dec len lens] assms(4) by (simp add: body decode_singleton_eq StreamId_roundtrip)
qed

text \<open>A client and a relay that initialize a layer from the same seed are paired.\<close>

lemma tor1_fresh:
  assumes "prims_ok P" "tor1_initialize P seed = Inr p"
  shows "tor1_paired P (fst (tor1_split_client_layer p)) (fst (tor1_split_relay_layer p))"
    and "tor1_paired P (fst (snd (tor1_split_client_layer p))) (fst (snd (tor1_split_relay_layer p)))"
  using assms by (simp_all add: tor1_paired_def tor1_split_client_layer_def tor1_split_relay_layer_def)

text \<open>
  C3. Messages reach their hop. On a circuit whose hops are relays and, behind them, an onion
  service, with other primitives, the client sends messages to any hops in any order, each
  in a cell of the format V0. If no relay closer than the intended one recognizes a cell by
  accident, each message is decoded unchanged at its hop, which also has the same SENDME tag
  as the client.
\<close>

theorem tor1_outbound_delivery:
  assumes "list_all2 (sum_paired (tor1_paired P) (tor1_paired Q)) layers relays" "fills fill"
    and "\<forall>(cmd, hop, m)\<in>set xs. unat hop < length layers \<and> relay_msg_wf (ro_msg m) \<and> ro_streamid m \<noteq> Some 0 \<and>
      relay_encode V0 fill m = Inr (cell m)"
    and "run = outbound_run (dyn_outbound_client (tor1_client_outbound P) (tor1_client_outbound Q))
      (dyn_outbound_relay (tor1_relay_outbound P) (tor1_relay_outbound Q))
      (map (\<lambda>(cmd, hop, m). (cmd, hop, cell m)) xs) layers relays"
    and "list_all2 (\<lambda>(cmd, hop, m) (r, r1, body). \<forall>k t. r1 = Inr (k, t) \<longrightarrow> unat hop \<le> k) xs run"
  shows "list_all2 (\<lambda>(cmd, hop, m) (r, r1, body). \<exists>tag. r = Inr tag \<and> r1 = Inr (unat hop, tag) \<and>
    decode_singleton V0 body = Inr m) xs run"
proof -
  let ?ys = "map (\<lambda>(cmd, hop, m). (cmd, hop, cell m)) xs"
  have "\<forall>(cmd, hop, c)\<in>set ?ys. unat hop < length layers \<and> length c = 509"
    using assms(2,3) encode_length by fastforce
  moreover have "list_all2 (\<lambda>(cmd, hop, c) (r, r1, body). \<forall>k t. r1 = Inr (k, t) \<longrightarrow> unat hop \<le> k) ?ys run"
    using assms(5) by (auto simp: list_all2_map1 elim!: list_all2_mono)
  ultimately have "list_all2 (\<lambda>(cmd, hop, c) (r, r1, body). \<exists>tag. r = Inr tag \<and> r1 = Inr (unat hop, tag) \<and>
      agree_except (tor1_auth \<union> tor1_auth) c body) ?ys run"
    unfolding assms(4)
    by (intro hs_out.either.outbound_delivered [OF _ _ _ assms(1)]) (simp_all add: dyn_defs tor1_ops_defs)
  then show ?thesis
    unfolding list_all2_map1
    by (rule list.rel_mono_strong) (use assms(2,3) decode_v0_authenticated in fastforce)
qed


section \<open>An example\<close>

text \<open>Simple primitives: a key stream of equal bytes that changes with every cell, and a sum.\<close>

definition ex_prims :: "(byte, byte) tor1_prims" where
  "ex_prims = \<lparr>cipher_new = hd, apply_keystream = (\<lambda>c x. (map (xor c) x, c + 1)), key_size = 1,
     digest_new = 0, digest_update = foldl (+), digest_finalize = replicate 20, output_size = 20\<rparr>"

lemma ex_prims_ok: "prims_ok ex_prims"
  by (auto simp: prims_ok_def ex_prims_def comp_def xor.assoc [symmetric])

definition ex_layer :: "byte \<Rightarrow> (byte, byte) tor1_state" where
  "ex_layer k = (case tor1_initialize ex_prims (replicate 40 0 @ [k, k] @ replicate 32 0) of
     Inr p \<Rightarrow> fst (tor1_split_client_layer p)
   | Inl _ \<Rightarrow> \<lparr>t1_cipher = 0, t1_digest = 0, t1_last_sendme_tag = SendmeTag_from20 []\<rparr>)"

definition ex_circuit :: "((byte, byte) tor1_state + (byte, byte) tor1_state) list" where
  "ex_circuit = [Inl (ex_layer 1), Inr (ex_layer 2)]"

lemma ex_circuit_paired: "list_all2 (sum_paired (tor1_paired ex_prims) (tor1_paired ex_prims)) ex_circuit ex_circuit"
  using ex_prims_ok by (simp add: ex_circuit_def tor1_paired_def)

definition ex_msg :: relay_msg_outer where
  "ex_msg = \<lparr>ro_streamid = Some 5, ro_msg = RData [1, 2, 3]\<rparr>"

definition ex_cell :: "relay_msg_outer \<Rightarrow> byte list" where
  "ex_cell m = cell_start V0 m [1, 2, 3] @ replicate 495 0"

lemma ex_encoded: "relay_encode V0 (\<lambda>n. replicate n 0) ex_msg = Inr (ex_cell ex_msg)"
proof -
  have bs: "AnyRelayMsg_encode_onto (ro_msg ex_msg) = ([1, 2, 3], Inr ())" by (simp add: ex_msg_def wire_simps)
  have "replicate 495 (0 :: byte) = replicate 4 0 @ replicate 491 0" by (simp flip: replicate_add)
  then show ?thesis
    using relay_encode_bytes(1) [OF bs, of V0] by (simp add: ex_cell_def cell_padding_def)
qed

lemma ex_cells: "\<forall>(cmd, hop, m)\<in>set [(3 :: ChanCmd, 1 :: u8, ex_msg), (3, 0, ex_msg)]. unat hop < length ex_circuit \<and>
    relay_msg_wf (ro_msg m) \<and> ro_streamid m \<noteq> Some 0 \<and> relay_encode V0 (\<lambda>n. replicate n 0) m = Inr (ex_cell m)"
  by (simp add: ex_circuit_def ex_encoded) (simp add: ex_msg_def)

theorem tor1_outbound_delivery_witness:
  "list_all2 (\<lambda>(cmd, hop, m) (r, r1, body). \<exists>tag. r = Inr tag \<and> r1 = Inr (unat hop, tag) \<and> decode_singleton V0 body = Inr m)
     [(3 :: ChanCmd, 1 :: u8, ex_msg), (3, 0, ex_msg)]
     (outbound_run (dyn_outbound_client (tor1_client_outbound ex_prims) (tor1_client_outbound ex_prims))
       (dyn_outbound_relay (tor1_relay_outbound ex_prims) (tor1_relay_outbound ex_prims))
       [(3, 1, ex_cell ex_msg), (3, 0, ex_cell ex_msg)] ex_circuit ex_circuit)"
proof -
  have fills: "fills (\<lambda>n. replicate n 0)" by (simp add: fills_def)
  let ?run = "outbound_run (dyn_outbound_client (tor1_client_outbound ex_prims) (tor1_client_outbound ex_prims))
       (dyn_outbound_relay (tor1_relay_outbound ex_prims) (tor1_relay_outbound ex_prims))
       [(3, 1, ex_cell ex_msg), (3, 0, ex_cell ex_msg)] ex_circuit ex_circuit"
  have "map (\<lambda>(r, r1, body). map_sum (\<lambda>_. ()) fst r1) ?run = [Inr 1, Inr 0]" by code_simp
  then have "list_all2 (\<lambda>(cmd, hop, m) (r, r1, body). \<forall>k t. r1 = Inr (k, t) \<longrightarrow> unat hop \<le> k)
      [(3 :: ChanCmd, 1 :: u8, ex_msg), (3, 0, ex_msg)] ?run"
    by (auto simp: map_eq_Cons_conv)
  with tor1_outbound_delivery [OF ex_circuit_paired fills ex_cells refl] show ?thesis by (simp del: outbound_run.simps)
qed


end
