(* ===== verification/Cgo.thy ===== *)
theory Cgo
  imports RelayCrypto
begin

text \<open>
  Counter Galois Onion, the new relay cell encryption,
  \<open>tor-proto/src/crypto/cell/cgo.rs\<close>.

  The block cipher, the universal hash POLYVAL and the counter mode are other crates and are
  parameters, the record \<open>cgo_prims\<close>. What the code relies on is the predicate \<open>cgo_prims_ok\<close>:
  the two directions of the block cipher are inverse to each other on blocks of 16 bytes,
  hashes have 16 bytes, and a key stream has the length that is asked for.
\<close>

section \<open>The primitives\<close>

record ('e, 'k, 'u) cgo_prims =
  et_key_size :: nat
  et_cipher_new :: "byte list \<Rightarrow> 'e"
  encrypt_block :: "'e \<Rightarrow> byte list \<Rightarrow> byte list"
  decrypt_block :: "'e \<Rightarrow> byte list \<Rightarrow> byte list"
  prf_key_size :: nat
  prf_cipher_new :: "byte list \<Rightarrow> 'k"
  ctr_keystream :: "'k \<Rightarrow> byte list \<Rightarrow> nat \<Rightarrow> nat \<Rightarrow> byte list"
  polyval_new :: "byte list \<Rightarrow> 'u"
  polyval_update :: "'u \<Rightarrow> byte list list \<Rightarrow> 'u"
  polyval_update_padded :: "'u \<Rightarrow> byte list \<Rightarrow> 'u"
  polyval_finalize :: "'u \<Rightarrow> byte list"

definition POLYVAL_KEY_SIZE :: nat where
  "POLYVAL_KEY_SIZE = 16"

definition xor_into :: "byte list \<Rightarrow> byte list \<Rightarrow> byte list" where
  "xor_into out inp = map2 xor out inp"

section \<open>The tweakable block cipher\<close>

record ('e, 'u) et_cipher =
  et_kb :: 'e
  et_ku :: 'u

definition et_seed_len :: "('e, 'k, 'u) cgo_prims \<Rightarrow> nat" where
  "et_seed_len P = et_key_size P + POLYVAL_KEY_SIZE"

definition et_from_seed :: "('e, 'k, 'u) cgo_prims \<Rightarrow> byte list \<Rightarrow> ('e, 'u) et_cipher" where
  "et_from_seed P seed =
     \<lparr>et_kb = et_cipher_new P (take (et_key_size P) seed), et_ku = polyval_new P (drop (et_key_size P) seed)\<rparr>"

definition et_initialize :: "('e, 'k, 'u) cgo_prims \<Rightarrow> byte list \<Rightarrow> proto_error + ('e, 'u) et_cipher" where
  "et_initialize P seed =
     (if length seed \<noteq> et_seed_len P then Inl (ProtoInternal ''Invalid seed length'') else Inr (et_from_seed P seed))"

definition compute_tweak_hash ::
  "('e, 'k, 'u) cgo_prims \<Rightarrow> ('e, 'u) et_cipher \<Rightarrow> byte list \<times> byte \<times> byte list \<Rightarrow> byte list" where
  "compute_tweak_hash P et tweak =
     (case tweak of (t0, t1, t2) \<Rightarrow>
        let block1 = t1 # take 15 t2;
            ku1 = polyval_update P (et_ku et) [t0, block1];
            ku2 = polyval_update_padded P ku1 (drop 15 t2)
        in polyval_finalize P ku2)"

definition et_encrypt ::
  "('e, 'k, 'u) cgo_prims \<Rightarrow> ('e, 'u) et_cipher \<Rightarrow> byte list \<times> byte \<times> byte list \<Rightarrow> byte list \<Rightarrow> byte list" where
  "et_encrypt P et tweak block =
     (let tag = compute_tweak_hash P et tweak
      in xor_into (encrypt_block P (et_kb et) (xor_into block tag)) tag)"

definition et_decrypt ::
  "('e, 'k, 'u) cgo_prims \<Rightarrow> ('e, 'u) et_cipher \<Rightarrow> byte list \<times> byte \<times> byte list \<Rightarrow> byte list \<Rightarrow> byte list" where
  "et_decrypt P et tweak block =
     (let tag = compute_tweak_hash P et tweak
      in xor_into (decrypt_block P (et_kb et) (xor_into block tag)) tag)"

section \<open>The pseudorandom function\<close>

record ('k, 'u) prf_keys =
  prf_k :: 'k
  prf_b :: 'u

definition PRF_N1_OFFSET :: nat where
  "PRF_N1_OFFSET = 31 * 16"

definition prf_seed_len :: "('e, 'k, 'u) cgo_prims \<Rightarrow> nat" where
  "prf_seed_len P = prf_key_size P + POLYVAL_KEY_SIZE"

definition prf_from_seed :: "('e, 'k, 'u) cgo_prims \<Rightarrow> byte list \<Rightarrow> ('k, 'u) prf_keys" where
  "prf_from_seed P seed =
     \<lparr>prf_k = prf_cipher_new P (take (prf_key_size P) seed), prf_b = polyval_new P (drop (prf_key_size P) seed)\<rparr>"

definition prf_initialize :: "('e, 'k, 'u) cgo_prims \<Rightarrow> byte list \<Rightarrow> proto_error + ('k, 'u) prf_keys" where
  "prf_initialize P seed =
     (if length seed \<noteq> prf_seed_len P then Inl (ProtoInternal ''Invalid seed length'') else Inr (prf_from_seed P seed))"

text \<open>The initial counter of \<open>Prf::cipher\<close>, whose last six bits are zero.\<close>

definition prf_iv :: "('e, 'k, 'u) cgo_prims \<Rightarrow> ('k, 'u) prf_keys \<Rightarrow> byte list \<Rightarrow> byte list" where
  "prf_iv P s tweak =
     (let iv = polyval_finalize P (polyval_update P (prf_b s) [tweak])
      in butlast iv @ [and (last iv) 0xC0])"

definition xor_n0_stream :: "('e, 'k, 'u) cgo_prims \<Rightarrow> ('k, 'u) prf_keys \<Rightarrow> byte list \<Rightarrow> byte list \<Rightarrow> byte list" where
  "xor_n0_stream P s tweak out = xor_into out (ctr_keystream P (prf_k s) (prf_iv P s tweak) 0 (length out))"

definition get_n1_stream :: "('e, 'k, 'u) cgo_prims \<Rightarrow> ('k, 'u) prf_keys \<Rightarrow> byte list \<Rightarrow> nat \<Rightarrow> byte list" where
  "get_n1_stream P s tweak n =
     xor_into (replicate n 0) (ctr_keystream P (prf_k s) (prf_iv P s tweak) PRF_N1_OFFSET n)"

section \<open>The wide-block cipher\<close>

record ('e, 'k, 'u) uiv =
  uiv_j :: "('e, 'u) et_cipher"
  uiv_s :: "('k, 'u) prf_keys"

definition uiv_encrypt :: "('e, 'k, 'u) cgo_prims \<Rightarrow> ('e, 'k, 'u) uiv \<Rightarrow> byte list \<times> byte \<Rightarrow> byte list \<Rightarrow> byte list" where
  "uiv_encrypt P k tweak body =
     (case tweak of (t0, t1) \<Rightarrow>
        let left = take 16 body; right = drop 16 body;
            left1 = et_encrypt P (uiv_j k) (t0, t1, right) left;
            right1 = xor_n0_stream P (uiv_s k) left1 right
        in left1 @ right1)"

definition uiv_decrypt :: "('e, 'k, 'u) cgo_prims \<Rightarrow> ('e, 'k, 'u) uiv \<Rightarrow> byte list \<times> byte \<Rightarrow> byte list \<Rightarrow> byte list" where
  "uiv_decrypt P k tweak body =
     (case tweak of (t0, t1) \<Rightarrow>
        let left = take 16 body; right = drop 16 body;
            right1 = xor_n0_stream P (uiv_s k) left right;
            left1 = et_decrypt P (uiv_j k) (t0, t1, right1) left
        in left1 @ right1)"

definition uiv_seed_len :: "('e, 'k, 'u) cgo_prims \<Rightarrow> nat" where
  "uiv_seed_len P = et_seed_len P + prf_seed_len P"

definition split_seed :: "('e, 'k, 'u) cgo_prims \<Rightarrow> byte list \<Rightarrow> byte list \<times> byte list \<times> byte list" where
  "split_seed P seed =
     (take (et_seed_len P) seed, take (prf_seed_len P) (drop (et_seed_len P) seed), drop (et_seed_len P + prf_seed_len P) seed)"

definition uiv_initialize :: "('e, 'k, 'u) cgo_prims \<Rightarrow> byte list \<Rightarrow> proto_error + ('e, 'k, 'u) uiv" where
  "uiv_initialize P seed =
     (if length seed \<noteq> uiv_seed_len P then Inl (ProtoInternal ''Invalid seed length'')
      else case split_seed P seed of (j, s, n) \<Rightarrow>
        (case et_initialize P j of
           Inl e \<Rightarrow> Inl e
         | Inr j1 \<Rightarrow>
             (case prf_initialize P s of
                Inl e \<Rightarrow> Inl e
              | Inr s1 \<Rightarrow> Inr \<lparr>uiv_j = j1, uiv_s = s1\<rparr>)))"

text \<open>
  The slices that \<open>update\<close> initializes the parts from have the required lengths, so that its
  \<open>expect\<close> cannot fail and the parts are made directly.
\<close>

definition uiv_update ::
  "('e, 'k, 'u) cgo_prims \<Rightarrow> ('e, 'k, 'u) uiv \<Rightarrow> byte list \<Rightarrow> ('e, 'k, 'u) uiv \<times> byte list" where
  "uiv_update P k nonce =
     (let n_bytes = uiv_seed_len P + 16;
          seed = get_n1_stream P (uiv_s k) nonce n_bytes
      in case split_seed P seed of (j, s, n) \<Rightarrow> (\<lparr>uiv_j = et_from_seed P j, uiv_s = prf_from_seed P s\<rparr>, n))"

section \<open>The state of a layer\<close>

record ('e, 'k, 'u) cgo_state =
  cgo_uiv :: "('e, 'k, 'u) uiv"
  cgo_nonce :: "byte list"
  cgo_tag :: "byte list"

definition cgo_state_seed_len :: "('e, 'k, 'u) cgo_prims \<Rightarrow> nat" where
  "cgo_state_seed_len P = uiv_seed_len P + 16"

definition cgo_state_initialize :: "('e, 'k, 'u) cgo_prims \<Rightarrow> byte list \<Rightarrow> proto_error + ('e, 'k, 'u) cgo_state" where
  "cgo_state_initialize P seed =
     (if length seed \<noteq> cgo_state_seed_len P then Inl (ProtoInternal ''Invalid seed length'')
      else case uiv_initialize P (take (uiv_seed_len P) seed) of
        Inl e \<Rightarrow> Inl e
      | Inr k \<Rightarrow> Inr \<lparr>cgo_uiv = k, cgo_nonce = drop (uiv_seed_len P) seed, cgo_tag = replicate 16 0\<rparr>)"

record ('e, 'k, 'u) cgo_pair =
  cgo_outbound :: "('e, 'k, 'u) cgo_state"
  cgo_inbound :: "('e, 'k, 'u) cgo_state"
  cgo_binding :: "byte list"

definition cgo_initialize :: "('e, 'k, 'u) cgo_prims \<Rightarrow> byte list \<Rightarrow> proto_error + ('e, 'k, 'u) cgo_pair" where
  "cgo_initialize P seed =
     (if length seed \<noteq> cgo_state_seed_len P * 2 + 32 then Inl (ProtoInternal ''Invalid seed length'')
      else
        let slen = cgo_state_seed_len P in
        (case cgo_state_initialize P (take slen seed) of
           Inl e \<Rightarrow> Inl e
         | Inr outb \<Rightarrow>
             (case cgo_state_initialize P (take slen (drop slen seed)) of
                Inl e \<Rightarrow> Inl e
              | Inr inb \<Rightarrow> Inr \<lparr>cgo_outbound = outb, cgo_inbound = inb, cgo_binding = drop (slen * 2) seed\<rparr>)))"

section \<open>The four roles of a layer\<close>

definition cgo_encrypt_outbound ::
  "('e, 'k, 'u) cgo_prims \<Rightarrow> ChanCmd \<Rightarrow> ('e, 'k, 'u) cgo_state \<Rightarrow> byte list \<Rightarrow> byte list \<times> ('e, 'k, 'u) cgo_state" where
  "cgo_encrypt_outbound P cmd st cell =
     (let t_new = take 16 cell;
          cell1 = uiv_decrypt P (cgo_uiv st) (cgo_tag st, cmd) cell
      in (cell1, st\<lparr>cgo_tag := t_new\<rparr>))"

definition cgo_originate_for ::
  "('e, 'k, 'u) cgo_prims \<Rightarrow> ChanCmd \<Rightarrow> ('e, 'k, 'u) cgo_state \<Rightarrow> byte list \<Rightarrow>
   sendme_tag \<times> byte list \<times> ('e, 'k, 'u) cgo_state" where
  "cgo_originate_for P cmd st cell =
     (let cell1 = overwrite 0 (cgo_nonce st) cell in
      case cgo_encrypt_outbound P cmd st cell1 of (cell2, st1) \<Rightarrow>
      case uiv_update P (cgo_uiv st1) (cgo_nonce st1) of (k, n) \<Rightarrow>
        (SendmeTag_from16 (take 16 cell2), cell2, st1\<lparr>cgo_uiv := k, cgo_nonce := n\<rparr>))"

definition cgo_decrypt_inbound ::
  "('e, 'k, 'u) cgo_prims \<Rightarrow> ChanCmd \<Rightarrow> ('e, 'k, 'u) cgo_state \<Rightarrow> byte list \<Rightarrow>
   sendme_tag option \<times> byte list \<times> ('e, 'k, 'u) cgo_state" where
  "cgo_decrypt_inbound P cmd st cell =
     (let t_orig = take 16 cell;
          cell1 = uiv_decrypt P (cgo_uiv st) (cgo_tag st, cmd) cell;
          st1 = st\<lparr>cgo_tag := t_orig\<rparr>
      in if take 16 cell1 = cgo_nonce st1
         then (case uiv_update P (cgo_uiv st1) t_orig of (k, n) \<Rightarrow>
                 let st2 = st1\<lparr>cgo_uiv := k, cgo_nonce := n\<rparr>
                 in (Some (SendmeTag_from16 (cgo_tag st2)), cell1, st2))
         else (None, cell1, st1))"

definition cgo_decrypt_outbound ::
  "('e, 'k, 'u) cgo_prims \<Rightarrow> ChanCmd \<Rightarrow> ('e, 'k, 'u) cgo_state \<Rightarrow> byte list \<Rightarrow>
   sendme_tag option \<times> byte list \<times> ('e, 'k, 'u) cgo_state" where
  "cgo_decrypt_outbound P cmd st cell =
     (let tag = SendmeTag_from16 (take 16 cell);
          cell1 = uiv_encrypt P (cgo_uiv st) (cgo_tag st, cmd) cell;
          st1 = st\<lparr>cgo_tag := take 16 cell1\<rparr>
      in if cgo_tag st1 = cgo_nonce st1
         then (case uiv_update P (cgo_uiv st1) (cgo_nonce st1) of (k, n) \<Rightarrow>
                 (Some tag, cell1, st1\<lparr>cgo_uiv := k, cgo_nonce := n\<rparr>))
         else (None, cell1, st1))"

definition cgo_encrypt_inbound ::
  "('e, 'k, 'u) cgo_prims \<Rightarrow> ChanCmd \<Rightarrow> ('e, 'k, 'u) cgo_state \<Rightarrow> byte list \<Rightarrow> byte list \<times> ('e, 'k, 'u) cgo_state" where
  "cgo_encrypt_inbound P cmd st cell =
     (let cell1 = uiv_encrypt P (cgo_uiv st) (cgo_tag st, cmd) cell
      in (cell1, st\<lparr>cgo_tag := take 16 cell1\<rparr>))"

definition cgo_originate ::
  "('e, 'k, 'u) cgo_prims \<Rightarrow> ChanCmd \<Rightarrow> ('e, 'k, 'u) cgo_state \<Rightarrow> byte list \<Rightarrow>
   sendme_tag \<times> byte list \<times> ('e, 'k, 'u) cgo_state" where
  "cgo_originate P cmd st cell =
     (let cell1 = overwrite 0 (cgo_nonce st) cell in
      case cgo_encrypt_inbound P cmd st cell1 of (cell2, st1) \<Rightarrow>
      let st2 = st1\<lparr>cgo_nonce := take 16 cell2\<rparr> in
      case uiv_update P (cgo_uiv st2) (cgo_nonce st2) of (k, n) \<Rightarrow>
        (SendmeTag_from16 (cgo_tag st2), cell2, st2\<lparr>cgo_uiv := k, cgo_nonce := n\<rparr>))"

definition cgo_client_outbound :: "('e, 'k, 'u) cgo_prims \<Rightarrow> ('e, 'k, 'u) cgo_state outbound_client_ops" where
  "cgo_client_outbound P = \<lparr>originate_for = cgo_originate_for P, encrypt_outbound = cgo_encrypt_outbound P\<rparr>"

definition cgo_client_inbound :: "('e, 'k, 'u) cgo_prims \<Rightarrow> ('e, 'k, 'u) cgo_state inbound_client_ops" where
  "cgo_client_inbound P = \<lparr>decrypt_inbound = cgo_decrypt_inbound P\<rparr>"

definition cgo_relay_inbound :: "('e, 'k, 'u) cgo_prims \<Rightarrow> ('e, 'k, 'u) cgo_state inbound_relay_ops" where
  "cgo_relay_inbound P = \<lparr>originate = cgo_originate P, encrypt_inbound = cgo_encrypt_inbound P\<rparr>"

definition cgo_relay_outbound :: "('e, 'k, 'u) cgo_prims \<Rightarrow> ('e, 'k, 'u) cgo_state outbound_relay_ops" where
  "cgo_relay_outbound P = \<lparr>decrypt_outbound = cgo_decrypt_outbound P\<rparr>"

lemmas cgo_ops_defs = cgo_client_outbound_def cgo_client_inbound_def cgo_relay_inbound_def cgo_relay_outbound_def

section \<open>The cipher is a permutation\<close>

definition cgo_prims_ok :: "('e, 'k, 'u) cgo_prims \<Rightarrow> bool" where
  "cgo_prims_ok P \<longleftrightarrow>
     (\<forall>k x. length x = 16 \<longrightarrow> length (encrypt_block P k x) = 16 \<and> length (decrypt_block P k x) = 16 \<and>
        decrypt_block P k (encrypt_block P k x) = x \<and> encrypt_block P k (decrypt_block P k x) = x) \<and>
     (\<forall>k iv p n. length (ctr_keystream P k iv p n) = n) \<and> (\<forall>u. length (polyval_finalize P u) = 16)"

lemma length_xor_into [simp]: "length (xor_into a b) = min (length a) (length b)"
  by (simp add: xor_into_def)

lemma xor_into_twice: "length a = length b \<Longrightarrow> xor_into (xor_into a b) b = a"
  by (rule nth_equalityI) (simp_all add: xor_into_def xor.assoc)

lemma length_tweak_hash: "cgo_prims_ok P \<Longrightarrow> length (compute_tweak_hash P et tw) = 16"
  by (auto simp: compute_tweak_hash_def cgo_prims_ok_def Let_def split: prod.splits)

lemma et_inverse:
  assumes "cgo_prims_ok P" "length x = 16"
  shows "length (et_encrypt P et tw x) = 16" "length (et_decrypt P et tw x) = 16"
    and "et_decrypt P et tw (et_encrypt P et tw x) = x" "et_encrypt P et tw (et_decrypt P et tw x) = x"
proof -
  let ?t = "compute_tweak_hash P et tw"
  have t: "length ?t = 16" by (rule length_tweak_hash [OF assms(1)])
  have bc: "length (encrypt_block P k y) = 16" "length (decrypt_block P k y) = 16"
    "decrypt_block P k (encrypt_block P k y) = y" "encrypt_block P k (decrypt_block P k y) = y" if "length y = 16" for k y
    using assms(1) that by (simp_all add: cgo_prims_ok_def)
  show "length (et_encrypt P et tw x) = 16" "length (et_decrypt P et tw x) = 16"
    using t assms(2) by (simp_all add: et_encrypt_def et_decrypt_def Let_def bc)
  show "et_decrypt P et tw (et_encrypt P et tw x) = x" "et_encrypt P et tw (et_decrypt P et tw x) = x"
    using t assms(2) by (simp_all add: et_encrypt_def et_decrypt_def Let_def bc xor_into_twice)
qed

lemma xor_n0_twice:
  assumes "cgo_prims_ok P"
  shows "length (xor_n0_stream P s tw x) = length x" "xor_n0_stream P s tw (xor_n0_stream P s tw x) = x"
  using assms by (simp_all add: xor_n0_stream_def cgo_prims_ok_def xor_into_twice)

text \<open>Both directions of the wide-block cipher are inverse to each other, for every key and tweak.\<close>

lemma uiv_inverse:
  assumes ok: "cgo_prims_ok P" and len: "16 \<le> length x"
  shows "length (uiv_encrypt P k tw x) = length x" "length (uiv_decrypt P k tw x) = length x"
    and "uiv_decrypt P k tw (uiv_encrypt P k tw x) = x" "uiv_encrypt P k tw (uiv_decrypt P k tw x) = x"
proof -
  obtain t0 t1 where tw: "tw = (t0, t1)" by fastforce
  have l: "length (take 16 x) = 16" using len by simp
  note et = et_inverse [OF ok l] and xn = xor_n0_twice [OF ok]
  show "length (uiv_encrypt P k tw x) = length x" "length (uiv_decrypt P k tw x) = length x"
    using len by (simp_all add: tw uiv_encrypt_def uiv_decrypt_def Let_def et xn)
  show "uiv_decrypt P k tw (uiv_encrypt P k tw x) = x" "uiv_encrypt P k tw (uiv_decrypt P k tw x) = x"
    by (simp_all add: tw uiv_encrypt_def uiv_decrypt_def Let_def et xn)
qed

lemma length_update_nonce: "cgo_prims_ok P \<Longrightarrow> length (snd (uiv_update P k n)) = 16"
  by (simp add: uiv_update_def get_n1_stream_def split_seed_def uiv_seed_len_def cgo_prims_ok_def Let_def)

text \<open>The seeds that \<open>update\<close> derives are accepted, so nothing in it panics.\<close>

lemma uiv_update_initializes:
  assumes "cgo_prims_ok P" "uiv_update P k n = (k', n')"
  shows "uiv_initialize P (take (uiv_seed_len P) (get_n1_stream P (uiv_s k) n (uiv_seed_len P + 16))) = Inr k'"
  using assms
  by (auto simp: uiv_update_def uiv_initialize_def et_initialize_def prf_initialize_def get_n1_stream_def split_seed_def
      uiv_seed_len_def cgo_prims_ok_def Let_def min_def take_drop add.commute)

section \<open>The two ends of a layer\<close>

definition cgo_paired :: "('e, 'k, 'u) cgo_prims \<Rightarrow> ('e, 'k, 'u) cgo_state \<Rightarrow> ('e, 'k, 'u) cgo_state \<Rightarrow> bool" where
  "cgo_paired P a b \<longleftrightarrow> cgo_prims_ok P \<and> a = b \<and> length (cgo_nonce a) = 16"

definition cgo_auth :: "nat set" where
  "cgo_auth = {0..<16}"

lemma agree_nonce: "length n = 16 \<Longrightarrow> length cell = 509 \<Longrightarrow> agree_except cgo_auth cell (overwrite 0 n cell)"
  by (auto simp: agree_except_def cgo_auth_def nth_overwrite)

lemma take_nonce: "length n = 16 \<Longrightarrow> take 16 (overwrite 0 n cell) = n"
  by (simp add: overwrite_def)

interpretation cgo_out: layer_pair "cgo_originate_for P" "cgo_encrypt_outbound P" "cgo_decrypt_outbound P"
    "cgo_paired P" cgo_auth for P
proof (unfold_locales, goal_cases)
  case (1 a b cell cmd tag cell' a')
  have ok: "cgo_prims_ok P" and b: "b = a" and n: "length (cgo_nonce a) = 16" using 1(1) by (auto simp: cgo_paired_def)
  let ?c = "overwrite 0 (cgo_nonce a) cell"
  have lc: "length ?c = 509" using n 1(2) by simp
  then have l: "16 \<le> length ?c" by simp
  obtain k m where u: "uiv_update P (cgo_uiv a) (cgo_nonce a) = (k, m)" by fastforce
  then have m: "length m = 16" using length_update_nonce [OF ok, of "cgo_uiv a" "cgo_nonce a"] by simp
  show ?case
    using 1(2,3) uiv_inverse [OF ok l, of "cgo_uiv a" "(cgo_tag a, cmd)"] lc ok n m agree_nonce [OF n 1(2)]
    by (auto simp: cgo_originate_for_def cgo_encrypt_outbound_def cgo_decrypt_outbound_def Let_def u b take_nonce cgo_paired_def)
next
  case (2 a b cell cmd cell' a')
  have ok: "cgo_prims_ok P" and b: "b = a" and n: "length (cgo_nonce a) = 16" using 2(1) by (auto simp: cgo_paired_def)
  have l: "16 \<le> length cell" using 2(2) by simp
  show ?case
    using 2(2,3) uiv_inverse [OF ok l, of "cgo_uiv a" "(cgo_tag a, cmd)"] ok n
    by (auto simp: cgo_encrypt_outbound_def cgo_decrypt_outbound_def Let_def b cgo_paired_def split: prod.splits)
qed

interpretation cgo_in: layer_pair "cgo_originate P" "cgo_encrypt_inbound P" "cgo_decrypt_inbound P"
    "cgo_paired P" cgo_auth for P
proof (unfold_locales, goal_cases)
  case (1 a b cell cmd tag cell' a')
  have ok: "cgo_prims_ok P" and b: "b = a" and n: "length (cgo_nonce a) = 16" using 1(1) by (auto simp: cgo_paired_def)
  let ?c = "overwrite 0 (cgo_nonce a) cell"
  have lc: "length ?c = 509" using n 1(2) by simp
  then have l: "16 \<le> length ?c" by simp
  let ?e = "uiv_encrypt P (cgo_uiv a) (cgo_tag a, cmd) ?c"
  obtain k m where u: "uiv_update P (cgo_uiv a) (take 16 ?e) = (k, m)" by fastforce
  then have m: "length m = 16" using length_update_nonce [OF ok, of "cgo_uiv a" "take 16 ?e"] by simp
  show ?case
    using 1(2,3) uiv_inverse [OF ok l, of "cgo_uiv a" "(cgo_tag a, cmd)"] lc ok n m agree_nonce [OF n 1(2)]
    by (auto simp: cgo_originate_def cgo_encrypt_inbound_def cgo_decrypt_inbound_def Let_def u b take_nonce cgo_paired_def)
next
  case (2 a b cell cmd cell' a')
  have ok: "cgo_prims_ok P" and b: "b = a" and n: "length (cgo_nonce a) = 16" using 2(1) by (auto simp: cgo_paired_def)
  have l: "16 \<le> length cell" using 2(2) by simp
  show ?case
    using 2(2,3) uiv_inverse [OF ok l, of "cgo_uiv a" "(cgo_tag a, cmd)"] ok n
    by (auto simp: cgo_encrypt_inbound_def cgo_decrypt_inbound_def Let_def b cgo_paired_def split: prod.splits)
qed

section \<open>Messages over a circuit\<close>

lemma decode_v1_authenticated:
  assumes "relay_encode V1 fill m = Inr cell" "fills fill" "relay_msg_wf (ro_msg m)" "ro_streamid m \<noteq> Some 0"
    and "agree_except cgo_auth cell body"
  shows "decode_singleton V1 body = Inr m"
proof -
  obtain bs where bs: "AnyRelayMsg_encode_onto (ro_msg m) = (bs, Inr ())"
    using relay_msg_reads_back [OF assms(3)] by (auto simp: reads_back_def encodes_def)
  obtain pad where pad: "cell = cell_start V1 m bs @ pad" using relay_encode_eq(2) [OF bs assms(2,1)] by blast
  have fits: "cell_fits V1 m bs" using relay_encode_eq(1) [OF bs assms(2)] assms(1) by blast
  have len: "length body = 509" "length cell = 509" using assms(5) by (simp_all add: agree_except_def)
  have "drop 16 body = drop 16 cell"
    using assms(5) len by (intro nth_equalityI) (auto simp: agree_except_def cgo_auth_def)
  moreover have "body = take 16 body @ drop 16 body" by simp
  ultimately have body: "body = take 16 body @ drop 16 cell" by simp
  have t: "length (take 16 body) = 16" using len by simp
  have dec: "fst (AnyRelayMsg_decode_from_reader (AnyRelayMsg_cmd (ro_msg m)) (rdr pre bs c)) = Inr (ro_msg m)" for pre c
    using relay_msg_reads_back [OF assms(3)] bs by (auto simp: reads_back_def encodes_def)
  have "length bs < 65536" "v1_sid_ok (AnyRelayMsg_cmd (ro_msg m)) (ro_streamid m)"
    using fits by (auto simp: v1_room_def split: option.splits)
  from decode_v1_any [OF dec this assms(4) t, of pad] show ?thesis
    unfolding decode_singleton_eq by (subst body) (simp add: pad v1_bytes_def)
qed

text \<open>A client and a relay that initialize a layer from the same seed are paired.\<close>

lemma cgo_fresh:
  assumes "cgo_prims_ok P" "cgo_initialize P seed = Inr p"
  shows "cgo_paired P (cgo_outbound p) (cgo_outbound p)" "cgo_paired P (cgo_inbound p) (cgo_inbound p)"
  using assms
  by (auto simp: cgo_initialize_def cgo_state_initialize_def cgo_state_seed_len_def cgo_paired_def Let_def
      split: if_splits sum.splits)

text \<open>
  C10. Messages of the format V1 reach their hop under Counter Galois Onion, in both
  directions, from and to any hops in any order, with the same SENDME tags at both ends, if
  no closer hop recognizes a cell by accident.
\<close>

theorem cgo_delivery:
  assumes "list_all2 (cgo_paired P) layers relays" "list_all2 (cgo_paired P) relays' layers'" "fills fill"
    and "\<forall>(cmd, hop, m)\<in>set xs. unat hop < length layers \<and> unat hop < length relays' \<and>
      relay_msg_wf (ro_msg m) \<and> ro_streamid m \<noteq> Some 0 \<and> relay_encode V1 fill m = Inr (cell m)"
    and "out = outbound_run (cgo_client_outbound P) (cgo_relay_outbound P)
      (map (\<lambda>(cmd, hop, m). (cmd, hop, cell m)) xs) layers relays"
    and "inb = inbound_run (cgo_client_inbound P) (cgo_relay_inbound P)
      (map (\<lambda>(cmd, hop, m). (cmd, hop, cell m)) xs) layers' relays'"
    and "list_all2 (\<lambda>(cmd, hop, m) (r, r1, body). \<forall>k t. r1 = Inr (k, t) \<longrightarrow> unat hop \<le> k) xs out"
    and "list_all2 (\<lambda>(cmd, hop, m) (r, r1, body). \<forall>k t. r1 = Inr (k, t) \<longrightarrow> hop \<le> k) xs inb"
  shows "list_all2 (\<lambda>(cmd, hop, m) (r, r1, body). \<exists>tag. r = Inr tag \<and> r1 = Inr (unat hop, tag) \<and>
      decode_singleton V1 body = Inr m) xs out \<and>
    list_all2 (\<lambda>(cmd, hop, m) (r, r1, body). \<exists>tag. r = Inr tag \<and> r1 = Inr (hop, tag) \<and>
      decode_singleton V1 body = Inr m) xs inb"
proof
  let ?ys = "map (\<lambda>(cmd, hop, m). (cmd, hop, cell m)) xs"
  have ys: "\<forall>(cmd, hop, c)\<in>set ?ys. unat hop < length layers \<and> length c = 509"
    "\<forall>(cmd, hop, c)\<in>set ?ys. unat hop < length relays' \<and> length c = 509"
    using assms(3,4) encode_length by fastforce+
  have "list_all2 (\<lambda>(cmd, hop, c) (r, r1, body). \<forall>k t. r1 = Inr (k, t) \<longrightarrow> unat hop \<le> k) ?ys out"
    using assms(7) by (auto simp: list_all2_map1 elim!: list_all2_mono)
  then have "list_all2 (\<lambda>(cmd, hop, c) (r, r1, body). \<exists>tag. r = Inr tag \<and> r1 = Inr (unat hop, tag) \<and>
      agree_except cgo_auth c body) ?ys out"
    unfolding assms(5)
    by (intro cgo_out.outbound_delivered [OF _ _ _ assms(1) ys(1)]) (simp_all add: cgo_ops_defs)
  then show "list_all2 (\<lambda>(cmd, hop, m) (r, r1, body). \<exists>tag. r = Inr tag \<and> r1 = Inr (unat hop, tag) \<and>
      decode_singleton V1 body = Inr m) xs out"
    unfolding list_all2_map1
    by (rule list.rel_mono_strong) (use assms(3,4) decode_v1_authenticated in fastforce)
  have "list_all2 (\<lambda>(cmd, hop, c) (r, r1, body). \<forall>k t. r1 = Inr (k, t) \<longrightarrow> hop \<le> k) ?ys inb"
    using assms(8) by (auto simp: list_all2_map1 elim!: list_all2_mono)
  then have "list_all2 (\<lambda>(cmd, hop, c) (r, r1, body). \<exists>tag. r = Inr tag \<and> r1 = Inr (hop, tag) \<and>
      agree_except cgo_auth c body) ?ys inb"
    unfolding assms(6)
    by (intro cgo_in.inbound_delivered [OF _ _ _ assms(2) ys(2)]) (simp_all add: cgo_ops_defs)
  then show "list_all2 (\<lambda>(cmd, hop, m) (r, r1, body). \<exists>tag. r = Inr tag \<and> r1 = Inr (hop, tag) \<and>
      decode_singleton V1 body = Inr m) xs inb"
    unfolding list_all2_map1
    by (rule list.rel_mono_strong) (use assms(3,4) decode_v1_authenticated in fastforce)
qed

section \<open>An example\<close>

definition ex_cgo_prims :: "(byte, byte, byte) cgo_prims" where
  "ex_cgo_prims = \<lparr>et_key_size = 1, et_cipher_new = hd, encrypt_block = (\<lambda>k. map (xor k)), decrypt_block = (\<lambda>k. map (xor k)),
     prf_key_size = 1, prf_cipher_new = hd, ctr_keystream = (\<lambda>k iv p n. replicate n k),
     polyval_new = hd, polyval_update = (\<lambda>u bs. u), polyval_update_padded = (\<lambda>u bs. u),
     polyval_finalize = replicate 16\<rparr>"

lemma ex_cgo_prims_ok: "cgo_prims_ok ex_cgo_prims"
  by (auto simp: cgo_prims_ok_def ex_cgo_prims_def comp_def xor.assoc [symmetric])

definition ex_cgo_layer :: "byte \<Rightarrow> (byte, byte, byte) cgo_state" where
  "ex_cgo_layer k = \<lparr>cgo_uiv = \<lparr>uiv_j = \<lparr>et_kb = k, et_ku = k\<rparr>, uiv_s = \<lparr>prf_k = k, prf_b = k\<rparr>\<rparr>,
     cgo_nonce = replicate 16 k, cgo_tag = replicate 16 0\<rparr>"

lemma ex_cgo_paired: "list_all2 (cgo_paired ex_cgo_prims) [ex_cgo_layer 1, ex_cgo_layer 2] [ex_cgo_layer 1, ex_cgo_layer 2]"
  using ex_cgo_prims_ok by (simp add: cgo_paired_def ex_cgo_layer_def)

definition ex_v1_msg :: relay_msg_outer where
  "ex_v1_msg = \<lparr>ro_streamid = Some 5, ro_msg = RData [1, 2, 3]\<rparr>"

definition ex_v1_cell :: "relay_msg_outer \<Rightarrow> byte list" where
  "ex_v1_cell m = cell_start V1 m [1, 2, 3] @ replicate 485 0"

lemma ex_v1_encoded: "relay_encode V1 (\<lambda>n. replicate n 0) ex_v1_msg = Inr (ex_v1_cell ex_v1_msg)"
proof -
  have bs: "AnyRelayMsg_encode_onto (ro_msg ex_v1_msg) = ([1, 2, 3], Inr ())" by (simp add: ex_v1_msg_def wire_simps)
  have "replicate 485 (0 :: byte) = replicate 4 0 @ replicate 481 0" by (simp flip: replicate_add)
  moreover have "cell_fits V1 ex_v1_msg [1, 2, 3]" by (simp add: ex_v1_msg_def v1_sid_ok_def v1_room_def expects_streamid_def)
  ultimately show ?thesis
    using relay_encode_bytes(1) [OF bs, of V1] by (simp add: ex_v1_cell_def cell_padding_def) (simp add: ex_v1_msg_def v1_room_def)
qed

theorem cgo_delivery_witness:
  "list_all2 (\<lambda>(cmd, hop, m) (r, r1, body). \<exists>tag. r = Inr tag \<and> r1 = Inr (hop, tag) \<and> decode_singleton V1 body = Inr m)
     [(3 :: ChanCmd, 1 :: u8, ex_v1_msg), (3, 0, ex_v1_msg)]
     (inbound_run (cgo_client_inbound ex_cgo_prims) (cgo_relay_inbound ex_cgo_prims)
       [(3, 1, ex_v1_cell ex_v1_msg), (3, 0, ex_v1_cell ex_v1_msg)] [ex_cgo_layer 1, ex_cgo_layer 2] [ex_cgo_layer 1, ex_cgo_layer 2])"
proof -
  let ?xs = "[(3 :: ChanCmd, 1 :: u8, ex_v1_msg), (3, 0, ex_v1_msg)]" and ?ls = "[ex_cgo_layer 1, ex_cgo_layer 2]"
  let ?ys = "[(3, 1, ex_v1_cell ex_v1_msg), (3, 0, ex_v1_cell ex_v1_msg)]"
  let ?out = "outbound_run (cgo_client_outbound ex_cgo_prims) (cgo_relay_outbound ex_cgo_prims) ?ys ?ls ?ls"
  let ?inb = "inbound_run (cgo_client_inbound ex_cgo_prims) (cgo_relay_inbound ex_cgo_prims) ?ys ?ls ?ls"
  have fills: "fills (\<lambda>n. replicate n 0)" by (simp add: fills_def)
  have cells: "\<forall>(cmd, hop, m)\<in>set ?xs. unat hop < length ?ls \<and> unat hop < length ?ls \<and>
      relay_msg_wf (ro_msg m) \<and> ro_streamid m \<noteq> Some 0 \<and> relay_encode V1 (\<lambda>n. replicate n 0) m = Inr (ex_v1_cell m)"
    by (simp add: ex_v1_encoded) (simp add: ex_v1_msg_def)
  have "map (\<lambda>(r, r1, body). map_sum (\<lambda>_. ()) fst r1) ?out = [Inr 1, Inr 0]" by code_simp
  then have out: "list_all2 (\<lambda>(cmd, hop, m) (r, r1, body). \<forall>k t. r1 = Inr (k, t) \<longrightarrow> unat hop \<le> k) ?xs ?out"
    by (auto simp: map_eq_Cons_conv)
  have "map (\<lambda>(r, r1, body). map_sum (\<lambda>_. ()) fst r1) ?inb = [Inr 1, Inr 0]" by code_simp
  then have inb: "list_all2 (\<lambda>(cmd, hop, m) (r, r1, body). \<forall>k t. r1 = Inr (k, t) \<longrightarrow> hop \<le> k) ?xs ?inb"
    by (auto simp: map_eq_Cons_conv)
  have ys: "map (\<lambda>(cmd, hop, m). (cmd, hop, ex_v1_cell m)) ?xs = ?ys" by simp
  show ?thesis
    by (rule cgo_delivery [OF ex_cgo_paired ex_cgo_paired fills cells refl refl, unfolded ys, OF out inb, THEN conjunct2])
qed

end
