(* ===== verification/Consdiff.thy ===== *)
theory Consdiff
  imports Text
begin

text \<open>
  Consensus diffs: the crate \<open>tor-consdiff\<close> (\<open>src/lib.rs\<close>, \<open>src/err.rs\<close>). A diff is a header
  and a sequence of commands of the editor \<open>ed\<close>. The crate applies it in two ways: the
  reference \<open>apply_diff_trivial\<close> edits the document in place, and \<open>apply_diff\<close> moves lines
  from the end of the document to a reversed output, which takes linear time. Decoding of
  hexadecimal digits (the crate \<open>hex\<close>) and SHA3-256 are parameters. A \<open>usize\<close> has 64 bits; a
  line number is a \<open>nat\<close>, and the parser's checks against the greatest \<open>usize\<close> are written
  out.
\<close>

section \<open>Text of the standard library\<close>

text \<open>\<open>str::lines\<close>, \<open>split_ascii_whitespace\<close>, \<open>starts_with\<close> and \<open>line_is_ascii\<close>.\<close>

definition strip_cr :: "str \<Rightarrow> str" where
  "strip_cr l = (if l \<noteq> [] \<and> last l = 13 then butlast l else l)"

definition str_lines :: "str \<Rightarrow> str list" where
  "str_lines s =
     (let ps = split_on 10 s
      in map strip_cr (butlast ps) @ (if last ps = [] then [] else [last ps]))"

definition is_ascii_space :: "byte \<Rightarrow> bool" where
  "is_ascii_space b \<longleftrightarrow> b = 32 \<or> b = 9 \<or> b = 10 \<or> b = 12 \<or> b = 13"

fun ascii_words :: "str \<Rightarrow> str \<Rightarrow> str list" where
  "ascii_words acc [] = (if acc = [] then [] else [rev acc])"
| "ascii_words acc (b # bs) =
     (if is_ascii_space b then (if acc = [] then ascii_words [] bs else rev acc # ascii_words [] bs)
      else ascii_words (b # acc) bs)"

definition starts_with :: "str \<Rightarrow> str \<Rightarrow> bool" where
  "starts_with s p \<longleftrightarrow> take (length p) s = p"

definition line_is_ascii :: "str \<Rightarrow> bool" where
  "line_is_ascii s = list_all (\<lambda>b. b < 128) s"

section \<open>Types\<close>

datatype diff_error = BadDiff string | CantApply string | DiffPanic

datatype DiffCommand =
    Delete nat nat
  | DeleteToEnd nat
  | Replace nat nat "str list"
  | Insert nat "str list"

record DiffResult =
  d_post :: "byte list"
  dr_lines :: "str list"

datatype RangeEnd = RangeNum nat | DollarSign

definition LINE_MAX :: nat where
  "LINE_MAX = 2 ^ 64 - 1"

definition parse_usize :: "str \<Rightarrow> diff_error + nat" where
  "parse_usize s =
     (case parse_uint LINE_MAX s of
        None \<Rightarrow> Inl (BadDiff ''can't parse line number'')
      | Some n \<Rightarrow> Inr n)"

definition RangeEnd_from_str :: "str \<Rightarrow> diff_error + RangeEnd" where
  "RangeEnd_from_str s =
     (if s = str_bytes ''$'' then Inr DollarSign
      else (case parse_usize s of
              Inl e \<Rightarrow> Inl e
            | Inr v \<Rightarrow>
                if v = 0 then Inl (BadDiff ''can't parse line number'')
                else if v = LINE_MAX then Inl (BadDiff ''range cannot end at usize::MAX'')
                else Inr (RangeNum v)))"

definition looks_like_diff :: "str \<Rightarrow> bool" where
  "looks_like_diff s = starts_with s (str_bytes ''network-status-diff-version'')"

section \<open>Results\<close>

definition DiffResult_from_str :: "str \<Rightarrow> byte list \<Rightarrow> DiffResult" where
  "DiffResult_from_str s d = \<lparr>d_post = d, dr_lines = str_lines s\<rparr>"

definition DiffResult_new :: "byte list \<Rightarrow> DiffResult" where
  "DiffResult_new d = \<lparr>d_post = d, dr_lines = []\<rparr>"

definition push_reversed :: "str list \<Rightarrow> DiffResult \<Rightarrow> DiffResult" where
  "push_reversed ls r = r\<lparr>dr_lines := dr_lines r @ rev ls\<rparr>"

text \<open>\<open>slice::copy_within(src..end, dest)\<close>, which panics when the ranges do not fit.\<close>

definition copy_within :: "nat \<Rightarrow> nat \<Rightarrow> nat \<Rightarrow> 'a list \<Rightarrow> 'a list option" where
  "copy_within src fin dest xs =
     (if src \<le> fin \<and> fin \<le> length xs \<and> dest + (fin - src) \<le> length xs
      then Some (take dest xs @ take (fin - src) (drop src xs) @ drop (dest + (fin - src)) xs)
      else None)"

definition remove_lines :: "nat \<Rightarrow> nat \<Rightarrow> (DiffResult, diff_error, unit) eff" where
  "remove_lines first fin r =
     (let n = length (dr_lines r) in
      if first > n \<or> fin > n \<or> first = 0 \<or> fin = 0 then (Inl (CantApply ''line out of range''), r)
      else if fin < first then (Inl DiffPanic, r)
      else
        (let n_to_remove = fin - first + 1 in
         case (if fin \<noteq> n then copy_within fin n (first - 1) (dr_lines r) else Some (dr_lines r)) of
           None \<Rightarrow> (Inl DiffPanic, r)
         | Some ls \<Rightarrow> (Inr (), r\<lparr>dr_lines := take (n - n_to_remove) ls\<rparr>)))"

definition insert_at :: "nat \<Rightarrow> str list \<Rightarrow> (DiffResult, diff_error, unit) eff" where
  "insert_at pos ls r =
     (if pos > length (dr_lines r) + 1 \<or> pos = 0 then (Inl (CantApply ''position out of range''), r)
      else
        (let orig_len = length (dr_lines r);
             resized = dr_lines r @ replicate (length ls) []
         in case copy_within (pos - 1) orig_len (pos - 1 + length ls) resized of
              None \<Rightarrow> (Inl DiffPanic, r)
            | Some xs \<Rightarrow>
                (Inr (), r\<lparr>dr_lines := take (pos - 1) xs @ ls @ drop (pos + length ls - 1) xs\<rparr>)))"

definition DiffResult_display :: "DiffResult \<Rightarrow> str" where
  "DiffResult_display r = concat (map (\<lambda>l. l @ [10]) (dr_lines r))"

definition check_digest :: "(byte list \<Rightarrow> byte list) \<Rightarrow> DiffResult \<Rightarrow> diff_error + unit" where
  "check_digest sha3 r =
     (if sha3 (fold (\<lambda>l acc. acc @ l @ [10]) (dr_lines r) []) = d_post r then Inr ()
      else Inl (CantApply ''Wrong digest after applying diff''))"

section \<open>Commands\<close>

fun apply_to :: "DiffCommand \<Rightarrow> (DiffResult, diff_error, unit) eff" where
  "apply_to (Delete low high) = remove_lines low high"
| "apply_to (DeleteToEnd low) = (\<lambda>r. remove_lines low (length (dr_lines r)) r)"
| "apply_to (Replace low high ls) = ebind (remove_lines low high) (\<lambda>_. insert_at low ls)"
| "apply_to (Insert pos ls) = insert_at (pos + 1) ls"

fun cmd_lines :: "DiffCommand \<Rightarrow> str list option" where
  "cmd_lines (Replace _ _ ls) = Some ls"
| "cmd_lines (Insert _ ls) = Some ls"
| "cmd_lines _ = None"

fun following_lines :: "DiffCommand \<Rightarrow> nat option" where
  "following_lines (Delete _ high) = Some (high + 1)"
| "following_lines (Replace _ high _) = Some (high + 1)"
| "following_lines (DeleteToEnd _) = None"
| "following_lines (Insert pos _) = Some (pos + 1)"

fun first_removed_line :: "DiffCommand \<Rightarrow> nat" where
  "first_removed_line (Delete low _) = low"
| "first_removed_line (DeleteToEnd low) = low"
| "first_removed_line (Replace low _ _) = low"
| "first_removed_line (Insert pos _) = pos + 1"

fun is_insert :: "DiffCommand \<Rightarrow> bool" where
  "is_insert (Insert _ _) = True"
| "is_insert _ = False"

definition apply_transformation :: "DiffCommand \<Rightarrow> (DiffResult \<times> DiffResult, diff_error, unit) eff" where
  "apply_transformation c io =
     (case io of (inp, out) \<Rightarrow>
      let out = (case following_lines c of
                   None \<Rightarrow> Some out
                 | Some succ \<Rightarrow>
                     if succ - 1 \<le> length (dr_lines inp)
                     then Some (push_reversed (drop (succ - 1) (dr_lines inp)) out) else None)
      in case out of
           None \<Rightarrow> (Inl (CantApply ''ending line number didn't correspond to document''), io)
         | Some out \<Rightarrow>
             let out = (case cmd_lines c of None \<Rightarrow> out | Some ls \<Rightarrow> push_reversed ls out);
                 remove = first_removed_line c
             in if remove = 0 \<or> (\<not> is_insert c \<and> remove > length (dr_lines inp))
                then (Inl (CantApply ''starting line number didn't correspond to document''), (inp, out))
                else (Inr (), (inp\<lparr>dr_lines := take (remove - 1) (dr_lines inp)\<rparr>, out)))"

section \<open>Parsing\<close>

text \<open>The lines of a block, up to a line with a period.\<close>

fun take_block :: "str list \<Rightarrow> (str list, diff_error, str list) eff" where
  "take_block acc [] = (Inl (BadDiff ''unterminated block to insert''), [])"
| "take_block acc (l # ls) = (if l = str_bytes ''.'' then (Inr acc, ls) else take_block (acc @ [l]) ls)"

definition parse_range :: "str \<Rightarrow> diff_error + nat \<times> RangeEnd option" where
  "parse_range rng =
     (case split_once 44 rng of
        Some (lo, hi) \<Rightarrow>
          (case parse_usize lo of
             Inl e \<Rightarrow> Inl e
           | Inr low \<Rightarrow> (case RangeEnd_from_str hi of Inl e \<Rightarrow> Inl e | Inr h \<Rightarrow> Inr (low, Some h)))
      | None \<Rightarrow> (case parse_usize rng of Inl e \<Rightarrow> Inl e | Inr low \<Rightarrow> Inr (low, None)))"

definition command_of :: "byte \<Rightarrow> nat \<Rightarrow> RangeEnd option \<Rightarrow> diff_error + DiffCommand" where
  "command_of letter low high =
     (if letter = 100 then
        (case high of
           None \<Rightarrow> Inr (Delete low low)
         | Some (RangeNum h) \<Rightarrow> Inr (Delete low h)
         | Some DollarSign \<Rightarrow> Inr (DeleteToEnd low))
      else if letter = 99 then
        (case high of
           None \<Rightarrow> Inr (Replace low low [])
         | Some (RangeNum h) \<Rightarrow> Inr (Replace low h [])
         | Some DollarSign \<Rightarrow> Inl (BadDiff ''can't parse command line''))
      else if letter = 97 \<and> high = None then Inr (Insert low [])
      else Inl (BadDiff ''can't parse command line''))"

fun set_linebuf :: "str list \<Rightarrow> DiffCommand \<Rightarrow> DiffCommand" where
  "set_linebuf ls (Replace low high _) = Replace low high ls"
| "set_linebuf ls (Insert pos _) = Insert pos ls"
| "set_linebuf ls c = c"

definition parse_command :: "str \<Rightarrow> diff_error + DiffCommand" where
  "parse_command command =
     (if length command < 2 \<or> \<not> line_is_ascii command then Inl (BadDiff ''command too short'')
      else (case parse_range (butlast command) of
              Inl e \<Rightarrow> Inl e
            | Inr (low, high) \<Rightarrow>
                if low = LINE_MAX then Inl (BadDiff ''range cannot begin at usize::MAX'')
                else if (case high of Some (RangeNum h) \<Rightarrow> h < low | _ \<Rightarrow> False)
                then Inl (BadDiff ''mis-ordered lines in range'')
                else command_of (last command) low high))"

definition from_line_iterator :: "(str list, diff_error, DiffCommand option) eff" where
  "from_line_iterator ls =
     (case ls of
        [] \<Rightarrow> (Inr None, [])
      | command # rest \<Rightarrow>
          (case parse_command command of
             Inl e \<Rightarrow> (Inl e, rest)
           | Inr cmd \<Rightarrow>
               (case cmd_lines cmd of
                  None \<Rightarrow> (Inr (Some cmd), rest)
                | Some buf \<Rightarrow>
                    (case take_block buf rest of
                       (Inl e, rest') \<Rightarrow> (Inl e, rest')
                     | (Inr block, rest') \<Rightarrow> (Inr (Some (set_linebuf block cmd)), rest')))))"

record diff_iter =
  di_lines :: "str list"
  last_cmd_first_removed :: "nat option"

definition diff_iter_new :: "str list \<Rightarrow> diff_iter" where
  "diff_iter_new ls = \<lparr>di_lines = ls, last_cmd_first_removed = None\<rparr>"

definition diff_iter_next :: "(diff_iter, diff_error, DiffCommand option) eff" where
  "diff_iter_next it =
     (case from_line_iterator (di_lines it) of
        (Inl e, ls) \<Rightarrow> (Inl e, it\<lparr>di_lines := ls\<rparr>)
      | (Inr None, ls) \<Rightarrow> (Inr None, it\<lparr>di_lines := ls\<rparr>)
      | (Inr (Some c), ls) \<Rightarrow>
          if (case (last_cmd_first_removed it, following_lines c) of
                (Some _, None) \<Rightarrow> True
              | (Some a, Some b) \<Rightarrow> a < b
              | _ \<Rightarrow> False)
          then (Inl (BadDiff ''misordered commands''), it\<lparr>di_lines := ls\<rparr>)
          else (Inr (Some c), it\<lparr>di_lines := ls, last_cmd_first_removed := Some (first_removed_line c)\<rparr>))"

definition parse_diff_header ::
    "(str \<Rightarrow> byte list option) \<Rightarrow> (str list, diff_error, byte list \<times> byte list) eff" where
  "parse_diff_header hex_decode ls =
     (case ls of
        [] \<Rightarrow> (Inl (BadDiff ''unrecognized or missing header''), [])
      | line1 # ls1 \<Rightarrow>
          if line1 \<noteq> str_bytes ''network-status-diff-version 1''
          then (Inl (BadDiff ''unrecognized or missing header''), ls1)
          else (case ls1 of
             [] \<Rightarrow> (Inl (BadDiff ''header truncated''), [])
           | line2 # ls2 \<Rightarrow>
               if \<not> starts_with line2 (str_bytes ''hash '')
               then (Inl (BadDiff ''missing 'hash' line''), ls2)
               else (case ascii_words [] line2 of
                  [_, e1, e2] \<Rightarrow>
                    (case (hex_decode e1, hex_decode e2) of
                       (Some d1, Some d2) \<Rightarrow>
                         if length d1 = 32 \<and> length d2 = 32 then (Inr (d1, d2), ls2)
                         else (Inl (BadDiff ''wrong digest lengths on 'hash' line''), ls2)
                     | _ \<Rightarrow> (Inl (BadDiff ''invalid hexadecimal in 'hash' line''), ls2))
                | _ \<Rightarrow> (Inl (BadDiff ''invalid 'hash' line''), ls2))))"

section \<open>Applying a diff\<close>

lemma take_block_shrinks: "length (snd (take_block acc ls)) \<le> length ls"
  by (induction acc ls rule: take_block.induct) auto

lemma take_block_le: "take_block acc ls = (r, ls') \<Longrightarrow> length ls' < Suc (length ls)"
  using take_block_shrinks [of acc ls] by simp

lemma from_line_iterator_shrinks:
  "from_line_iterator ls = (Inr (Some c), ls') \<Longrightarrow> length ls' < length ls"
  by (auto simp: from_line_iterator_def le_imp_less_Suc dest: take_block_le
      split: list.splits sum.splits option.splits prod.splits)

lemma diff_iter_shrinks:
  "diff_iter_next it = (Inr (Some c), it') \<Longrightarrow> length (di_lines it') < length (di_lines it)"
  using from_line_iterator_shrinks
  by (fastforce simp: diff_iter_next_def split: prod.splits sum.splits option.splits if_splits)

text \<open>The loops over the commands. Every command takes at least one line off the diff.\<close>

function trivial_loop :: "diff_iter \<Rightarrow> (DiffResult, diff_error, unit) eff" where
  "trivial_loop it r =
     (case diff_iter_next it of
        (Inl e, _) \<Rightarrow> (Inl e, r)
      | (Inr None, _) \<Rightarrow> (Inr (), r)
      | (Inr (Some c), it') \<Rightarrow>
          (case apply_to c r of
             (Inl e, r') \<Rightarrow> (Inl e, r')
           | (Inr _, r') \<Rightarrow> trivial_loop it' r'))"
  by pat_completeness auto

termination trivial_loop
  by (relation "measure (\<lambda>(it, r). length (di_lines it))") (auto dest: diff_iter_shrinks [OF sym])

function transformation_loop :: "diff_iter \<Rightarrow> (DiffResult \<times> DiffResult, diff_error, unit) eff" where
  "transformation_loop it io =
     (case diff_iter_next it of
        (Inl e, _) \<Rightarrow> (Inl e, io)
      | (Inr None, _) \<Rightarrow> (Inr (), io)
      | (Inr (Some c), it') \<Rightarrow>
          (case apply_transformation c io of
             (Inl e, io') \<Rightarrow> (Inl e, io')
           | (Inr _, io') \<Rightarrow> transformation_loop it' io'))"
  by pat_completeness auto

termination transformation_loop
  by (relation "measure (\<lambda>(it, r). length (di_lines it))") (auto dest: diff_iter_shrinks [OF sym])

declare trivial_loop.simps [simp del] transformation_loop.simps [simp del]

definition apply_diff_trivial :: "(str \<Rightarrow> byte list option) \<Rightarrow> str \<Rightarrow> str \<Rightarrow> diff_error + DiffResult" where
  "apply_diff_trivial hex_decode input diff =
     (case parse_diff_header hex_decode (str_lines diff) of
        (Inl e, _) \<Rightarrow> Inl e
      | (Inr (_, d2), diff_lines) \<Rightarrow>
          (case trivial_loop (diff_iter_new diff_lines) (DiffResult_from_str input d2) of
             (Inl e, _) \<Rightarrow> Inl e
           | (Inr _, diffable) \<Rightarrow> Inr diffable))"

definition apply_diff ::
    "(str \<Rightarrow> byte list option) \<Rightarrow> str \<Rightarrow> str \<Rightarrow> byte list option \<Rightarrow> diff_error + DiffResult" where
  "apply_diff hex_decode input diff check_digest_in =
     (case parse_diff_header hex_decode (str_lines diff) of
        (Inl e, _) \<Rightarrow> Inl e
      | (Inr (d1, d2), diff_lines) \<Rightarrow>
          if (case check_digest_in of Some d_want \<Rightarrow> d1 \<noteq> d_want | None \<Rightarrow> False)
          then Inl (CantApply ''listed digest does not match document'')
          else (case transformation_loop (diff_iter_new diff_lines)
                       (DiffResult_from_str input (replicate 32 0), DiffResult_new d2) of
             (Inl e, _) \<Rightarrow> Inl e
           | (Inr _, (inp, out)) \<Rightarrow>
               let out = push_reversed (dr_lines inp) out
               in Inr (out\<lparr>dr_lines := rev (dr_lines out)\<rparr>)))"

end
