(* ===== verification/Consdiff_Laws.thy ===== *)
theory Consdiff_Laws
  imports Consdiff
begin

text \<open>
  The two ways of applying a consensus diff agree. Every command replaces a range of lines; the
  commands of a diff come in descending order, so the lines before the last range that was
  replaced are untouched, and the document is what is left of the input followed by the output
  read backwards.
\<close>

section \<open>Replacing a range\<close>

lemma remove_lines_ok:
  assumes "0 < low" "low \<le> high" "high \<le> length (dr_lines r)"
  shows "remove_lines low high r = (Inr (), r\<lparr>dr_lines := take (low - 1) (dr_lines r) @ drop high (dr_lines r)\<rparr>)"
proof (cases "high = length (dr_lines r)")
  case True
  then show ?thesis using assms by (auto simp: remove_lines_def Let_def)
next
  case False
  let ?ls = "dr_lines r"
  have "length (take (low - 1) ?ls @ drop high ?ls) = length ?ls - (high - low + 1)" using assms by simp
  then have "take (length ?ls - (high - low + 1)) ((take (low - 1) ?ls @ drop high ?ls) @ zs) =
      take (low - 1) ?ls @ drop high ?ls" for zs
    by (metis append_eq_conv_conj)
  then show ?thesis
    using assms False by (simp add: remove_lines_def copy_within_def Let_def)
qed

lemma remove_lines_err:
  assumes "low = 0 \<or> length (dr_lines r) < low \<or> length (dr_lines r) < high" "low \<le> high"
  shows "fst (remove_lines low high r) = Inl (CantApply ''line out of range'')"
  using assms by (auto simp: remove_lines_def Let_def)

lemma insert_at_ok:
  assumes "0 < pos" "pos \<le> length (dr_lines r) + 1"
  shows "insert_at pos ls r =
    (Inr (), r\<lparr>dr_lines := take (pos - 1) (dr_lines r) @ ls @ drop (pos - 1) (dr_lines r)\<rparr>)"
proof -
  obtain p where p: "pos = Suc p" using assms(1) by (cases pos) auto
  let ?n = "length (dr_lines r)" and ?xs = "dr_lines r @ replicate (length ls) []"
  let ?ys = "take (p + length ls) ?xs @ drop p (dr_lines r)"
  have "copy_within p ?n (p + length ls) ?xs = Some ?ys"
    using assms p by (simp add: copy_within_def)
  moreover have "take p ?ys = take p (dr_lines r)" "drop (p + length ls) ?ys = drop p (dr_lines r)"
    using assms p by simp_all
  ultimately show ?thesis using assms p by (simp add: insert_at_def Let_def)
qed

lemma insert_at_err:
  "pos = 0 \<or> length (dr_lines r) + 1 < pos \<Longrightarrow>
     fst (insert_at pos ls r) = Inl (CantApply ''position out of range'')"
  by (auto simp: insert_at_def)

section \<open>What the parser guarantees\<close>

fun cmd_wf :: "DiffCommand \<Rightarrow> bool" where
  "cmd_wf (Delete low high) = (low \<le> high)"
| "cmd_wf (Replace low high _) = (low \<le> high)"
| "cmd_wf _ = True"

lemma cmd_wf_set_linebuf [simp]: "cmd_wf (set_linebuf ls c) = cmd_wf c"
  by (cases c) auto

lemma parse_command_wf: "parse_command s = Inr c \<Longrightarrow> cmd_wf c"
  by (auto simp: parse_command_def command_of_def split: if_splits sum.splits option.splits RangeEnd.splits)

lemma from_line_iterator_wf: "from_line_iterator ls = (Inr (Some c), ls') \<Longrightarrow> cmd_wf c"
  using parse_command_wf
  by (fastforce simp: from_line_iterator_def split: list.splits sum.splits option.splits prod.splits)

definition in_order :: "nat option \<Rightarrow> DiffCommand \<Rightarrow> bool" where
  "in_order prev c =
     (case (prev, following_lines c) of
        (Some _, None) \<Rightarrow> False
      | (Some a, Some b) \<Rightarrow> b \<le> a
      | _ \<Rightarrow> True)"

lemma diff_iter_next_facts:
  assumes "diff_iter_next it = (Inr (Some c), it')"
  shows "cmd_wf c" "in_order (last_cmd_first_removed it) c"
    "last_cmd_first_removed it' = Some (first_removed_line c)"
  using assms from_line_iterator_wf
  by (fastforce simp: diff_iter_next_def in_order_def split: prod.splits sum.splits option.splits if_splits)+

section \<open>One command\<close>

definition agrees :: "nat option \<Rightarrow> DiffResult \<Rightarrow> DiffResult \<times> DiffResult \<Rightarrow> bool" where
  "agrees prev r io \<longleftrightarrow>
     dr_lines r = dr_lines (fst io) @ rev (dr_lines (snd io)) \<and> d_post r = d_post (snd io) \<and>
     (case prev of
        None \<Rightarrow> dr_lines (snd io) = []
      | Some a \<Rightarrow> length (dr_lines (fst io)) + 1 = a)"

fun err_kind :: "diff_error \<Rightarrow> diff_error" where
  "err_kind (CantApply _) = CantApply []"
| "err_kind e = e"

text \<open>The lines a command replaces: those after the first \<open>k\<close>, before the last ones.\<close>

lemma agrees_splice:
  assumes "agrees prev r (inp, out)" "k \<le> h" "h \<le> length (dr_lines inp)"
  shows "agrees (Some (k + 1)) (r\<lparr>dr_lines := take k (dr_lines r) @ new @ drop h (dr_lines r)\<rparr>)
    (inp\<lparr>dr_lines := take k (dr_lines inp)\<rparr>, push_reversed new (push_reversed (drop h (dr_lines inp)) out))"
  using assms by (auto simp: agrees_def push_reversed_def)

lemma range_agrees:
  assumes "agrees prev r (inp, out)" "in_order prev c" "following_lines c = Some (h + 1)"
  shows "h \<le> length (dr_lines r) \<longleftrightarrow> h \<le> length (dr_lines inp)"
  using assms by (auto simp: agrees_def in_order_def split: option.splits)

text \<open>Both versions of a command succeed or fail together, and stay in agreement.\<close>

lemma command_agrees:
  assumes A: "agrees prev r (inp, out)" and "in_order prev c" "cmd_wf c"
  obtains (ok) r' io' where "apply_to c r = (Inr (), r')" "apply_transformation c (inp, out) = (Inr (), io')"
      "agrees (Some (first_removed_line c)) r' io'"
    | (err) m m' where "fst (apply_to c r) = Inl (CantApply m)" "fst (apply_transformation c (inp, out)) = Inl (CantApply m')"
proof (cases c)
  case (Delete low high)
  have le: "high \<le> length (dr_lines r) \<longleftrightarrow> high \<le> length (dr_lines inp)"
    using range_agrees [OF A assms(2)] Delete by simp
  show thesis
  proof (cases "0 < low \<and> high \<le> length (dr_lines r)")
    case True
    have p: "push_reversed [] x = x" for x by (simp add: push_reversed_def)
    show thesis
      using ok agrees_splice [OF A, of "low - 1" high "[]", unfolded p] True assms(3) Delete le
      by (simp add: remove_lines_ok apply_transformation_def)
  next
    case False
    then have "fst (apply_to c r) = Inl (CantApply ''line out of range'')"
      using Delete assms(3) by (auto intro!: remove_lines_err)
    then show thesis using err False Delete le by (auto simp: apply_transformation_def Let_def)
  qed
next
  case (DeleteToEnd low)
  then have prev: "prev = None" using assms(2) by (cases prev) (simp_all add: in_order_def)
  then have eq: "dr_lines r = dr_lines inp" "dr_lines out = []" "d_post r = d_post out"
    using A by (simp_all add: agrees_def)
  show thesis
  proof (cases "0 < low \<and> low \<le> length (dr_lines inp)")
    case True
    show thesis
      by (rule ok [of "r\<lparr>dr_lines := take (low - 1) (dr_lines inp)\<rparr>"
            "(inp\<lparr>dr_lines := take (low - 1) (dr_lines inp)\<rparr>, out)"])
        (use True DeleteToEnd eq in \<open>auto simp: remove_lines_ok apply_transformation_def agrees_def\<close>)
  next
    case False
    then have "fst (apply_to c r) = Inl (CantApply ''line out of range'')"
      using DeleteToEnd eq by (auto simp: remove_lines_def)
    then show thesis using err False DeleteToEnd by (auto simp: apply_transformation_def Let_def)
  qed
next
  case (Replace low high ls)
  have le: "high \<le> length (dr_lines r) \<longleftrightarrow> high \<le> length (dr_lines inp)"
    using range_agrees [OF A assms(2)] Replace by simp
  show thesis
  proof (cases "0 < low \<and> high \<le> length (dr_lines r)")
    case True
    let ?cut = "r\<lparr>dr_lines := take (low - 1) (dr_lines r) @ drop high (dr_lines r)\<rparr>"
    have wf: "low \<le> high" using Replace assms(3) by simp
    then have len: "length (take (low - 1) (dr_lines r)) = low - 1" using True by (auto simp: min_def)
    have "insert_at low ls ?cut = (Inr (), r\<lparr>dr_lines := take (low - 1) (dr_lines r) @ ls @ drop high (dr_lines r)\<rparr>)"
    proof -
      have "low \<le> Suc (low + length (dr_lines r) - Suc high)" using True by linarith
      then show ?thesis using insert_at_ok [of low ?cut ls] True len by (simp del: length_take)
    qed
    then have "apply_to c r = (Inr (), r\<lparr>dr_lines := take (low - 1) (dr_lines r) @ ls @ drop high (dr_lines r)\<rparr>)"
      using True wf Replace by (simp add: ebind_def remove_lines_ok)
    then show thesis
      using ok agrees_splice [OF A, of "low - 1" high ls] True assms(3) Replace le
      by (simp add: apply_transformation_def)
  next
    case False
    then have "fst (remove_lines low high r) = Inl (CantApply ''line out of range'')"
      using Replace assms(3) by (auto intro!: remove_lines_err)
    then have "fst (apply_to c r) = Inl (CantApply ''line out of range'')"
      using Replace by (auto simp: ebind_def split: prod.splits sum.splits)
    then show thesis using err False Replace le by (auto simp: apply_transformation_def Let_def)
  qed
next
  case (Insert pos ls)
  have le: "pos \<le> length (dr_lines r) \<longleftrightarrow> pos \<le> length (dr_lines inp)"
    using range_agrees [OF A assms(2)] Insert by simp
  show thesis
  proof (cases "pos \<le> length (dr_lines r)")
    case True
    then show thesis
      using ok agrees_splice [OF A, of pos pos ls] True Insert le
      by (simp add: insert_at_ok apply_transformation_def)
  next
    case False
    then have "fst (apply_to c r) = Inl (CantApply ''position out of range'')"
      using Insert by (simp add: insert_at_err)
    then show thesis using err False Insert le by (simp add: apply_transformation_def)
  qed
qed

section \<open>All commands\<close>

definition loop_results ::
    "(diff_error + unit) \<times> DiffResult \<Rightarrow> (diff_error + unit) \<times> DiffResult \<times> DiffResult \<Rightarrow> bool" where
  "loop_results t f \<longleftrightarrow>
     (case (fst t, fst f) of
        (Inr _, Inr _) \<Rightarrow>
          dr_lines (snd t) = dr_lines (fst (snd f)) @ rev (dr_lines (snd (snd f))) \<and> d_post (snd t) = d_post (snd (snd f))
      | (Inl e, Inl e') \<Rightarrow> err_kind e = err_kind e' \<and> e \<noteq> DiffPanic
      | _ \<Rightarrow> False)"

lemma err_kind_panic [simp]: "err_kind e = DiffPanic \<longleftrightarrow> e = DiffPanic"
  by (cases e) auto

text \<open>The parser never panics.\<close>

lemma parse_usize_err: "parse_usize s \<noteq> Inl DiffPanic"
  by (simp add: parse_usize_def split: option.split)

lemma RangeEnd_err: "RangeEnd_from_str s \<noteq> Inl DiffPanic"
  using parse_usize_err [of s] by (auto simp: RangeEnd_from_str_def split: sum.split)

lemma parse_range_err: "parse_range s \<noteq> Inl DiffPanic"
  using parse_usize_err RangeEnd_err by (auto simp: parse_range_def split: option.split sum.split)

lemma command_of_err: "command_of b low high \<noteq> Inl DiffPanic"
  by (simp add: command_of_def split: option.split RangeEnd.split)

lemma parse_command_err: "parse_command s \<noteq> Inl DiffPanic"
  using parse_range_err command_of_err by (auto simp: parse_command_def split: sum.split prod.split)

lemma take_block_err: "fst (take_block acc ls) \<noteq> Inl DiffPanic"
  by (induction acc ls rule: take_block.induct) auto

lemma from_line_iterator_err: "fst (from_line_iterator ls) \<noteq> Inl DiffPanic"
proof (cases ls)
  case (Cons command rest)
  then show ?thesis
    using parse_command_err [of command]
    by (cases "parse_command command")
      (auto simp: from_line_iterator_def split: option.split prod.split sum.split, metis fst_conv take_block_err)
qed (simp add: from_line_iterator_def)

lemma diff_iter_next_err: "diff_iter_next it = (Inl e, it') \<Longrightarrow> e \<noteq> DiffPanic"
  using from_line_iterator_err [of "di_lines it"]
  by (cases "from_line_iterator (di_lines it)")
    (auto simp: diff_iter_next_def split: sum.splits option.splits if_splits)

lemma loops_agree:
  assumes "agrees (last_cmd_first_removed it) r io"
  shows "loop_results (trivial_loop it r) (transformation_loop it io)"
  using assms
proof (induction it r arbitrary: io rule: trivial_loop.induct)
  case (1 it r)
  obtain inp out where io: "io = (inp, out)" by force
  note unfold = trivial_loop.simps [of it r] transformation_loop.simps [of it "(inp, out)"]
  obtain res it' where nxt: "diff_iter_next it = (res, it')" by force
  consider (fail) e where "res = Inl e" | (stop) "res = Inr None" | (cmd) c where "res = Inr (Some c)"
    by (cases res) (blast, metis option.exhaust)
  then show ?case
  proof cases
    case fail
    then show ?thesis using nxt diff_iter_next_err [of it] io by (simp add: unfold loop_results_def)
  next
    case stop
    then show ?thesis using nxt 1(2) io by (simp add: unfold loop_results_def agrees_def)
  next
    case (cmd c)
    note facts = diff_iter_next_facts [OF nxt [unfolded cmd]]
    from 1(2) [unfolded io] facts(2,1) show ?thesis
    proof (cases rule: command_agrees)
      case (ok r' io')
      have "loop_results (trivial_loop it' r') (transformation_loop it' io')"
        by (rule "1.IH" [OF nxt [symmetric] cmd refl ok(1) [symmetric] refl]) (use ok(3) facts(3) in simp)
      then show ?thesis using nxt cmd ok(1,2) io by (simp add: unfold)
    next
      case (err m m')
      then show ?thesis
        using nxt cmd io by (cases "apply_to c r"; cases "apply_transformation c (inp, out)") (simp add: unfold loop_results_def)
    qed
  qed
qed

section \<open>Properties\<close>

lemma fold_lines: "fold (\<lambda>l acc. acc @ l @ [10]) ls acc = acc @ concat (map (\<lambda>l. l @ [10]) ls)"
  by (induction ls arbitrary: acc) auto


text \<open>C8. Applying a consensus diff: the linear-time algorithm gives exactly what the reference
  algorithm gives. For every document and every diff, well formed or not, both return the same
  lines and the same expected digest, or both reject the diff as malformed with the same message,
  or both find that it does not apply; neither ever reaches a slice operation that panics. Asking
  for a digest of the input only adds the comparison with the digest in the header, and the digest
  of a result is checked over exactly the text that it prints.\<close>

theorem apply_diff_equals_reference:
  "map_sum err_kind id (apply_diff hex_decode input diff None) =
     map_sum err_kind id (apply_diff_trivial hex_decode input diff) \<and>
   apply_diff hex_decode input diff None \<noteq> Inl DiffPanic \<and>
   apply_diff hex_decode input diff (Some d) =
     (case parse_diff_header hex_decode (str_lines diff) of
        (Inr (d1, d2), _) \<Rightarrow>
          if d1 = d then apply_diff hex_decode input diff None
          else Inl (CantApply ''listed digest does not match document'')
      | (Inl e, _) \<Rightarrow> Inl e) \<and>
   (check_digest sha3 r = Inr () \<longleftrightarrow> sha3 (DiffResult_display r) = d_post r)"
proof (cases "parse_diff_header hex_decode (str_lines diff)")
  case (Pair res ls)
  show ?thesis
  proof (cases res)
    case (Inl e)
    then have "e \<noteq> DiffPanic"
      using Pair by (auto simp: parse_diff_header_def split: list.splits if_splits option.splits)
    then show ?thesis
      using Pair Inl by (simp add: apply_diff_def apply_diff_trivial_def check_digest_def DiffResult_display_def fold_lines)
  next
    case (Inr ds)
    obtain d1 d2 where ds: "ds = (d1, d2)" by force
    let ?it = "diff_iter_new ls" and ?io = "(DiffResult_from_str input (replicate 32 0), DiffResult_new d2)"
    let ?r = "DiffResult_from_str input d2"
    have "agrees (last_cmd_first_removed ?it) ?r ?io"
      by (simp add: agrees_def diff_iter_new_def DiffResult_from_str_def DiffResult_new_def)
    then have loops: "loop_results (trivial_loop ?it ?r) (transformation_loop ?it ?io)" by (rule loops_agree)
    obtain t r' where t: "trivial_loop ?it ?r = (t, r')" by force
    obtain f inp out where f: "transformation_loop ?it ?io = (f, inp, out)" by (metis prod_cases3)
    have "(out\<lparr>dr_lines := rev (dr_lines out @ rev (dr_lines inp))\<rparr>) = r'" if "f = Inr ()" "t = Inr ()"
      using loops that t f by (simp add: loop_results_def)
    then show ?thesis
      using loops t f Pair Inr ds
      by (cases t; cases f)
        (auto simp: apply_diff_def apply_diff_trivial_def loop_results_def push_reversed_def check_digest_def
          DiffResult_display_def fold_lines)
  qed
qed

end
