(* ===== verification/Protover.thy ===== *)
theory Protover
  imports Text "HOL-Library.List_Lexorder" "HOL-Library.Product_Lexorder"
begin

text \<open>
  The crate \<open>tor-protover\<close> (\<open>src/crates/tor-protover/src/lib.rs\<close>): sets of supported
  subprotocol versions. A set holds one 64-bit mask for each recognized protocol and a sorted
  vector of named masks for the others. The theory models the queries, the set operations, the
  parser of the consensus format and the printer, whose loop shifts a mask by runs of zeros
  and ones. The intern cache returns a pointer to an equal value and is the identity here.
\<close>

section \<open>Protocol names and versions\<close>

text \<open>The generated integer type \<open>ProtoKind\<close>: a \<open>u8\<close> with names for some values.\<close>

type_synonym ProtoKind = u8

definition ProtoKind_names :: "(ProtoKind \<times> str) list" where
  "ProtoKind_names =
     [(0, str_bytes ''Link''), (1, str_bytes ''LinkAuth''), (2, str_bytes ''Relay''),
      (3, str_bytes ''DirCache''), (4, str_bytes ''HSDir''), (5, str_bytes ''HSIntro''),
      (6, str_bytes ''HSRend''), (7, str_bytes ''Desc''), (8, str_bytes ''Microdesc''),
      (9, str_bytes ''Cons''), (10, str_bytes ''Padding''), (11, str_bytes ''FlowCtrl''),
      (12, str_bytes ''Conflux'')]"

definition ProtoKind_to_str :: "ProtoKind \<Rightarrow> str option" where
  "ProtoKind_to_str k = map_of ProtoKind_names k"

definition ProtoKind_from_name :: "str \<Rightarrow> ProtoKind option" where
  "ProtoKind_from_name s = map_option fst (find (\<lambda>kn. snd kn = s) ProtoKind_names)"

definition ProtoKind_display :: "ProtoKind \<Rightarrow> str" where
  "ProtoKind_display k =
     (case ProtoKind_to_str k of Some s \<Rightarrow> s | None \<Rightarrow> dec_of_nat (unat k))"

definition N_RECOGNIZED :: nat where "N_RECOGNIZED = 13"

definition MAX_VER :: nat where "MAX_VER = 63"

record NamedSubver =
  ns_kind :: ProtoKind
  ns_version :: u8

text \<open>The constructor asserts that its arguments are in range; \<open>None\<close> is the panic.\<close>

definition NamedSubver_new :: "ProtoKind \<Rightarrow> u8 \<Rightarrow> NamedSubver option" where
  "NamedSubver_new kind version =
     (if unat kind < N_RECOGNIZED \<and> unat version \<le> MAX_VER
      then Some \<lparr>ns_kind = kind, ns_version = version\<rparr> else None)"

datatype Protocol = Proto ProtoKind | Unrecognized str

text \<open>The derived order: the recognized protocols by number, then the others by name.\<close>

instantiation Protocol :: linorder
begin

definition less_eq_Protocol :: "Protocol \<Rightarrow> Protocol \<Rightarrow> bool" where
  "less_eq_Protocol p q =
     (case p of
        Proto i \<Rightarrow> (case q of Proto j \<Rightarrow> i \<le> j | Unrecognized t \<Rightarrow> True)
      | Unrecognized s \<Rightarrow> (case q of Proto j \<Rightarrow> False | Unrecognized t \<Rightarrow> s \<le> t))"

definition less_Protocol :: "Protocol \<Rightarrow> Protocol \<Rightarrow> bool" where
  "less_Protocol p q \<longleftrightarrow> p \<le> q \<and> \<not> q \<le> p"

instance
  by standard (auto simp: less_eq_Protocol_def less_Protocol_def split: Protocol.splits)

end

definition is_unrecognized :: "Protocol \<Rightarrow> str \<Rightarrow> bool" where
  "is_unrecognized p s = (case p of Unrecognized s2 \<Rightarrow> s2 = s | Proto _ \<Rightarrow> False)"

definition Protocol_to_str :: "Protocol \<Rightarrow> str" where
  "Protocol_to_str p =
     (case p of
        Proto k \<Rightarrow> (case ProtoKind_to_str k of Some s \<Rightarrow> s | None \<Rightarrow> str_bytes ''<bug>'')
      | Unrecognized s \<Rightarrow> s)"

record SubprotocolEntry =
  se_proto :: Protocol
  se_supported :: u64

record ProtocolsInner =
  recognized :: "u64 list"
  unrecognized :: "SubprotocolEntry list"

definition ProtocolsInner_default :: ProtocolsInner where
  "ProtocolsInner_default = \<lparr>recognized = replicate N_RECOGNIZED 0, unrecognized = []\<rparr>"

text \<open>\<open>Vec::sort\<close> with the derived order of an entry: by protocol, then by mask.\<close>

definition entries_sort :: "SubprotocolEntry list \<Rightarrow> SubprotocolEntry list" where
  "entries_sort es = sort_key (\<lambda>e. (se_proto e, se_supported e)) es"

section \<open>Queries\<close>

definition supports_recognized_ver :: "ProtocolsInner \<Rightarrow> nat \<Rightarrow> u8 \<Rightarrow> bool" where
  "supports_recognized_ver p proto ver =
     (if MAX_VER < unat ver then False
      else if length (recognized p) \<le> proto then False
      else and (recognized p ! proto) (push_bit (unat ver) 1) \<noteq> 0)"

definition supports_unrecognized_ver :: "ProtocolsInner \<Rightarrow> str \<Rightarrow> u8 \<Rightarrow> bool" where
  "supports_unrecognized_ver p proto ver =
     (if MAX_VER < unat ver then False
      else (case find (\<lambda>ent. is_unrecognized (se_proto ent) proto) (unrecognized p) of
              Some e \<Rightarrow> and (se_supported e) (push_bit (unat ver) 1) \<noteq> 0
            | None \<Rightarrow> False))"

definition protocols_is_empty :: "ProtocolsInner \<Rightarrow> bool" where
  "protocols_is_empty p \<longleftrightarrow>
     list_all (\<lambda>v. v = 0) (recognized p) \<and> list_all (\<lambda>e. se_supported e = 0) (unrecognized p)"

definition supports_known_subver :: "ProtocolsInner \<Rightarrow> ProtoKind \<Rightarrow> u8 \<Rightarrow> bool" where
  "supports_known_subver p proto ver = supports_recognized_ver p (unat proto) ver"

definition supports_subver :: "ProtocolsInner \<Rightarrow> str \<Rightarrow> u8 \<Rightarrow> bool" where
  "supports_subver p proto ver =
     (case ProtoKind_from_name proto of
        Some k \<Rightarrow> supports_recognized_ver p (unat k) ver
      | None \<Rightarrow> supports_unrecognized_ver p proto ver)"

definition supports_named_subver :: "ProtocolsInner \<Rightarrow> NamedSubver \<Rightarrow> bool" where
  "supports_named_subver p protover =
     supports_known_subver p (ns_kind protover) (ns_version protover)"

section \<open>Set operations\<close>

definition find_entry :: "Protocol \<Rightarrow> SubprotocolEntry list \<Rightarrow> SubprotocolEntry option" where
  "find_entry p es = find (\<lambda>e. se_proto e = p) es"

definition protocols_difference :: "ProtocolsInner \<Rightarrow> ProtocolsInner \<Rightarrow> ProtocolsInner" where
  "protocols_difference a b =
     \<lparr>recognized =
        map (\<lambda>i. and (recognized a ! i) (not (recognized b ! i))) [0..<N_RECOGNIZED],
      unrecognized =
        filter (\<lambda>ent. se_supported ent \<noteq> 0)
          (map (\<lambda>ent. case find_entry (se_proto ent) (unrecognized b) of
                        Some oe \<Rightarrow> ent\<lparr>se_supported := and (se_supported ent) (not (se_supported oe))\<rparr>
                      | None \<Rightarrow> ent) (unrecognized a))\<rparr>"

fun union_entry :: "SubprotocolEntry list \<Rightarrow> SubprotocolEntry \<Rightarrow> SubprotocolEntry list" where
  "union_entry [] ent = [ent]"
| "union_entry (e # es) ent =
     (if se_proto e = se_proto ent
      then e\<lparr>se_supported := or (se_supported e) (se_supported ent)\<rparr> # es
      else e # union_entry es ent)"

definition protocols_union :: "ProtocolsInner \<Rightarrow> ProtocolsInner \<Rightarrow> ProtocolsInner" where
  "protocols_union a b =
     \<lparr>recognized = map (\<lambda>i. or (recognized a ! i) (recognized b ! i)) [0..<N_RECOGNIZED],
      unrecognized = entries_sort (foldl union_entry (unrecognized a) (unrecognized b))\<rparr>"

definition protocols_intersection :: "ProtocolsInner \<Rightarrow> ProtocolsInner \<Rightarrow> ProtocolsInner" where
  "protocols_intersection a b =
     \<lparr>recognized = map (\<lambda>i. and (recognized a ! i) (recognized b ! i)) [0..<N_RECOGNIZED],
      unrecognized =
        entries_sort (List.map_filter
          (\<lambda>ent. case find_entry (se_proto ent) (unrecognized b) of
                   Some oe \<Rightarrow>
                     (let supported = and (se_supported ent) (se_supported oe)
                      in if supported \<noteq> 0
                         then Some \<lparr>se_proto = se_proto ent, se_supported = supported\<rparr> else None)
                 | None \<Rightarrow> None) (unrecognized a))\<rparr>"

text \<open>\<open>FromIterator\<close>: \<open>None\<close> is the panic of one of the two assertions.\<close>

fun protocols_from_iter_loop :: "u64 list \<Rightarrow> NamedSubver list \<Rightarrow> u64 list option" where
  "protocols_from_iter_loop r [] = Some r"
| "protocols_from_iter_loop r (n # ns) =
     (let proto_idx = unat (ns_kind n) in
      if proto_idx < N_RECOGNIZED \<and> unat (ns_version n) \<le> MAX_VER
      then protocols_from_iter_loop
             (r[proto_idx := or (r ! proto_idx) (push_bit (unat (ns_version n)) 1)]) ns
      else None)"

definition protocols_from_iter :: "NamedSubver list \<Rightarrow> ProtocolsInner option" where
  "protocols_from_iter ns =
     map_option (\<lambda>r. \<lparr>recognized = r, unrecognized = []\<rparr>)
       (protocols_from_iter_loop (replicate N_RECOGNIZED 0) ns)"

section \<open>Parsing\<close>

text \<open>The errors of the parser, and a constructor for a failed \<open>assert!\<close>.\<close>

datatype ParseError = OutOfRange | Duplicate | Malformed | AssertFailed

definition bitrange :: "nat \<Rightarrow> nat \<Rightarrow> ParseError + u64" where
  "bitrange lo hi =
     (if lo \<le> hi \<and> lo \<le> 63 \<and> hi \<le> 63 then
        Inr (push_bit lo (drop_bit (63 - hi + lo) (push_bit (63 - hi) (not 0))))
      else Inl AssertFailed)"

definition is_good_number :: "str \<Rightarrow> bool" where
  "is_good_number n \<longleftrightarrow> list_all is_ascii_digit n \<and> \<not> (n \<noteq> [] \<and> hd n = 48)"

definition U64_MAX :: nat where "U64_MAX = 2 ^ 64 - 1"

text \<open>One element of the comma-separated list: a version or a range of versions.\<close>

definition parse_version_range :: "str \<Rightarrow> ParseError + nat \<times> nat" where
  "parse_version_range ent =
     (let (lo_s, hi_s) = (case split_once 0x2D ent of Some lr \<Rightarrow> lr | None \<Rightarrow> (ent, ent)) in
      if \<not> is_good_number lo_s then Inl Malformed
      else if \<not> is_good_number hi_s then Inl Malformed
      else (case parse_uint U64_MAX lo_s of None \<Rightarrow> Inl Malformed | Some lo \<Rightarrow>
           (case parse_uint U64_MAX hi_s of None \<Rightarrow> Inl Malformed | Some hi \<Rightarrow>
            if MAX_VER < lo \<or> MAX_VER < hi then Inl OutOfRange
            else if hi < lo then Inl Malformed
            else Inr (lo, hi))))"

fun parse_versions :: "u64 \<Rightarrow> str list \<Rightarrow> ParseError + u64" where
  "parse_versions supported [] = Inr supported"
| "parse_versions supported (ent # ents) =
     (case parse_version_range ent of Inl e \<Rightarrow> Inl e | Inr (lo, hi) \<Rightarrow>
     (case bitrange lo hi of Inl e \<Rightarrow> Inl e | Inr msk \<Rightarrow>
      if and supported msk \<noteq> 0 then Inl Duplicate
      else parse_versions (or supported msk) ents))"

definition SubprotocolEntry_from_str :: "str \<Rightarrow> ParseError + SubprotocolEntry" where
  "SubprotocolEntry_from_str s =
     (case split_once 0x3D s of None \<Rightarrow> Inl Malformed | Some (name, versions) \<Rightarrow>
      let proto = (case ProtoKind_from_name name of Some p \<Rightarrow> Proto p | None \<Rightarrow> Unrecognized name)
      in if versions = [] then Inr \<lparr>se_proto = proto, se_supported = 0\<rparr>
         else (case parse_versions 0 (split_on 0x2C versions) of
                 Inl e \<Rightarrow> Inl e
               | Inr supported \<Rightarrow> Inr \<lparr>se_proto = proto, se_supported = supported\<rparr>))"

definition protocols_add ::
    "ProtocolsInner \<times> u64 \<Rightarrow> SubprotocolEntry \<Rightarrow> ParseError + ProtocolsInner \<times> u64" where
  "protocols_add st ent =
     (case st of (p, foundmask) \<Rightarrow>
      (case se_proto ent of
         Proto k \<Rightarrow>
           (if \<not> unat k < N_RECOGNIZED then Inl AssertFailed
            else if and foundmask (push_bit (unat k) 1) \<noteq> 0 then Inl Duplicate
            else Inr (p\<lparr>recognized := (recognized p)[unat k := se_supported ent]\<rparr>,
                      or foundmask (push_bit (unat k) 1)))
       | Unrecognized s \<Rightarrow>
           (if list_ex (\<lambda>e. is_unrecognized (se_proto e) s) (unrecognized p) then Inl Duplicate
            else if se_supported ent \<noteq> 0
                 then Inr (p\<lparr>unrecognized := unrecognized p @ [ent]\<rparr>, foundmask)
                 else Inr (p, foundmask))))"

fun protocols_parse_loop ::
    "ProtocolsInner \<times> u64 \<Rightarrow> str list \<Rightarrow> ParseError + ProtocolsInner \<times> u64" where
  "protocols_parse_loop st [] = Inr st"
| "protocols_parse_loop st (ent # ents) =
     (if ent = [] then protocols_parse_loop st ents
      else (case SubprotocolEntry_from_str ent of Inl e \<Rightarrow> Inl e | Inr s \<Rightarrow>
           (case protocols_add st s of Inl e \<Rightarrow> Inl e | Inr st' \<Rightarrow>
            protocols_parse_loop st' ents)))"

definition protocols_from_str :: "str \<Rightarrow> ParseError + ProtocolsInner" where
  "protocols_from_str s =
     (case protocols_parse_loop (ProtocolsInner_default, 0) (split_on 0x20 s) of
        Inl e \<Rightarrow> Inl e
      | Inr (p, _) \<Rightarrow> Inr (p\<lparr>unrecognized := entries_sort (unrecognized p)\<rparr>))"

section \<open>Printing\<close>

text \<open>\<open>u64::trailing_zeros\<close> and \<open>u64::trailing_ones\<close>.\<close>

definition trailing_zeros :: "u64 \<Rightarrow> nat" where
  "trailing_zeros w = length (takeWhile (\<lambda>i. \<not> bit w i) [0..<64])"

definition trailing_ones :: "u64 \<Rightarrow> nat" where
  "trailing_ones w = length (takeWhile (\<lambda>i. bit w i) [0..<64])"

definition dump_append :: "nat \<Rightarrow> nat \<Rightarrow> str" where
  "dump_append lo hi =
     (if lo = hi then dec_of_nat lo else dec_of_nat lo @ 0x2D # dec_of_nat hi)"

text \<open>The loop of \<open>dumpmask\<close>, as the list of the strings it pushes. It ends because the
  shift by the run of ones leaves a smaller mask, which is the lemma before its termination
  proof.\<close>

function dumpmask_loop :: "u64 \<Rightarrow> nat \<Rightarrow> str list" where
  "dumpmask_loop msk shift =
     (if msk = 0 then []
      else let zeros = trailing_zeros msk;
               msk = drop_bit zeros msk;
               shift = shift + zeros;
               ones = trailing_ones msk;
               piece = dump_append shift (shift + ones - 1);
               shift = shift + ones
           in if ones = 64 then [piece]
              else piece # dumpmask_loop (drop_bit ones msk) shift)"
  by pat_completeness auto

text \<open>The position of the first element of a run is its length.\<close>

lemma length_takeWhile_upt:
  shows "i < length (takeWhile P [0..<n]) \<Longrightarrow> P i"
    and "length (takeWhile P [0..<n]) \<le> n"
    and "length (takeWhile P [0..<n]) < n \<Longrightarrow> \<not> P (length (takeWhile P [0..<n]))"
proof -
  let ?t = "takeWhile P [0..<n]"
  show le: "length ?t \<le> n" using length_takeWhile_le [of P "[0..<n]"] by simp
  show "P i" if i: "i < length ?t"
  proof -
    have "?t ! i = i" using i le takeWhile_nth [of i P "[0..<n]"] by simp
    with nth_mem [OF i] show ?thesis by (auto dest: set_takeWhileD)
  qed
  show "\<not> P (length ?t)" if "length ?t < n"
    using nth_length_takeWhile [of P "[0..<n]"] that by simp
qed

lemma bit_u64_less: "bit (m :: u64) i \<Longrightarrow> i < 64"
  using bit_imp_le_length [of m i] by simp

lemma u64_bitE:
  assumes "(m :: u64) \<noteq> 0"
  obtains i where "bit m i"
proof -
  have "\<exists>i. bit m i"
  proof (rule ccontr)
    assume "\<nexists>i. bit m i"
    then have "m = 0" by (intro bit_eqI) auto
    with assms show False by simp
  qed
  with that show thesis by blast
qed

lemma trailing_zeros_facts:
  shows "i < trailing_zeros m \<Longrightarrow> \<not> bit m i"
    and "m \<noteq> 0 \<Longrightarrow> trailing_zeros m < 64"
    and "m \<noteq> 0 \<Longrightarrow> bit m (trailing_zeros m)"
proof -
  show z: "\<not> bit m i" if "i < trailing_zeros m" for i
    using length_takeWhile_upt(1) [of i "\<lambda>i. \<not> bit m i" 64] that by (simp add: trailing_zeros_def)
  show l: "trailing_zeros m < 64" if nz: "m \<noteq> 0"
  proof -
    obtain i where "bit m i" using nz by (rule u64_bitE)
    with z [of i] bit_u64_less [of m i] show ?thesis by force
  qed
  show "bit m (trailing_zeros m)" if "m \<noteq> 0"
    using length_takeWhile_upt(3) [of "\<lambda>i. \<not> bit m i" 64] l [OF that]
    by (simp add: trailing_zeros_def)
qed

lemma trailing_ones_facts:
  shows "i < trailing_ones m \<Longrightarrow> bit m i"
    and "trailing_ones m \<le> 64"
    and "\<not> bit m (trailing_ones m)"
    and "bit m 0 \<Longrightarrow> 0 < trailing_ones m"
proof -
  show "bit m i" if "i < trailing_ones m" for i
    using length_takeWhile_upt(1) [of i "\<lambda>i. bit m i" 64] that by (simp add: trailing_ones_def)
  show le: "trailing_ones m \<le> 64"
    using length_takeWhile_upt(2) [of "\<lambda>i. bit m i" 64] by (simp add: trailing_ones_def)
  show nb: "\<not> bit m (trailing_ones m)"
    using length_takeWhile_upt(3) [of "\<lambda>i. bit m i" 64] bit_u64_less [of m 64] le
    by (cases "trailing_ones m = 64") (auto simp: trailing_ones_def)
  show "0 < trailing_ones m" if "bit m 0"
    using nb that by (cases "trailing_ones m = 0") auto
qed

lemma drop_bit_less: "m \<noteq> 0 \<Longrightarrow> 0 < n \<Longrightarrow> unat (drop_bit n m :: u64) < unat m"
proof -
  assume "m \<noteq> 0" "0 < n"
  then have "0 < unat m" "(1::nat) < 2 ^ n" using one_less_power [of "2::nat" n]
    by (simp_all add: unat_gt_0)
  then show ?thesis by (simp only: unat_drop_bit_eq) (simp add: drop_bit_eq_div)
qed

lemma drop_bit_le: "unat (drop_bit n m :: u64) \<le> unat m"
  by (simp only: unat_drop_bit_eq) (simp add: drop_bit_eq_div)

termination dumpmask_loop
proof (relation "measure (\<lambda>(msk, shift). unat msk)", goal_cases)
  case 1
  show ?case by simp
next
  case (2 msk shift zeros msk' shift' ones piece shift'')
  then have b: "bit msk' 0" using trailing_zeros_facts(3) [of msk] by (simp add: bit_drop_bit_eq)
  then have nz: "msk' \<noteq> 0" by auto
  have "0 < ones" using trailing_ones_facts(4) [OF b] 2 by simp
  then have "unat (drop_bit ones msk') < unat msk'" using nz by (rule drop_bit_less [rotated])
  also have "\<dots> \<le> unat msk" using drop_bit_le 2(3) by simp
  finally show ?case by simp
qed

declare dumpmask_loop.simps [simp del]

definition dumpmask :: "u64 \<Rightarrow> str" where
  "dumpmask msk = join_with 0x2C (dumpmask_loop msk 0)"

definition protocols_entries :: "ProtocolsInner \<Rightarrow> str list" where
  "protocols_entries p =
     List.map_filter
       (\<lambda>(idx, msk). if msk \<noteq> 0
                     then Some (ProtoKind_display (word_of_nat idx) @ 0x3D # dumpmask msk) else None)
       (enumerate 0 (recognized p)) @
     List.map_filter
       (\<lambda>ent. if se_supported ent \<noteq> 0
              then Some (Protocol_to_str (se_proto ent) @ 0x3D # dumpmask (se_supported ent))
              else None)
       (unrecognized p)"

definition protocols_display :: "ProtocolsInner \<Rightarrow> str" where
  "protocols_display p = join_with 0x20 (sort (protocols_entries p))"

end
