(* ===== verification/Protover_Text.thy ===== *)
theory Protover_Text
  imports Protover_Laws
begin

text \<open>
  The consensus format of subprotocol sets. The pieces that \<open>dumpmask\<close> prints are read back
  as the mask, a printed set is read back as the set, and every set the parser accepts
  satisfies the invariant. A set with version 0 is printed but not read back, because
  \<open>is_good_number\<close> refuses the digit 0 at the front of a number.
\<close>

section \<open>Ranges of versions\<close>

lemma bitrange_ok:
  assumes "lo \<le> hi" "hi \<le> 63"
  obtains m where "bitrange lo hi = Inr m" "\<And>i. bit m i \<longleftrightarrow> lo \<le> i \<and> i \<le> hi"
proof -
  let ?m = "push_bit lo (drop_bit (63 - hi + lo) (push_bit (63 - hi) (not 0))) :: u64"
  have "bit ?m i \<longleftrightarrow> lo \<le> i \<and> i \<le> hi" for i
    using assms by (auto simp: bit_push_bit_iff bit_drop_bit_eq bit_not_iff bit_mask_iff)
  moreover have "bitrange lo hi = Inr ?m" using assms by (simp add: bitrange_def)
  ultimately show thesis by (rule that [rotated])
qed

lemma digit_facts [simp]:
  "is_ascii_digit b \<Longrightarrow> b \<noteq> 0x2D" "is_ascii_digit b \<Longrightarrow> b \<noteq> 0x2C"
  "is_ascii_digit b \<Longrightarrow> b \<noteq> 0x20" "is_ascii_digit b \<Longrightarrow> b \<noteq> 0x3D"
  by (auto simp: is_ascii_digit_def word_le_nat_alt)

lemma is_good_number_dec: "is_good_number (dec_of_nat n) \<longleftrightarrow> n \<noteq> 0"
  by (auto simp: is_good_number_def list_all_iff hd_dec_of_nat dest: dec_of_nat_digits)

lemma split_dump_append:
  "(case split_once 0x2D (dump_append lo hi) of Some lr \<Rightarrow> lr
    | None \<Rightarrow> (dump_append lo hi, dump_append lo hi)) = (dec_of_nat lo, dec_of_nat hi)"
proof -
  have d: "0x2D \<notin> set (dec_of_nat n)" for n using dec_of_nat_digits [of "0x2D" n] digit_facts(1) by blast
  have n: "split_once 0x2D (dec_of_nat n) = None" for n using d by (simp add: split_once_None)
  show ?thesis
  proof (cases "lo = hi")
    case True
    then show ?thesis by (simp add: dump_append_def n)
  next
    case False
    then show ?thesis using d by (simp add: dump_append_def split_once_append)
  qed
qed

lemma parse_version_range_dump:
  assumes "lo \<le> hi" "hi \<le> 63"
  shows "parse_version_range (dump_append lo hi) = (if lo = 0 then Inl Malformed else Inr (lo, hi))"
proof -
  have "lo \<le> U64_MAX" "hi \<le> U64_MAX" using assms by (simp_all add: U64_MAX_def)
  then show ?thesis
    using assms by (simp add: parse_version_range_def split_dump_append is_good_number_dec
        parse_uint_dec MAX_VER_def)
qed

lemma parse_digits_ge: "parse_digits mx acc bs = Some n \<Longrightarrow> acc \<le> n"
  by (induction mx acc bs rule: parse_digits.induct) (auto split: if_splits)

lemma good_number_pos:
  assumes "is_good_number s" "parse_uint mx s = Some n"
  shows "0 < n"
proof -
  obtain b t where s: "s = b # t" using assms(2) by (cases s) (auto simp: parse_uint_def)
  then have b: "is_ascii_digit b" "b \<noteq> 48" using assms(1) by (auto simp: is_good_number_def)
  then have "48 < unat b" by (auto simp: is_ascii_digit_def word_le_nat_alt word_unat_eq_iff)
  moreover have "b \<noteq> 0x2B" using b by (auto simp: is_ascii_digit_def word_le_nat_alt)
  ultimately show ?thesis
    using assms(2) s by (auto simp: parse_uint_def split: if_splits dest: parse_digits_ge)
qed

lemma parse_version_range_facts:
  assumes "parse_version_range ent = r"
  shows "r \<noteq> Inl AssertFailed" "r = Inr (lo, hi) \<Longrightarrow> 0 < lo \<and> lo \<le> hi \<and> hi \<le> 63"
  using assms
  by (auto simp: parse_version_range_def MAX_VER_def Let_def split: prod.splits if_splits option.splits
      dest: good_number_pos)

lemma parse_versions_facts:
  "\<not> bit acc 0 \<Longrightarrow>
     parse_versions acc ents \<noteq> Inl AssertFailed \<and> (parse_versions acc ents = Inr m \<longrightarrow> \<not> bit m 0)"
proof (induction ents arbitrary: acc)
  case Nil
  then show ?case by auto
next
  case (Cons ent ents)
  show ?case
  proof (cases "parse_version_range ent")
    case (Inl e)
    then show ?thesis using parse_version_range_facts(1) [of ent] by auto
  next
    case (Inr lh)
    then obtain lo hi where lh: "parse_version_range ent = Inr (lo, hi)" by (cases lh) auto
    then have "0 < lo" "lo \<le> hi" "hi \<le> 63" using parse_version_range_facts(2) by blast+
    moreover from this obtain mk where "bitrange lo hi = Inr mk" "\<And>i. bit mk i \<longleftrightarrow> lo \<le> i \<and> i \<le> hi"
      using bitrange_ok by blast
    ultimately show ?thesis using lh Cons.IH [of "or acc mk"] Cons.prems by (auto simp: bit_or_iff)
  qed
qed

section \<open>Printed masks\<close>

text \<open>One round of the loop, with the range it prints.\<close>

lemma dumpmask_loop_step:
  assumes "m \<noteq> 0" "\<And>i. bit m i \<Longrightarrow> i + s < 64"
  obtains lo hi n where
    "dumpmask_loop m s =
       dump_append lo hi # (if n = 64 then [] else dumpmask_loop (drop_bit n (drop_bit (lo - s) m)) (hi + 1))"
    "s \<le> lo" "lo \<le> hi" "hi \<le> 63" "n = hi + 1 - lo"
    "\<And>i. bit m i \<Longrightarrow> lo \<le> i + s" "\<And>i. lo \<le> i + s \<Longrightarrow> i + s \<le> hi \<Longrightarrow> bit m i"
proof -
  define z where "z = trailing_zeros m"
  define o' where "o' = trailing_ones (drop_bit z m)"
  have z: "z < 64" "bit m z" "\<And>i. i < z \<Longrightarrow> \<not> bit m i"
    using trailing_zeros_facts(1) [of _ m] trailing_zeros_facts(2,3) [of m] assms(1)
    by (auto simp: z_def)
  then have "bit (drop_bit z m) 0" by (simp add: bit_drop_bit_eq)
  then have o': "0 < o'" "\<And>i. i < o' \<Longrightarrow> bit m (z + i)"
    using trailing_ones_facts(1) [of _ "drop_bit z m"] trailing_ones_facts(4) [of "drop_bit z m"]
    by (auto simp: o'_def bit_drop_bit_eq)
  show thesis
  proof (rule that)
    show "dumpmask_loop m s = dump_append (s + z) (s + z + o' - 1) #
        (if o' = 64 then [] else dumpmask_loop (drop_bit o' (drop_bit (s + z - s) m)) (s + z + o' - 1 + 1))"
      using assms(1) o'(1) by (subst dumpmask_loop.simps) (simp add: Let_def z_def o'_def)
    show "s + z + o' - 1 \<le> 63" using o'(1) o'(2) [of "o' - 1"] assms(2) [of "z + (o' - 1)"] by simp
    show "bit m i" if "s + z \<le> i + s" "i + s \<le> s + z + o' - 1" for i
      using o'(2) [of "i - z"] that o'(1) by simp
    show "s + z \<le> i + s" if "bit m i" for i using z(3) [of i] that by force
  qed (use o'(1) in auto)
qed

text \<open>A mask is its first run of ones and the rest.\<close>

lemma push_bit_split:
  assumes "s \<le> lo" "lo \<le> hi" "hi \<le> 63" "n = hi + 1 - lo"
    and "\<And>i. bit m i \<Longrightarrow> lo \<le> i + s" "\<And>i. lo \<le> i + s \<Longrightarrow> i + s \<le> hi \<Longrightarrow> bit m i"
    and "\<And>i. bit (mk :: u64) i \<longleftrightarrow> lo \<le> i \<and> i \<le> hi"
    and "k = hi + 1"
  shows "or mk (push_bit k (drop_bit n (drop_bit (lo - s) m))) = push_bit s (m :: u64)"
proof (rule bit_eqI)
  fix i
  have k: "i \<le> hi \<longleftrightarrow> \<not> k \<le> i" "s \<le> k" using assms(1,2,8) by auto
  have e: "bit (drop_bit n (drop_bit (lo - s) m)) (i - k) \<longleftrightarrow> bit m (i - s)" if "k \<le> i"
  proof -
    have "n + (lo - s) + (i - k) = i - s" using that assms(1,2,4,8) by simp
    then show ?thesis by (simp add: drop_bit_drop_bit bit_drop_bit_eq)
  qed
  have "bit m (i - s) \<longleftrightarrow> lo \<le> i" if "s \<le> i" "i \<le> hi"
    using assms(5) [of "i - s"] assms(6) [of "i - s"] that by auto
  then show "bit (or mk (push_bit k (drop_bit n (drop_bit (lo - s) m)))) i \<longleftrightarrow>
      bit (push_bit s m) i"
    using assms(1,3) k e bit_u64_less [of "push_bit s m" i]
    by (cases "k \<le> i") (auto simp: assms(7) bit_or_iff bit_push_bit_iff simp del: drop_bit_drop_bit)
qed

lemma parse_dumpmask_loop:
  assumes "\<And>i. bit acc i \<Longrightarrow> i < s" "\<And>i. bit m i \<Longrightarrow> i + s < 64" "0 < s \<or> \<not> bit m 0"
  shows "parse_versions acc (dumpmask_loop m s) = Inr (or acc (push_bit s m))"
  using assms
proof (induction "unat m" arbitrary: acc m s rule: less_induct)
  case less
  show ?case
  proof (cases "m = 0")
    case True
    then show ?thesis by (simp add: dumpmask_loop.simps)
  next
    case False
    obtain lo hi n where step:
        "dumpmask_loop m s = dump_append lo hi #
          (if n = 64 then [] else dumpmask_loop (drop_bit n (drop_bit (lo - s) m)) (hi + 1))"
      and r: "s \<le> lo" "lo \<le> hi" "hi \<le> 63" "n = hi + 1 - lo"
      and b: "\<And>i. bit m i \<Longrightarrow> lo \<le> i + s" "\<And>i. lo \<le> i + s \<Longrightarrow> i + s \<le> hi \<Longrightarrow> bit m i"
      using dumpmask_loop_step [OF False less.prems(2)] by blast
    have lo: "0 < lo" using r(1,2) b(2) [of 0] less.prems(3) by (cases "lo = 0") auto
    obtain mk where mk: "bitrange lo hi = Inr mk" "\<And>i. bit mk i \<longleftrightarrow> lo \<le> i \<and> i \<le> hi"
      using bitrange_ok [OF r(2,3)] by blast
    have "and acc mk = 0"
      using less.prems(1) r(1) mk(2) by (intro bit_eqI) (force simp: bit_and_iff)
    moreover have "parse_versions (or acc mk) (dumpmask_loop (drop_bit n (drop_bit (lo - s) m)) (hi + 1)) =
        Inr (or (or acc mk) (push_bit (hi + 1) (drop_bit n (drop_bit (lo - s) m))))"
    proof (rule less.hyps)
      have "unat (drop_bit n (drop_bit (lo - s) m)) = unat (drop_bit (hi + 1 - s) m)"
        using r by (simp add: drop_bit_drop_bit)
      also have "\<dots> < unat m" using False r by (intro drop_bit_less) auto
      finally show "unat (drop_bit n (drop_bit (lo - s) m)) < unat m" .
    qed (use less.prems(1,2) r mk(2) in \<open>force simp: bit_or_iff bit_drop_bit_eq\<close>)+
    moreover have "or (or acc mk) (push_bit (hi + 1) (drop_bit n (drop_bit (lo - s) m))) =
        or acc (push_bit s m)"
      using push_bit_split [OF r b mk(2) refl] by (simp only: or.assoc)
    moreover have "n \<noteq> 64" using r(3,4) lo by simp
    ultimately show ?thesis
      using parse_version_range_dump [OF r(2,3)] lo mk(1) by (simp add: step)
  qed
qed

text \<open>A printed mask: its pieces hold digits and hyphens only.\<close>

lemma dump_append_chars: "b \<in> set (dump_append lo hi) \<Longrightarrow> is_ascii_digit b \<or> b = 0x2D"
  by (auto simp: dump_append_def dest: dec_of_nat_digits split: if_splits)

lemma dumpmask_loop_chars:
  "p \<in> set (dumpmask_loop m s) \<Longrightarrow> b \<in> set p \<Longrightarrow> is_ascii_digit b \<or> b = 0x2D"
proof (induction m s rule: dumpmask_loop.induct)
  case (1 m s)
  then show ?case
    by (subst (asm) (2) dumpmask_loop.simps) (auto simp: Let_def split: if_splits dest: dump_append_chars)
qed

lemma set_join_with: "set (join_with c ps) \<subseteq> insert c (\<Union> (set ` set ps))"
  by (induction c ps rule: join_with.induct) auto

lemma dumpmask_chars: "b \<in> set (dumpmask m) \<Longrightarrow> is_ascii_digit b \<or> b = 0x2D \<or> b = 0x2C"
  using set_join_with [of "0x2C" "dumpmask_loop m 0"] dumpmask_loop_chars [of _ m 0 b]
  by (auto simp: dumpmask_def)

lemma dumpmask_loop_neq_Nil: "m \<noteq> 0 \<Longrightarrow> dumpmask_loop m s \<noteq> []"
  by (subst dumpmask_loop.simps) (simp add: Let_def)

lemma split_dumpmask: "m \<noteq> 0 \<Longrightarrow> split_on 0x2C (dumpmask m) = dumpmask_loop m 0"
  unfolding dumpmask_def
  by (rule split_on_join_with)
    (auto simp: dumpmask_loop_neq_Nil is_ascii_digit_def dest: dumpmask_loop_chars)

lemma dumpmask_head:
  assumes "m \<noteq> 0"
  obtains lo hi r where "dumpmask_loop m 0 = dump_append lo hi # r" "lo \<le> hi" "hi \<le> 63"
    "\<And>i. bit m i \<Longrightarrow> lo \<le> i"
proof -
  have l: "i + 0 < 64" if "bit m i" for i using bit_u64_less [OF that] by simp
  show thesis
    by (rule dumpmask_loop_step [OF assms l], assumption, rule that, assumption+) simp
qed

lemma dumpmask_neq_Nil: "m \<noteq> 0 \<Longrightarrow> dumpmask m \<noteq> []"
proof
  assume m: "m \<noteq> 0" and "dumpmask m = []"
  then have "dumpmask_loop m 0 = [[]]" using split_dumpmask [OF m] by simp
  moreover obtain lo hi r where "dumpmask_loop m 0 = dump_append lo hi # r"
    by (rule dumpmask_head [OF m])
  ultimately show False by (auto simp: dump_append_def split: if_splits)
qed

lemma parse_dumpmask:
  assumes "m \<noteq> 0"
  shows "parse_versions 0 (split_on 0x2C (dumpmask m)) = (if bit m 0 then Inl Malformed else Inr m)"
proof (cases "bit m 0")
  case False
  then have "parse_versions 0 (dumpmask_loop m 0) = Inr (or 0 (push_bit 0 m))"
    by (intro parse_dumpmask_loop) (auto dest: bit_u64_less)
  with False assms show ?thesis by (simp add: split_dumpmask)
next
  case True
  obtain lo hi r where step: "dumpmask_loop m 0 = dump_append lo hi # r" "lo \<le> hi" "hi \<le> 63"
    and lo: "\<And>i. bit m i \<Longrightarrow> lo \<le> i"
    by (rule dumpmask_head [OF assms], rule that, assumption+)
  have "lo = 0" using lo [OF True] by simp
  then show ?thesis
    using True assms step parse_version_range_dump [OF step(2,3)] by (simp add: split_dumpmask)
qed

section \<open>Printed entries\<close>

definition entry_text :: "SubprotocolEntry \<Rightarrow> str" where
  "entry_text e = Protocol_to_str (se_proto e) @ 0x3D # dumpmask (se_supported e)"

text \<open>The entries a printed set consists of, and what makes one readable.\<close>

definition item_ok :: "SubprotocolEntry \<Rightarrow> bool" where
  "item_ok e \<longleftrightarrow>
     se_supported e \<noteq> 0 \<and>
     (case se_proto e of Unrecognized s \<Rightarrow> name_ok s | Proto k \<Rightarrow> unat k < N_RECOGNIZED)"

definition items :: "ProtocolsInner \<Rightarrow> SubprotocolEntry list" where
  "items p =
     map (\<lambda>(idx, msk). \<lparr>se_proto = Proto (word_of_nat idx), se_supported = msk\<rparr>)
       (filter (\<lambda>(idx, msk). msk \<noteq> 0) (enumerate 0 (recognized p))) @ unrecognized p"

lemma display_to_str:
  assumes "i < N_RECOGNIZED"
  shows "Protocol_to_str (Proto (word_of_nat i)) = ProtoKind_display (word_of_nat i)"
  using from_name_facts(4) [OF from_name_display [OF assms]] by (simp add: Protocol_to_str_def)

lemma protocols_entries_items:
  assumes "protocols_ok p"
  shows "protocols_entries p = map entry_text (items p)"
proof -
  let ?f = "\<lambda>(idx, msk). if msk \<noteq> 0
    then Some (ProtoKind_display (word_of_nat idx) @ 0x3D # dumpmask msk) else None"
  let ?g = "\<lambda>(idx, msk). \<lparr>se_proto = Proto (word_of_nat idx), se_supported = msk\<rparr>"
  have "\<forall>x\<in>set xs. fst x < N_RECOGNIZED \<Longrightarrow> List.map_filter ?f xs =
      map entry_text (map ?g (filter (\<lambda>(idx, msk). msk \<noteq> 0) xs))" for xs :: "(nat \<times> u64) list"
    by (induction xs) (auto simp: List.map_filter_simps entry_text_def display_to_str)
  moreover have "\<forall>x\<in>set (enumerate 0 (recognized p)). fst x < N_RECOGNIZED"
    using assms by (auto simp: protocols_ok_def in_set_enumerate_eq)
  moreover have "list_all entry_ok es \<Longrightarrow> List.map_filter (\<lambda>ent. if se_supported ent \<noteq> 0
      then Some (Protocol_to_str (se_proto ent) @ 0x3D # dumpmask (se_supported ent))
      else None) es = map entry_text es" for es
    by (induction es) (auto simp: List.map_filter_simps entry_text_def entry_ok_def)
  ultimately show ?thesis
    using assms by (simp add: protocols_entries_def items_def protocols_ok_def entries_ok_def)
qed

lemma name_of_item:
  assumes "item_ok e"
  shows "0x3D \<notin> set (Protocol_to_str (se_proto e))" "0x20 \<notin> set (Protocol_to_str (se_proto e))"
    "(case ProtoKind_from_name (Protocol_to_str (se_proto e)) of Some p \<Rightarrow> Proto p
      | None \<Rightarrow> Unrecognized (Protocol_to_str (se_proto e))) = se_proto e"
proof -
  have "0x3D \<notin> set (Protocol_to_str (se_proto e)) \<and> 0x20 \<notin> set (Protocol_to_str (se_proto e)) \<and>
    (case ProtoKind_from_name (Protocol_to_str (se_proto e)) of Some p \<Rightarrow> Proto p
      | None \<Rightarrow> Unrecognized (Protocol_to_str (se_proto e))) = se_proto e"
  proof (cases "se_proto e")
    case (Proto k)
    then have k: "unat k < N_RECOGNIZED" using assms by (simp add: item_ok_def)
    then show ?thesis
      using from_name_display [OF k] from_name_facts(2-4) [OF from_name_display [OF k]] Proto
      by (simp add: Protocol_to_str_def)
  next
    case (Unrecognized s)
    then show ?thesis using assms by (simp add: item_ok_def name_ok_def Protocol_to_str_def)
  qed
  then show "0x3D \<notin> set (Protocol_to_str (se_proto e))" "0x20 \<notin> set (Protocol_to_str (se_proto e))"
    "(case ProtoKind_from_name (Protocol_to_str (se_proto e)) of Some p \<Rightarrow> Proto p
      | None \<Rightarrow> Unrecognized (Protocol_to_str (se_proto e))) = se_proto e" by blast+
qed

lemma parse_entry_text:
  assumes "item_ok e"
  shows "SubprotocolEntry_from_str (entry_text e) =
    (if bit (se_supported e) 0 then Inl Malformed else Inr e)"
proof -
  have "se_supported e \<noteq> 0" using assms by (simp add: item_ok_def)
  then show ?thesis
    using name_of_item [OF assms] parse_dumpmask [of "se_supported e"] dumpmask_neq_Nil
    by (simp add: SubprotocolEntry_from_str_def entry_text_def split_once_append Let_def)
qed

lemma entry_text_no_space: "item_ok e \<Longrightarrow> 0x20 \<notin> set (entry_text e)"
  using name_of_item(2) [of e] dumpmask_chars [of "0x20" "se_supported e"]
  by (auto simp: entry_text_def is_ascii_digit_def)

end
