(* ===== verification/Protover_Props.thy ===== *)
theory Protover_Props
  imports Protover_Text
begin

text \<open>
  What a subprotocol set promises: the parser and the printer are inverse to each other, and
  the operations are those of sets of pairs of a name and a version. The locale
  \<open>version_sets\<close> states the set interface once, with the laws its clients use, and is
  interpreted on the model.
\<close>

section \<open>Reading back a printed set\<close>

text \<open>What the parser keeps of one entry.\<close>

definition put_entry :: "ProtocolsInner \<Rightarrow> SubprotocolEntry \<Rightarrow> ProtocolsInner" where
  "put_entry p e =
     (case se_proto e of
        Proto k \<Rightarrow> p\<lparr>recognized := (recognized p)[unat k := se_supported e]\<rparr>
      | Unrecognized s \<Rightarrow> p\<lparr>unrecognized := unrecognized p @ [e]\<rparr>)"

text \<open>An entry is fresh in a state of the parser that has not met its protocol.\<close>

definition fresh :: "ProtocolsInner \<Rightarrow> u64 \<Rightarrow> Protocol \<Rightarrow> bool" where
  "fresh p foundmask q =
     (case q of
        Proto k \<Rightarrow> \<not> bit foundmask (unat k)
      | Unrecognized s \<Rightarrow> q \<notin> se_proto ` set (unrecognized p))"

lemma protocols_add_fresh:
  assumes "item_ok e" "fresh p fm (se_proto e)"
  obtains fm' where "protocols_add (p, fm) e = Inr (put_entry p e, fm')"
    "\<And>q. fresh p fm q \<Longrightarrow> q \<noteq> se_proto e \<Longrightarrow> fresh (put_entry p e) fm' q"
proof (cases "se_proto e")
  case (Proto k)
  let ?fm = "or fm (push_bit (unat k) 1)"
  have "and fm (push_bit (unat k) 1) = 0"
    using assms(2) Proto bit_iff_and_push_bit_not_eq_0 [of fm "unat k"] by (simp add: fresh_def)
  then have "protocols_add (p, fm) e = Inr (put_entry p e, ?fm)"
    using assms(1) Proto by (simp add: protocols_add_def put_entry_def item_ok_def)
  moreover have "fresh (put_entry p e) ?fm q" if "fresh p fm q" "q \<noteq> se_proto e" for q
    using that Proto
    by (cases q) (auto simp: fresh_def put_entry_def bit_or_iff bit_exp_iff word_unat_eq_iff)
  ultimately show thesis by (rule that)
next
  case (Unrecognized s)
  have "\<not> list_ex (\<lambda>e. is_unrecognized (se_proto e) s) (unrecognized p)"
    using assms(2) Unrecognized
    by (auto simp: fresh_def list_ex_iff is_unrecognized_iff image_iff dest!: bspec)
  then have "protocols_add (p, fm) e = Inr (put_entry p e, fm)"
    using assms(1) Unrecognized by (simp add: protocols_add_def put_entry_def item_ok_def)
  moreover have "fresh (put_entry p e) fm q" if "fresh p fm q" "q \<noteq> se_proto e" for q
    using that Unrecognized by (cases q) (auto simp: fresh_def put_entry_def)
  ultimately show thesis by (rule that)
qed

lemma parse_loop_items:
  assumes "list_all item_ok es" "distinct (map se_proto es)" "\<forall>e\<in>set es. fresh p fm (se_proto e)"
  shows "map_sum id fst (protocols_parse_loop (p, fm) (map entry_text es)) =
    (if \<exists>e\<in>set es. bit (se_supported e) 0 then Inl Malformed else Inr (foldl put_entry p es))"
  using assms
proof (induction es arbitrary: p fm)
  case Nil
  show ?case by simp
next
  case (Cons e es)
  have e: "item_ok e" "fresh p fm (se_proto e)" using Cons.prems by auto
  obtain fm' where add: "protocols_add (p, fm) e = Inr (put_entry p e, fm')"
    and fr: "\<And>q. fresh p fm q \<Longrightarrow> q \<noteq> se_proto e \<Longrightarrow> fresh (put_entry p e) fm' q"
    by (rule protocols_add_fresh [OF e], rule that, assumption+)
  have "entry_text e \<noteq> []" by (simp add: entry_text_def)
  moreover have "\<forall>e'\<in>set es. fresh (put_entry p e) fm' (se_proto e')"
    using Cons.prems fr by (force simp: image_iff)
  ultimately show ?case
    using Cons.IH [of "put_entry p e" fm'] Cons.prems add parse_entry_text [OF e(1)] by auto
qed

text \<open>The mask of a protocol, recognized or not, and what storing an entry does to it.\<close>

definition slot_mask :: "ProtocolsInner \<Rightarrow> Protocol \<Rightarrow> u64" where
  "slot_mask p q =
     (case q of Proto k \<Rightarrow> recognized p ! unat k | Unrecognized s \<Rightarrow> entries_mask (unrecognized p) q)"

definition proto_of :: "str \<Rightarrow> Protocol" where
  "proto_of n = (case ProtoKind_from_name n of Some k \<Rightarrow> Proto k | None \<Rightarrow> Unrecognized n)"

lemma proto_mask_slot: "proto_mask p n = slot_mask p (proto_of n)"
  by (simp add: proto_mask_def slot_mask_def proto_of_def split: option.split)

definition parsed_ok :: "ProtocolsInner \<Rightarrow> bool" where
  "parsed_ok p \<longleftrightarrow> length (recognized p) = N_RECOGNIZED \<and> entries_ok (unrecognized p)"

lemma entries_mask_snoc:
  "entries_mask (es @ [e]) q =
     (if q \<in> se_proto ` set es then entries_mask es q else if q = se_proto e then se_supported e else 0)"
  by (induction es) auto

lemma entries_ok_snoc:
  "entries_ok (es @ [e]) \<longleftrightarrow> entries_ok es \<and> entry_ok e \<and> se_proto e \<notin> se_proto ` set es"
  by (auto simp: entries_ok_def)

lemma put_entry_ok:
  assumes "parsed_ok p" "item_ok e" "se_proto e \<notin> se_proto ` set (unrecognized p)"
  shows "parsed_ok (put_entry p e)"
    "slot_mask (put_entry p e) q = (if q = se_proto e then se_supported e else slot_mask p q)"
proof -
  show "parsed_ok (put_entry p e)"
    using assms by (auto simp: parsed_ok_def put_entry_def item_ok_def entries_ok_snoc entry_ok_def
        split: Protocol.splits)
  show "slot_mask (put_entry p e) q = (if q = se_proto e then se_supported e else slot_mask p q)"
    using assms by (auto simp: parsed_ok_def put_entry_def item_ok_def slot_mask_def entries_mask_snoc
        entries_mask_notin nth_list_update word_unat_eq_iff split: Protocol.splits)
qed

lemma put_entries_ok:
  assumes "parsed_ok p" "list_all item_ok es" "distinct (map se_proto es)"
    and "\<forall>e\<in>set es. se_proto e \<notin> se_proto ` set (unrecognized p)"
  shows "parsed_ok (foldl put_entry p es) \<and>
    slot_mask (foldl put_entry p es) q =
      (if q \<in> se_proto ` set es then entries_mask es q else slot_mask p q)"
  using assms
proof (induction es arbitrary: p)
  case Nil
  then show ?case by simp
next
  case (Cons e es)
  have e: "parsed_ok p" "item_ok e" "se_proto e \<notin> se_proto ` set (unrecognized p)"
    using Cons.prems by auto
  have "\<forall>e'\<in>set es. se_proto e' \<notin> se_proto ` set (unrecognized (put_entry p e))"
    using Cons.prems by (auto simp: put_entry_def image_iff split: Protocol.splits)
  then show ?case
    using Cons.IH [of "put_entry p e"] put_entry_ok [OF e] Cons.prems by auto
qed

text \<open>The entries of a set hold its masks.\<close>

lemma set_items:
  assumes "protocols_ok p"
  shows "e \<in> set (items p) \<longleftrightarrow>
    e \<in> set (unrecognized p) \<or>
    (\<exists>i<N_RECOGNIZED. recognized p ! i \<noteq> 0 \<and>
       e = \<lparr>se_proto = Proto (word_of_nat i), se_supported = recognized p ! i\<rparr>)"
  using assms by (auto simp: items_def in_set_enumerate_eq protocols_ok_def)

lemma kind_of_nat_inj:
  "i < N_RECOGNIZED \<Longrightarrow> j < N_RECOGNIZED \<Longrightarrow> (word_of_nat i :: ProtoKind) = word_of_nat j \<longleftrightarrow> i = j"
  by (simp add: word_unat_eq_iff unat_of_nat N_RECOGNIZED_def)

lemma unat_kind_of_nat [simp]: "i < N_RECOGNIZED \<Longrightarrow> unat (word_of_nat i :: ProtoKind) = i"
  by (simp add: unat_of_nat N_RECOGNIZED_def)

lemma items_ok:
  assumes "protocols_ok p"
  shows "list_all item_ok (items p)" "distinct (map se_proto (items p))"
proof -
  have u: "list_all entry_ok (unrecognized p)" "distinct (map se_proto (unrecognized p))"
    "length (recognized p) = N_RECOGNIZED"
    using assms by (auto simp: protocols_ok_def entries_ok_def)
  show "list_all item_ok (items p)"
    using u by (auto simp: list_all_iff set_items [OF assms] item_ok_def dest!: bspec entry_okD)
  let ?r = "filter (\<lambda>(idx, msk). msk \<noteq> 0) (enumerate 0 (recognized p))"
  have "distinct (map fst ?r)" by (simp add: distinct_map_filter)
  moreover have "\<forall>x\<in>set ?r. fst x < N_RECOGNIZED" using u by (auto simp: in_set_enumerate_eq)
  ultimately have "distinct (map (\<lambda>i. Proto (word_of_nat i)) (map fst ?r))"
    by (subst distinct_map) (simp add: inj_on_def kind_of_nat_inj)
  moreover have "map se_proto (items p) =
      map (\<lambda>i. Proto (word_of_nat i)) (map fst ?r) @ map se_proto (unrecognized p)"
    by (auto simp: items_def)
  moreover have "\<forall>q\<in>se_proto ` set (unrecognized p). \<exists>s. q = Unrecognized s"
    using u(1) by (auto simp: list_all_iff dest!: bspec entry_okD)
  ultimately show "distinct (map se_proto (items p))" using u(2) by auto
qed

lemma items_mask:
  assumes "protocols_ok p"
  shows "entries_mask (items p) (proto_of n) = proto_mask p n"
proof -
  have d: "distinct (map se_proto (items p))" by (rule items_ok [OF assms])
  have u: "entries_ok (unrecognized p)" using assms by (simp add: protocols_ok_def)
  show ?thesis
  proof (cases "\<exists>e\<in>set (items p). se_proto e = proto_of n")
    case True
    then obtain e where e: "e \<in> set (items p)" "se_proto e = proto_of n" by blast
    then have m: "entries_mask (items p) (proto_of n) = se_supported e"
      using entries_mask_in [OF d, of e] by simp
    from e(1) consider "e \<in> set (unrecognized p)"
      | i where "i < N_RECOGNIZED" "e = \<lparr>se_proto = Proto (word_of_nat i), se_supported = recognized p ! i\<rparr>"
      using set_items [OF assms] by auto
    then show ?thesis
    proof cases
      case 1
      then obtain s where "se_proto e = Unrecognized s"
        using u by (auto simp: entries_ok_def list_all_iff dest!: bspec entry_okD)
      then show ?thesis
        using 1 e(2) m u entries_mask_in [of "unrecognized p" e]
        by (simp add: proto_mask_slot slot_mask_def entries_ok_def)
    next
      case 2
      then show ?thesis using e(2) [symmetric] m by (simp add: proto_mask_slot slot_mask_def)
    qed
  next
    case False
    then have "entries_mask (items p) (proto_of n) = 0" by (intro entries_mask_notin) auto
    moreover have "proto_mask p n = 0"
    proof (cases "ProtoKind_from_name n")
      case None
      then show ?thesis
        using False set_items [OF assms]
        by (auto simp: proto_mask_def proto_of_def intro!: entries_mask_notin)
    next
      case (Some k)
      then have k: "unat k < N_RECOGNIZED" by (rule from_name_facts)
      have "recognized p ! unat k = 0"
      proof (rule ccontr)
        assume nz: "recognized p ! unat k \<noteq> 0"
        have "\<lparr>se_proto = Proto k, se_supported = recognized p ! unat k\<rparr> \<in> set (items p)"
          unfolding set_items [OF assms] using nz k by (intro disjI2 exI [of _ "unat k"]) simp
        with False Some show False by (force simp: proto_of_def)
      qed
      then show ?thesis using Some by (simp add: proto_mask_def)
    qed
    ultimately show ?thesis by simp
  qed
qed

lemma sort_map_key: "sort (map f xs) = map f (sort_key f xs)" for f :: "'a \<Rightarrow> str"
  by (rule properties_for_sort) simp_all

lemma parsed_ok_default: "parsed_ok ProtocolsInner_default"
  by (simp add: parsed_ok_def ProtocolsInner_default_def entries_ok_def)

lemma slot_mask_default:
  "proto_mask ProtocolsInner_default n = 0"
  using from_name_facts(1) [of n]
  by (auto simp: proto_mask_def ProtocolsInner_default_def split: option.split)

lemma protocols_ok_sorted:
  "parsed_ok p \<Longrightarrow> protocols_ok (p\<lparr>unrecognized := entries_sort (unrecognized p)\<rparr>)"
  by (simp add: parsed_ok_def protocols_ok_def)

lemma proto_mask_sorted:
  "parsed_ok p \<Longrightarrow> proto_mask (p\<lparr>unrecognized := entries_sort (unrecognized p)\<rparr>) n = proto_mask p n"
  by (simp add: parsed_ok_def entries_ok_def proto_mask_def split: option.split)

lemma parse_loop_join:
  assumes "list_all item_ok es"
  shows "protocols_parse_loop st (split_on 0x20 (join_with 0x20 (map entry_text es))) =
    protocols_parse_loop st (map entry_text es)"
proof (cases "es = []")
  case False
  then show ?thesis
    using assms entry_text_no_space by (subst split_on_join_with) (auto simp: list_all_iff)
qed simp

lemma version_zero_items:
  assumes "protocols_ok p"
  shows "(\<exists>e\<in>set (items p). bit (se_supported e) 0) \<longleftrightarrow> (\<exists>n. supports_subver p n 0)"
proof
  assume "\<exists>e\<in>set (items p). bit (se_supported e) 0"
  then obtain e where e: "e \<in> set (items p)" "bit (se_supported e) 0" by blast
  then have "item_ok e" using items_ok(1) [OF assms] by (simp add: list_all_iff)
  then have "proto_of (Protocol_to_str (se_proto e)) = se_proto e"
    using name_of_item(3) by (simp add: proto_of_def)
  then have "proto_mask p (Protocol_to_str (se_proto e)) = se_supported e"
    using items_mask [OF assms, of "Protocol_to_str (se_proto e)"]
      entries_mask_in [OF items_ok(2) [OF assms] e(1)] by simp
  with e(2) show "\<exists>n. supports_subver p n 0"
    using supports_subver_mask [OF assms, of "Protocol_to_str (se_proto e)" 0] by auto
next
  assume "\<exists>n. supports_subver p n 0"
  then obtain n where n: "bit (entries_mask (items p) (proto_of n)) 0"
    using supports_subver_mask [OF assms] items_mask [OF assms] by auto
  then have "proto_of n \<in> se_proto ` set (items p)"
    using entries_mask_notin [of "proto_of n" "items p"] by fastforce
  then obtain e where "e \<in> set (items p)" "se_proto e = proto_of n" by auto
  with n show "\<exists>e\<in>set (items p). bit (se_supported e) 0"
    using entries_mask_in [OF items_ok(2) [OF assms]] by metis
qed

lemma from_str_display:
  assumes ok: "protocols_ok p"
  shows "protocols_from_str (protocols_display p) =
    (if \<exists>n. supports_subver p n 0 then Inl Malformed else Inr p)"
proof -
  let ?es = "sort_key entry_text (items p)" and ?d = ProtocolsInner_default
  have es: "list_all item_ok ?es" "distinct (map se_proto ?es)" "set ?es = set (items p)"
    using items_ok [OF ok] by (simp_all add: list_all_iff distinct_map)
  have "\<forall>e\<in>set ?es. fresh ?d 0 (se_proto e)"
    by (simp add: fresh_def ProtocolsInner_default_def split: Protocol.split)
  from parse_loop_items [OF es(1,2) this]
  have loop: "map_sum id fst (protocols_parse_loop (?d, 0) (map entry_text ?es)) =
      (if \<exists>n. supports_subver p n 0 then Inl Malformed else Inr (foldl put_entry ?d ?es))"
    using version_zero_items [OF ok] es(3) by simp
  let ?q = "foldl put_entry ?d ?es"
  have q: "parsed_ok ?q" "slot_mask ?q x = (if x \<in> se_proto ` set ?es then entries_mask ?es x else slot_mask ?d x)" for x
    using put_entries_ok [OF parsed_ok_default es(1,2)] by (auto simp: ProtocolsInner_default_def)
  have "proto_mask ?q n = proto_mask p n" for n
    using q(2) [of "proto_of n"] slot_mask_default [of n] items_mask [OF ok, of n]
      entries_mask_cong [OF es(2) items_ok(2) [OF ok] es(3)] entries_mask_notin [of "proto_of n" "items p"]
    by (auto simp: proto_mask_slot es(3))
  then have "?q\<lparr>unrecognized := entries_sort (unrecognized ?q)\<rparr> = p"
    using protocols_ext [OF protocols_ok_sorted [OF q(1)] ok] proto_mask_sorted [OF q(1)] by simp
  moreover have "protocols_display p = join_with 0x20 (map entry_text ?es)"
    by (simp add: protocols_display_def protocols_entries_items [OF ok] sort_map_key)
  ultimately show ?thesis
    using loop parse_loop_join [OF es(1)]
    by (cases "protocols_parse_loop (?d, 0) (map entry_text ?es)")
      (auto simp: protocols_from_str_def split: if_splits)
qed

section \<open>What the parser accepts\<close>

lemma entry_from_str_facts:
  assumes "0x20 \<notin> set s"
  shows "SubprotocolEntry_from_str s \<noteq> Inl AssertFailed"
    and "SubprotocolEntry_from_str s = Inr e \<Longrightarrow>
      \<not> bit (se_supported e) 0 \<and>
      (case se_proto e of Proto k \<Rightarrow> unat k < N_RECOGNIZED | Unrecognized n \<Rightarrow> name_ok n)"
proof -
  have pv: "parse_versions 0 x \<noteq> Inl AssertFailed \<and> (parse_versions 0 x = Inr m \<longrightarrow> \<not> bit m 0)" for x m
    by (rule parse_versions_facts) simp
  then show "SubprotocolEntry_from_str s \<noteq> Inl AssertFailed"
    by (auto simp: SubprotocolEntry_from_str_def Let_def split: option.splits sum.splits)
  assume e: "SubprotocolEntry_from_str s = Inr e"
  then obtain name versions where nv: "split_once 0x3D s = Some (name, versions)"
    by (auto simp: SubprotocolEntry_from_str_def split: option.splits)
  then have "0x3D \<notin> set name" "0x20 \<notin> set name" using assms split_once_SomeD by fastforce+
  moreover have "se_proto e = proto_of name" "\<not> bit (se_supported e) 0"
    using e nv pv by (auto simp: SubprotocolEntry_from_str_def proto_of_def Let_def
        split: if_splits sum.splits)
  ultimately show "\<not> bit (se_supported e) 0 \<and>
      (case se_proto e of Proto k \<Rightarrow> unat k < N_RECOGNIZED | Unrecognized n \<Rightarrow> name_ok n)"
    using from_name_facts(1) by (auto simp: proto_of_def name_ok_def split: option.splits)
qed

text \<open>The invariant of the parser's loop.\<close>

definition zero_free :: "ProtocolsInner \<Rightarrow> bool" where
  "zero_free p \<longleftrightarrow> list_all (\<lambda>m. \<not> bit m 0) (recognized p) \<and>
     list_all (\<lambda>e. \<not> bit (se_supported e) 0) (unrecognized p)"

lemma add_facts:
  assumes "parsed_ok p" "zero_free p" "\<not> bit (se_supported e) 0"
    and "case se_proto e of Proto k \<Rightarrow> unat k < N_RECOGNIZED | Unrecognized n \<Rightarrow> name_ok n"
  shows "protocols_add (p, fm) e \<noteq> Inl AssertFailed"
    and "protocols_add (p, fm) e = Inr (p', fm') \<Longrightarrow> parsed_ok p' \<and> zero_free p'"
proof -
  show "protocols_add (p, fm) e \<noteq> Inl AssertFailed"
    using assms(4) by (auto simp: protocols_add_def split: Protocol.splits)
  show "parsed_ok p' \<and> zero_free p'" if "protocols_add (p, fm) e = Inr (p', fm')"
    using assms that
    by (auto simp: protocols_add_def parsed_ok_def zero_free_def entries_ok_snoc entry_ok_def list_ex_iff
        is_unrecognized_iff image_iff list_all_iff split: Protocol.splits if_splits
        dest!: set_update_subset_insert [THEN subsetD]) blast+
qed

lemma parse_loop_facts:
  assumes "parsed_ok p" "zero_free p" "\<forall>s\<in>set ss. 0x20 \<notin> set s"
  shows "protocols_parse_loop (p, fm) ss \<noteq> Inl AssertFailed \<and>
    (protocols_parse_loop (p, fm) ss = Inr (p', fm') \<longrightarrow> parsed_ok p' \<and> zero_free p')"
  using assms
proof (induction ss arbitrary: p fm)
  case Nil
  then show ?case by auto
next
  case (Cons s ss)
  have IH: "protocols_parse_loop (p1, fm1) ss \<noteq> Inl AssertFailed \<and>
      (protocols_parse_loop (p1, fm1) ss = Inr (p', fm') \<longrightarrow> parsed_ok p' \<and> zero_free p')"
    if "parsed_ok p1" "zero_free p1" for p1 fm1
    using Cons.IH that Cons.prems(3) by simp
  show ?case
  proof (cases "s = []")
    case True
    then show ?thesis using IH [OF Cons.prems(1,2)] by simp
  next
    case False
    have s: "0x20 \<notin> set s" using Cons.prems(3) by simp
    show ?thesis
    proof (cases "SubprotocolEntry_from_str s")
      case (Inl x)
      then show ?thesis using False entry_from_str_facts(1) [OF s] by auto
    next
      case (Inr e)
      note add = add_facts [OF Cons.prems(1,2) conjunct1 conjunct2,
          OF entry_from_str_facts(2) entry_from_str_facts(2), OF s Inr s Inr]
      show ?thesis
      proof (cases "protocols_add (p, fm) e")
        case (Inl x)
        then show ?thesis using False Inr add(1) [of fm] by auto
      next
        case (Inr st)
        obtain p1 fm1 where st: "st = (p1, fm1)" by (cases st)
        then have "parsed_ok p1" "zero_free p1" using Inr add(2) [of fm p1 fm1] by auto
        from IH [OF this, of fm1] show ?thesis
          using False Inr st \<open>SubprotocolEntry_from_str s = Inr e\<close> by simp
      qed
    qed
  qed
qed

lemma zero_free_mask: "parsed_ok p \<Longrightarrow> zero_free p \<Longrightarrow> \<not> bit (proto_mask p n) 0"
proof -
  assume p: "parsed_ok p" "zero_free p"
  have "\<not> bit (entries_mask (unrecognized p) q) 0" for q
    using p entries_mask_notin [of q "unrecognized p"]
    by (cases "q \<in> se_proto ` set (unrecognized p)")
      (auto simp: parsed_ok_def entries_ok_def entries_mask_in zero_free_def list_all_iff)
  then show ?thesis
    using p from_name_facts(1) [of n]
    by (auto simp: proto_mask_def parsed_ok_def zero_free_def list_all_length split: option.split)
qed

lemma from_str_facts:
  shows "protocols_from_str s \<noteq> Inl AssertFailed"
    and "protocols_from_str s = Inr p \<Longrightarrow> protocols_ok p \<and> \<not> supports_subver p n 0"
proof -
  have "zero_free ProtocolsInner_default" by (simp add: zero_free_def ProtocolsInner_default_def list_all_iff)
  note loop = parse_loop_facts [OF parsed_ok_default this, of "split_on 0x20 s" 0]
  have pieces: "\<forall>t\<in>set (split_on 0x20 s). 0x20 \<notin> set t" using split_on_pieces by blast
  show "protocols_from_str s \<noteq> Inl AssertFailed"
    using loop [OF pieces] by (auto simp: protocols_from_str_def split: sum.splits)
  assume "protocols_from_str s = Inr p"
  then obtain q fm where q: "protocols_parse_loop (ProtocolsInner_default, 0) (split_on 0x20 s) = Inr (q, fm)"
    and p: "p = q\<lparr>unrecognized := entries_sort (unrecognized q)\<rparr>"
    by (auto simp: protocols_from_str_def split: sum.splits)
  then have ok: "parsed_ok q" "zero_free q" using loop [OF pieces] by auto
  then have "protocols_ok p" using protocols_ok_sorted p by simp
  moreover have "\<not> bit (proto_mask p n) 0"
    using zero_free_mask [OF ok] proto_mask_sorted [OF ok(1)] p by simp
  ultimately show "protocols_ok p \<and> \<not> supports_subver p n 0" by (simp add: supports_subver_mask)
qed

section \<open>The interface of a version set\<close>

text \<open>What a client of the crate relies on: the operations act on the supported versions as on
  sets, and equality is equality of the supported versions. The lemmas of the locale are the
  set laws its clients use.\<close>

locale version_sets =
  fixes ok :: "'s \<Rightarrow> bool"
    and supports :: "'s \<Rightarrow> 'n \<Rightarrow> 'v \<Rightarrow> bool"
    and union :: "'s \<Rightarrow> 's \<Rightarrow> 's"
    and inter :: "'s \<Rightarrow> 's \<Rightarrow> 's"
    and diff :: "'s \<Rightarrow> 's \<Rightarrow> 's"
    and is_empty :: "'s \<Rightarrow> bool"
  assumes ops_ok: "ok a \<Longrightarrow> ok b \<Longrightarrow> ok (union a b) \<and> ok (inter a b) \<and> ok (diff a b)"
    and union_supports: "ok a \<Longrightarrow> ok b \<Longrightarrow> supports (union a b) n v \<longleftrightarrow> supports a n v \<or> supports b n v"
    and inter_supports: "ok a \<Longrightarrow> ok b \<Longrightarrow> supports (inter a b) n v \<longleftrightarrow> supports a n v \<and> supports b n v"
    and diff_supports: "ok a \<Longrightarrow> ok b \<Longrightarrow> supports (diff a b) n v \<longleftrightarrow> supports a n v \<and> \<not> supports b n v"
    and empty_supports: "ok a \<Longrightarrow> is_empty a \<longleftrightarrow> (\<forall>n v. \<not> supports a n v)"
    and supports_ext: "ok a \<Longrightarrow> ok b \<Longrightarrow> (\<And>n v. supports a n v \<longleftrightarrow> supports b n v) \<Longrightarrow> a = b"
begin

lemma union_commute: "ok a \<Longrightarrow> ok b \<Longrightarrow> union a b = union b a"
  by (rule supports_ext) (auto simp: ops_ok union_supports)

lemma union_assoc: "ok a \<Longrightarrow> ok b \<Longrightarrow> ok c \<Longrightarrow> union (union a b) c = union a (union b c)"
  by (rule supports_ext) (auto simp: ops_ok union_supports)

lemma inter_union_diff: "ok a \<Longrightarrow> ok b \<Longrightarrow> union (inter a b) (diff a b) = a"
  by (rule supports_ext) (auto simp: ops_ok union_supports inter_supports diff_supports)

lemma diff_diff: "ok a \<Longrightarrow> ok b \<Longrightarrow> diff a (diff a b) = inter a b"
  by (rule supports_ext) (auto simp: ops_ok inter_supports diff_supports)

lemma diff_empty_iff:
  "ok a \<Longrightarrow> ok b \<Longrightarrow> is_empty (diff a b) \<longleftrightarrow> (\<forall>n v. supports a n v \<longrightarrow> supports b n v)"
  by (auto simp: ops_ok empty_supports diff_supports)

lemma diff_empty_union: "ok a \<Longrightarrow> ok b \<Longrightarrow> is_empty (diff a b) \<longleftrightarrow> union a b = b"
  by (auto simp: diff_empty_iff union_supports ops_ok intro!: supports_ext) (metis union_supports)

end

lemma protocols_ok_default: "protocols_ok ProtocolsInner_default"
  using parsed_ok_default by (simp add: protocols_ok_def parsed_ok_def ProtocolsInner_default_def)

lemma protocols_is_empty_mask:
  assumes "protocols_ok p"
  shows "protocols_is_empty p \<longleftrightarrow> (\<forall>n. proto_mask p n = 0)"
proof
  assume "protocols_is_empty p"
  then show "\<forall>n. proto_mask p n = 0"
    using assms from_name_facts(1)
    by (auto simp: protocols_is_empty_def protocols_ok_def entries_ok_def list_all_iff entry_ok_def
        proto_mask_def split: option.split)
next
  assume z: "\<forall>n. proto_mask p n = 0"
  have "p = ProtocolsInner_default"
    using assms z slot_mask_default protocols_ok_default by (intro protocols_ext) auto
  then show "protocols_is_empty p"
    by (simp add: protocols_is_empty_def ProtocolsInner_default_def list_all_iff)
qed

lemma mask_eq_iff: "(m :: u64) = m' \<longleftrightarrow> (\<forall>v :: u8. bit m (unat v) \<longleftrightarrow> bit m' (unat v))"
proof
  assume h: "\<forall>v :: u8. bit m (unat v) \<longleftrightarrow> bit m' (unat v)"
  show "m = m'"
  proof (rule bit_word_eqI)
    fix i
    assume "i < LENGTH(64)"
    then have "unat (word_of_nat i :: u8) = i" by (simp add: unat_of_nat)
    with h show "bit m i \<longleftrightarrow> bit m' i" by metis
  qed
qed simp

interpretation pv: version_sets protocols_ok supports_subver protocols_union protocols_intersection
  protocols_difference protocols_is_empty
proof
  fix a b :: ProtocolsInner and n :: str and v :: u8
  assume ok: "protocols_ok a" "protocols_ok b"
  note ops = protocols_ok_ops [OF ok] and masks = proto_mask_ops [OF ok]
  show "protocols_ok (protocols_union a b) \<and> protocols_ok (protocols_intersection a b) \<and>
      protocols_ok (protocols_difference a b)" using ops by simp
  show "supports_subver (protocols_union a b) n v \<longleftrightarrow> supports_subver a n v \<or> supports_subver b n v"
    using ok ops masks by (simp add: supports_subver_mask bit_or_iff)
  show "supports_subver (protocols_intersection a b) n v \<longleftrightarrow> supports_subver a n v \<and> supports_subver b n v"
    using ok ops masks by (simp add: supports_subver_mask bit_and_iff)
  show "supports_subver (protocols_difference a b) n v \<longleftrightarrow> supports_subver a n v \<and> \<not> supports_subver b n v"
    using ok ops masks bit_u64_less [of "proto_mask a n" "unat v"]
    by (auto simp: supports_subver_mask bit_and_iff bit_not_iff)
next
  fix a :: ProtocolsInner
  assume "protocols_ok a"
  then show "protocols_is_empty a \<longleftrightarrow> (\<forall>n v. \<not> supports_subver a n v)"
    by (auto simp: protocols_is_empty_mask supports_subver_mask mask_eq_iff)
next
  fix a b :: ProtocolsInner
  assume "protocols_ok a" "protocols_ok b" "\<And>n v. supports_subver a n v \<longleftrightarrow> supports_subver b n v"
  then show "a = b" by (intro protocols_ext) (auto simp: supports_subver_mask mask_eq_iff)
qed

section \<open>Collecting named versions\<close>

lemma from_iter_loop_facts:
  assumes "protocols_from_iter_loop r ns = Some r'" "length r = N_RECOGNIZED"
  shows "length r' = N_RECOGNIZED \<and>
    (\<forall>n\<in>set ns. unat (ns_kind n) < N_RECOGNIZED \<and> unat (ns_version n) \<le> MAX_VER) \<and>
    (\<forall>i<N_RECOGNIZED. \<forall>j. bit (r' ! i) j \<longleftrightarrow>
       bit (r ! i) j \<or> (\<exists>n\<in>set ns. unat (ns_kind n) = i \<and> unat (ns_version n) = j))"
  using assms
proof (induction r ns rule: protocols_from_iter_loop.induct)
  case (1 r)
  then show ?case by simp
next
  case (2 r n ns)
  let ?i = "unat (ns_kind n)" and ?v = "unat (ns_version n)"
  let ?r = "r[?i := or (r ! ?i) (push_bit ?v 1)]"
  have b: "?i < N_RECOGNIZED" "?v \<le> MAX_VER" and loop: "protocols_from_iter_loop ?r ns = Some r'"
    using 2(2) by (auto simp: Let_def split: if_splits)
  have "bit (?r ! i) j \<longleftrightarrow> bit (r ! i) j \<or> ?i = i \<and> ?v = j" if "i < N_RECOGNIZED" for i j
    using that b 2(3)
    by (cases "i = ?i") (auto simp: MAX_VER_def nth_list_update bit_or_iff bit_exp_iff)
  moreover from 2(1) [OF refl _ loop] b 2(3)
  have "length r' = N_RECOGNIZED \<and>
    (\<forall>n\<in>set ns. unat (ns_kind n) < N_RECOGNIZED \<and> unat (ns_version n) \<le> MAX_VER) \<and>
    (\<forall>i<N_RECOGNIZED. \<forall>j. bit (r' ! i) j \<longleftrightarrow>
       bit (?r ! i) j \<or> (\<exists>n\<in>set ns. unat (ns_kind n) = i \<and> unat (ns_version n) = j))"
    by simp
  ultimately show ?case using b by (simp del: push_bit_of_1)
qed

lemma from_iter_facts:
  assumes "protocols_from_iter ns = Some p"
  shows "protocols_ok p" "supports_known_subver p k v \<longleftrightarrow> \<lparr>ns_kind = k, ns_version = v\<rparr> \<in> set ns"
proof -
  obtain r where r: "protocols_from_iter_loop (replicate N_RECOGNIZED 0) ns = Some r"
    and p: "p = \<lparr>recognized = r, unrecognized = []\<rparr>"
    using assms by (auto simp: protocols_from_iter_def)
  note f = from_iter_loop_facts [OF r]
  show "protocols_ok p" using f p by (simp add: protocols_ok_def entries_ok_def)
  have "n = \<lparr>ns_kind = k, ns_version = v\<rparr> \<longleftrightarrow>
      unat (ns_kind n) = unat k \<and> unat (ns_version n) = unat v" for n :: NamedSubver
    by (cases n) (simp add: word_unat_eq_iff)
  then have "\<lparr>ns_kind = k, ns_version = v\<rparr> \<in> set ns \<longleftrightarrow>
      (\<exists>n\<in>set ns. unat (ns_kind n) = unat k \<and> unat (ns_version n) = unat v)" by metis
  then show "supports_known_subver p k v \<longleftrightarrow> \<lparr>ns_kind = k, ns_version = v\<rparr> \<in> set ns"
    using f p by (auto simp: supports_known_subver_def supports_recognized_ver_def
        bit_iff_and_push_bit_not_eq_0 [symmetric] simp del: push_bit_of_1)
qed

section \<open>Properties\<close>

text \<open>C11. A subprotocol set is a set of pairs of a protocol name and a version: union,
  intersection and difference keep the invariant of the type and do to the supported versions
  what the operations of sets do, a set is empty when it supports nothing, and two sets are
  equal, as the derived equality compares them, when they support the same versions.\<close>

theorem protover_equals_sets:
  assumes "protocols_ok a" "protocols_ok b"
  shows "protocols_ok (protocols_union a b) \<and> protocols_ok (protocols_intersection a b) \<and>
    protocols_ok (protocols_difference a b) \<and>
    {(n, v). supports_subver (protocols_union a b) n v} =
      {(n, v). supports_subver a n v} \<union> {(n, v). supports_subver b n v} \<and>
    {(n, v). supports_subver (protocols_intersection a b) n v} =
      {(n, v). supports_subver a n v} \<inter> {(n, v). supports_subver b n v} \<and>
    {(n, v). supports_subver (protocols_difference a b) n v} =
      {(n, v). supports_subver a n v} - {(n, v). supports_subver b n v} \<and>
    (protocols_is_empty a \<longleftrightarrow> {(n, v). supports_subver a n v} = {}) \<and>
    (a = b \<longleftrightarrow> {(n, v). supports_subver a n v} = {(n, v). supports_subver b n v})"
proof -
  have "a = b" if "{(n, v). supports_subver a n v} = {(n, v). supports_subver b n v}"
    using that assms by (intro pv.supports_ext) (auto simp: set_eq_iff)
  then have "a = b \<longleftrightarrow> {(n, v). supports_subver a n v} = {(n, v). supports_subver b n v}" by blast
  moreover have "protocols_is_empty a \<longleftrightarrow> {(n, v). supports_subver a n v} = {}"
    using pv.empty_supports [OF assms(1)] by auto
  ultimately show ?thesis
    using pv.ops_ok [OF assms] pv.union_supports [OF assms] pv.inter_supports [OF assms]
      pv.diff_supports [OF assms]
    by (simp add: set_eq_iff)
qed

text \<open>A set with recognized and unrecognized protocols: \<open>Foo=7 Link=1-3\<close>.\<close>

definition sample_protocols :: ProtocolsInner where
  "sample_protocols =
     \<lparr>recognized = [14, 0, 0, 0, 0, 0, 0, 0, 0, 0, 0, 0, 0],
      unrecognized = [\<lparr>se_proto = Unrecognized (str_bytes ''Foo''), se_supported = 128\<rparr>]\<rparr>"

lemma sample_protocols_ok: "protocols_ok sample_protocols"
  by (simp add: sample_protocols_def protocols_ok_def entries_ok_def entry_ok_def name_ok_def
      N_RECOGNIZED_def ProtoKind_from_name_def ProtoKind_names_def str_bytes_def of_char_def)

lemma sample_no_version_zero: "\<not> supports_subver sample_protocols n 0"
  unfolding supports_subver_mask [OF sample_protocols_ok] unat_0
  using sample_protocols_ok
  by (intro zero_free_mask) (simp_all add: zero_free_def sample_protocols_def parsed_ok_def
      protocols_ok_def)

theorem protover_equals_sets_witness:
  "{(n, v). supports_subver (protocols_union ProtocolsInner_default sample_protocols) n v} =
     {(n, v). supports_subver ProtocolsInner_default n v} \<union> {(n, v). supports_subver sample_protocols n v} \<and>
   ProtocolsInner_default \<noteq> sample_protocols"
  using protover_equals_sets [OF protocols_ok_default sample_protocols_ok]
  by (simp add: ProtocolsInner_default_def sample_protocols_def)

text \<open>C29. The parser has a type-safe result: on every text it returns a set that satisfies the
  invariant and has no version 0, or one of the three documented errors; none of its
  assertions fails.\<close>

theorem protover_parser_type:
  "case protocols_from_str s of
     Inl e \<Rightarrow> e \<in> {OutOfRange, Duplicate, Malformed}
   | Inr p \<Rightarrow> protocols_ok p \<and> (\<forall>n. \<not> supports_subver p n 0)"
proof (cases "protocols_from_str s")
  case (Inl e)
  then show ?thesis using from_str_facts(1) [of s] by (cases e) auto
next
  case (Inr p)
  then show ?thesis using from_str_facts(2) [of s p] by simp
qed

text \<open>C28. Printing and parsing: the text of a set is read back as the same set, and the printer
  loop, whose masks shrink with every round, ends. A set with version 0 of some protocol, which
  the constructors accept and the printer prints, is refused by the parser as malformed.\<close>

theorem protover_print_parse:
  assumes "protocols_ok p"
  shows "protocols_from_str (protocols_display p) =
    (if \<exists>n. supports_subver p n 0 then Inl Malformed else Inr p)"
  by (rule from_str_display [OF assms])

theorem protover_print_parse_witness:
  "protocols_from_str (protocols_display sample_protocols) = Inr sample_protocols \<and>
   (\<exists>p. protocols_from_iter [\<lparr>ns_kind = 11, ns_version = 0\<rparr>] = Some p \<and>
        protocols_from_str (protocols_display p) = Inl Malformed)"
proof -
  have "protocols_from_str (protocols_display sample_protocols) = Inr sample_protocols"
    using protover_print_parse [OF sample_protocols_ok] sample_no_version_zero by simp
  moreover obtain p where p: "protocols_from_iter [\<lparr>ns_kind = 11, ns_version = 0\<rparr>] = Some p"
    by (simp add: protocols_from_iter_def Let_def N_RECOGNIZED_def MAX_VER_def)
  moreover have "supports_subver p (str_bytes ''FlowCtrl'') 0"
    using from_iter_facts(2) [OF p, of 11 0]
    by (simp add: supports_subver_def supports_known_subver_def ProtoKind_from_name_def
        ProtoKind_names_def str_bytes_def of_char_def)
  ultimately show ?thesis
    using protover_print_parse [OF from_iter_facts(1) [OF p]] by auto
qed

end
