(* ===== verification/Protostatus.thy ===== *)
theory Protostatus
  imports Protover_Props
begin

text \<open>
  Enforcement of required subprotocols: \<open>ProtoStatus::check_protocols\<close> of
  \<open>tor-netdoc/src/doc/netstatus.rs\<close> and the checks of \<open>arti-client/src/protostatus.rs\<close>.
  A client stops when a consensus that is not older than the software requires a subprotocol
  version the client lacks and the user has not chosen to ignore. The directory provider and
  its event stream are outside this component: an event comes with what the provider answers
  when it is handled. Messages written to the log are kept as their levels.
\<close>

section \<open>Checking a recommendation\<close>



datatype ProtocolSupportError = MissingRequired ProtocolsInner | MissingRecommended ProtocolsInner

definition should_shutdown :: "ProtocolSupportError \<Rightarrow> bool" where
  "should_shutdown e = (case e of MissingRequired _ \<Rightarrow> True | MissingRecommended _ \<Rightarrow> False)"


text \<open>\<open>named::FLOWCTRL_CC\<close>, and \<open>missing_recommended_ok\<close>, which collects it into a set; the
  assertions of \<open>from_iter\<close> hold, so the branch for the panic is not taken.\<close>

definition FLOWCTRL_CC :: NamedSubver where
  "FLOWCTRL_CC = \<lparr>ns_kind = 11, ns_version = 2\<rparr>"

definition missing_recommended_ok :: ProtocolsInner where
  "missing_recommended_ok =
     (case protocols_from_iter [FLOWCTRL_CC] of Some p \<Rightarrow> p | None \<Rightarrow> ProtocolsInner_default)"



section \<open>Watching the directory\<close>




section \<open>Laws\<close>



lemma missing_recommended_is_named:
  "protocols_from_iter [FLOWCTRL_CC] = Some missing_recommended_ok"
  by (simp add: protocols_from_iter_def missing_recommended_ok_def FLOWCTRL_CC_def Let_def
      N_RECOGNIZED_def MAX_VER_def)






section \<open>Properties\<close>



end
