(* ===== verification/Conflux.thy ===== *)
theory Conflux
  imports StreamFlow Congestion
begin

text \<open>
  Multi-path circuits, one leg at a time: \<open>conflux.rs\<close>, \<open>conflux/msghandler.rs\<close> and
  \<open>client/reactor/conflux/msghandler.rs\<close> of \<open>tor-proto\<close>. Every leg of a conflux set has a
  message handler that runs the handshake (LINK, LINKED, LINKED\_ACK) and numbers the messages
  that count: those received on the leg, which a SWITCH message advances, and those sent on it.
  The number of the last message delivered to a stream is shared by all legs of the set; it is
  an argument of the handler's operations, and its owner is the set (theory \<open>ConfluxSet\<close>). The
  trait \<open>AbstractConfluxMsgHandler\<close> has one implementation, the client's, so the wrapper
  \<open>ConfluxMsgHandler\<close> and the client's handler are one record here. Counters are 64-bit words
  and wrap, as they do in a release build.
\<close>

section \<open>Which messages are numbered\<close>

definition cmd_counts_towards_seqno :: "RelayCmd \<Rightarrow> bool" where
  "cmd_counts_towards_seqno cmd =
     (if cmd \<in> {RC_BEGIN, RC_DATA, RC_END, RC_CONNECTED} then True
      else if cmd \<in> {RC_SENDME, RC_EXTEND, RC_EXTENDED, RC_TRUNCATE, RC_TRUNCATED, RC_DROP} then False
      else if cmd \<in> {RC_RESOLVE, RC_RESOLVED} then True
      else if cmd \<in> {RC_BEGIN_DIR, RC_EXTEND2, RC_EXTENDED2, 32, 33, 34, 35, 36, 37, 38, 39, 40, 41, 42}
        then False
      else if cmd \<in> {RC_XOFF, RC_XON} then True
      else False)"

section \<open>The handler of a leg\<close>

type_synonym HopNum = nat
type_synonym V1Nonce = "byte list"

datatype ConfluxState = CsUnlinked | CsAwaitingLink V1Nonce | CsLinked

datatype ConfluxStatus = StUnlinked | StPending | StLinked

datatype RemoveLegReason =
    ConfluxHandshakeTimeout
  | ConfluxHandshakeErr proto_error
  | ChannelClosed

text \<open>Times are nanoseconds of the wall clock, as in the theory of congestion control.\<close>

record conflux_handler =
  ch_state :: ConfluxState
  ch_nonce :: V1Nonce
  ch_join_point :: HopNum
  ch_init_rtt :: "nat option"
  ch_link_sent :: "nat option"
  ch_last_seq_recv :: u64
  ch_last_seq_sent :: u64
  ch_have_seen_switch :: bool
  ch_cells_since_switch :: u64
  ch_cwnd_params :: cwnd_params

datatype ConfluxCmd =
    RemoveLeg RemoveLegReason
  | HandshakeComplete HopNum bool relay_msg_outer

definition conflux_handler_new :: "HopNum \<Rightarrow> V1Nonce \<Rightarrow> cwnd_params \<Rightarrow> conflux_handler" where
  "conflux_handler_new join_point nonce params =
     \<lparr>ch_state = CsUnlinked, ch_nonce = nonce, ch_join_point = join_point, ch_init_rtt = None,
      ch_link_sent = None, ch_last_seq_recv = 0, ch_last_seq_sent = 0, ch_have_seen_switch = False,
      ch_cells_since_switch = 0, ch_cwnd_params = params\<rparr>"

subsection \<open>The trait's operations\<close>

definition validate_source_hop :: "conflux_handler \<Rightarrow> HopNum \<Rightarrow> proto_error + unit" where
  "validate_source_hop h hop =
     (if hop \<noteq> ch_join_point h
      then Inl (ProtoViolation ''Received cell from unexpected hop on client conflux circuit'')
      else Inr ())"

definition handler_status :: "conflux_handler \<Rightarrow> ConfluxStatus" where
  "handler_status h =
     (case ch_state h of
        CsUnlinked \<Rightarrow> StUnlinked
      | CsAwaitingLink _ \<Rightarrow> StPending
      | CsLinked \<Rightarrow> StLinked)"

definition note_link_sent :: "nat \<Rightarrow> (conflux_handler, proto_error, unit) eff" where
  "note_link_sent ts h =
     (case ch_state h of
        CsUnlinked \<Rightarrow>
          (Inr (), h\<lparr>ch_state := CsAwaitingLink (ch_nonce h), ch_link_sent := Some ts\<rparr>)
      | _ \<Rightarrow> (Inl (ProtoInternal ''Sent duplicate LINK cell?!''), h))"

definition LINK_TIMEOUT :: nat where
  "LINK_TIMEOUT = 60 * 10 ^ 9"

definition handshake_timeout :: "conflux_handler \<Rightarrow> nat option" where
  "handshake_timeout h =
     (case ch_state h of
        CsAwaitingLink _ \<Rightarrow> map_option (\<lambda>t. t + LINK_TIMEOUT) (ch_link_sent h)
      | _ \<Rightarrow> None)"

definition inc_last_seq_recv :: "conflux_handler \<Rightarrow> conflux_handler" where
  "inc_last_seq_recv h =
     h\<lparr>ch_last_seq_recv := ch_last_seq_recv h + 1,
       ch_cells_since_switch := ch_cells_since_switch h + 1\<rparr>"

definition inc_last_seq_sent :: "conflux_handler \<Rightarrow> conflux_handler" where
  "inc_last_seq_sent h = h\<lparr>ch_last_seq_sent := ch_last_seq_sent h + 1\<rparr>"

subsection \<open>The handshake and SWITCH\<close>

definition handle_conflux_link :: "(conflux_handler, proto_error, ConfluxCmd option) eff" where
  "handle_conflux_link = efail (ProtoViolation ''Unexpected CONFLUX_LINK cell on client circuit'')"

definition as_conflux_linked :: "any_relay_msg \<Rightarrow> conflux_link option" where
  "as_conflux_linked m = (case m of RConfluxLinked l \<Rightarrow> Some l | _ \<Rightarrow> None)"

definition as_conflux_switch :: "any_relay_msg \<Rightarrow> u32 option" where
  "as_conflux_switch m = (case m of RConfluxSwitch n \<Rightarrow> Some n | _ \<Rightarrow> None)"

text \<open>\<open>Duration::from_secs(u64::MAX)\<close>, which stands for a clock that went backwards.\<close>

definition RTT_UNKNOWN :: nat where
  "RTT_UNKNOWN = (2 ^ 64 - 1) * 10 ^ 9"

definition handle_conflux_linked ::
    "nat \<Rightarrow> unparsed_relay_msg \<Rightarrow> HopNum \<Rightarrow> (conflux_handler, proto_error, ConfluxCmd option) eff" where
  "handle_conflux_linked now msg hop h =
     (case ch_link_sent h of
        None \<Rightarrow> (Inl (ProtoViolation ''Received CONFLUX_LINKED cell before sending CONFLUX_LINK?!''), h)
      | Some link_sent \<Rightarrow>
     (case ch_state h of
        CsUnlinked \<Rightarrow>
          (Inl (ProtoViolation ''Received CONFLUX_LINKED cell before sending CONFLUX_LINK?!''), h)
      | CsLinked \<Rightarrow> (Inl (ProtoViolation ''Received CONFLUX_LINKED on already linked circuit''), h)
      | CsAwaitingLink expected_nonce \<Rightarrow>
     (case decode_only ''CONFLUX_LINKED'' as_conflux_linked ''linked message'' msg of
        Inl e \<Rightarrow> (Inl e, h)
      | Inr linked \<Rightarrow>
          if expected_nonce = lp_nonce (cl_payload linked) then
            (Inr (Some (HandshakeComplete hop False \<lparr>ro_streamid = None, ro_msg = RConfluxLinkedAck\<rparr>)),
             h\<lparr>ch_state := CsLinked,
               ch_init_rtt := Some (if link_sent \<le> now then now - link_sent else RTT_UNKNOWN)\<rparr>)
          else (Inl (ProtoViolation ''Received CONFLUX_LINKED cell with mismatched nonce''), h))))"

definition handle_conflux_linked_ack :: "(conflux_handler, proto_error, ConfluxCmd option) eff" where
  "handle_conflux_linked_ack =
     efail (ProtoViolation ''Unexpected CONFLUX_LINKED_ACK cell on client circuit'')"

definition validate_switch_seqno :: "conflux_handler \<Rightarrow> u64 \<Rightarrow> u32 \<Rightarrow> proto_error + unit" where
  "validate_switch_seqno h last_seq_delivered rel_seqno =
     (if rel_seqno = 0 then Inl (ProtoViolation ''Received SWITCH cell with seqno = 0'')
      else let no_data = (last_seq_delivered = 0);
               is_first_switch = (\<not> ch_have_seen_switch h)
           in if no_data \<and> is_first_switch \<and> cwnd_init (ch_cwnd_params h) < rel_seqno
              then Inl (ProtoViolation ''SWITCH cell seqno exceeds initial cwnd'')
              else Inr ())"

definition handle_conflux_switch ::
    "u64 \<Rightarrow> unparsed_relay_msg \<Rightarrow> (conflux_handler, proto_error, ConfluxCmd option) eff" where
  "handle_conflux_switch last_seq_delivered msg h =
     (if ch_state h \<noteq> CsLinked
      then (Inl (ProtoViolation ''Received CONFLUX_SWITCH on unlinked circuit?!''), h)
      else if ch_have_seen_switch h \<and> ch_cells_since_switch h = 0
      then (Inl (ProtoViolation ''Received consecutive SWITCH cells on circuit?!''), h)
      else
     (case decode_only ''CONFLUX_SWITCH'' as_conflux_switch ''switch message'' msg of
        Inl e \<Rightarrow> (Inl e, h)
      | Inr rel_seqno \<Rightarrow>
     (case validate_switch_seqno h last_seq_delivered rel_seqno of
        Inl e \<Rightarrow> (Inl e, h)
      | Inr _ \<Rightarrow>
          (Inr None,
           h\<lparr>ch_last_seq_recv := ch_last_seq_recv h + ucast rel_seqno,
             ch_have_seen_switch := True,
             ch_cells_since_switch := 0\<rparr>))))"

definition handler_handle_msg ::
    "nat \<Rightarrow> u64 \<Rightarrow> unparsed_relay_msg \<Rightarrow> HopNum \<Rightarrow> (conflux_handler, proto_error, ConfluxCmd option) eff" where
  "handler_handle_msg now last_seq_delivered msg hop =
     (let cmd = unparsed_cmd msg in
      if cmd = RC_CONFLUX_LINK then handle_conflux_link
      else if cmd = RC_CONFLUX_LINKED then handle_conflux_linked now msg hop
      else if cmd = RC_CONFLUX_LINKED_ACK then handle_conflux_linked_ack
      else if cmd = RC_CONFLUX_SWITCH then handle_conflux_switch last_seq_delivered msg
      else efail (ProtoInternal ''received non-conflux cell in conflux handler?!''))"

subsection \<open>The wrapper\<close>

text \<open>\<open>ConfluxMsgHandler::handle_conflux_msg\<close>: an error becomes the command to remove the leg.\<close>

definition handle_conflux_msg ::
    "nat \<Rightarrow> u64 \<Rightarrow> unparsed_relay_msg \<Rightarrow> HopNum \<Rightarrow> conflux_handler \<Rightarrow> ConfluxCmd option \<times> conflux_handler" where
  "handle_conflux_msg now last_seq_delivered msg hop h =
     (case ebind (\<lambda>h. (validate_source_hop h hop, h))
                 (\<lambda>_. handler_handle_msg now last_seq_delivered msg hop) h of
        (Inr cmd, h') \<Rightarrow> (cmd, h')
      | (Inl e, h') \<Rightarrow> (Some (RemoveLeg (ConfluxHandshakeErr e)), h'))"

definition is_msg_in_order :: "conflux_handler \<Rightarrow> u64 \<Rightarrow> proto_error + bool" where
  "is_msg_in_order h last_seq_delivered =
     (if ch_last_seq_recv h < last_seq_delivered + 1
      then Inl (ProtoInternal
             ''Got a conflux cell with a sequence number less than the last delivered'')
      else Inr (ch_last_seq_recv h = last_seq_delivered + 1))"

record ooo_msg =
  om_seqno :: u64
  om_hopnum :: HopNum
  om_counts :: bool
  om_streamid :: stream_id
  om_msg :: unparsed_relay_msg

datatype ConfluxAction = ActDeliver unparsed_relay_msg | ActEnqueue ooo_msg

definition prepare_ooo_entry ::
    "conflux_handler \<Rightarrow> HopNum \<Rightarrow> bool \<Rightarrow> stream_id \<Rightarrow> unparsed_relay_msg \<Rightarrow> ooo_msg" where
  "prepare_ooo_entry h hopnum counts streamid msg =
     \<lparr>om_seqno = ch_last_seq_recv h, om_hopnum = hopnum, om_counts = counts, om_streamid = streamid,
      om_msg = msg\<rparr>"

definition action_for_msg ::
    "u64 \<Rightarrow> HopNum \<Rightarrow> bool \<Rightarrow> stream_id \<Rightarrow> unparsed_relay_msg \<Rightarrow>
     (conflux_handler, proto_error, ConfluxAction) eff" where
  "action_for_msg last_seq_delivered hopnum counts streamid msg h =
     (if \<not> cmd_counts_towards_seqno (unparsed_cmd msg) then (Inr (ActDeliver msg), h)
      else let h' = inc_last_seq_recv h in
        case is_msg_in_order h' last_seq_delivered of
          Inl e \<Rightarrow> (Inl e, h')
        | Inr True \<Rightarrow> (Inr (ActDeliver msg), h')
        | Inr False \<Rightarrow> (Inr (ActEnqueue (prepare_ooo_entry h' hopnum counts streamid msg)), h'))"

definition inc_last_seq_delivered :: "u64 \<Rightarrow> unparsed_relay_msg \<Rightarrow> u64" where
  "inc_last_seq_delivered last_seq_delivered msg =
     (if cmd_counts_towards_seqno (unparsed_cmd msg) then last_seq_delivered + 1 else last_seq_delivered)"

definition note_cell_sent :: "RelayCmd \<Rightarrow> conflux_handler \<Rightarrow> conflux_handler" where
  "note_cell_sent cmd h = (if cmd_counts_towards_seqno cmd then inc_last_seq_sent h else h)"

end
