(* ===== verification/ConfluxSet.thy ===== *)
theory ConfluxSet
  imports Conflux
begin

text \<open>
  A tunnel of several circuits: \<open>ConfluxSet\<close> of \<open>client/reactor/conflux.rs\<close>, and the part of
  the tunnel reactor (\<open>client/reactor.rs\<close>, \<open>client/reactor/circuit.rs\<close>) that orders incoming
  messages and runs the handshake. A circuit is a \<open>leg\<close>: its handler, its path, and what the
  congestion control of its join point answers to the set's questions. The cells handed to the
  circuits for sending are the list \<open>cs_out\<close>, in order; the messages handed to the streams are
  the list \<open>cr_delivered\<close>. What a circuit does with a cell it sends (encryption, congestion
  control) and what a stream does with a message belong to other theories.
\<close>

section \<open>State\<close>

datatype hop_detail = HopRelay nat | HopVirtual

record leg =
  leg_id :: nat
  leg_handler :: "conflux_handler option"
  leg_path :: "hop_detail list"
  leg_has_streams :: bool
  leg_is_vegas :: bool
  leg_ewma_usec :: "u32 option"
  leg_can_send :: bool
  leg_inflight :: "u32 option"
  leg_cwnd :: "cwnd_params option"

record conflux_set =
  cs_legs :: "leg list"
  cs_primary_id :: nat
  cs_join_point :: "(HopNum \<times> hop_detail) option"
  cs_nonce :: V1Nonce
  cs_desired_ux :: u8
  cs_last_seq_delivered :: u64
  cs_selected_init_primary :: bool
  cs_out :: "(nat \<times> HopNum \<times> relay_msg_outer) list"

record send_relay_cell =
  src_hop :: "HopNum option"
  src_cell :: relay_msg_outer

datatype reactor_error = Shutdown | ReactorErr proto_error

definition UX_NO_OPINION :: u8 where "UX_NO_OPINION = 0"
definition UX_MIN_LATENCY :: u8 where "UX_MIN_LATENCY = 1"
definition UX_LOW_MEM_LATENCY :: u8 where "UX_LOW_MEM_LATENCY = 2"
definition UX_HIGH_THROUGHPUT :: u8 where "UX_HIGH_THROUGHPUT = 3"
definition UX_LOW_MEM_THROUGHPUT :: u8 where "UX_LOW_MEM_THROUGHPUT = 4"

definition ConfluxSet_new :: "V1Nonce \<Rightarrow> leg \<Rightarrow> conflux_set" where
  "ConfluxSet_new nonce circuit_leg =
     \<lparr>cs_legs = [circuit_leg], cs_primary_id = leg_id circuit_leg, cs_join_point = None,
      cs_nonce = nonce, cs_desired_ux = UX_NO_OPINION, cs_last_seq_delivered = 0,
      cs_selected_init_primary = False, cs_out = []\<rparr>"

section \<open>Questions to a circuit\<close>

definition conflux_status :: "leg \<Rightarrow> ConfluxStatus option" where
  "conflux_status l = map_option handler_status (leg_handler l)"

definition is_conflux_pending :: "leg \<Rightarrow> bool" where
  "is_conflux_pending l =
     (case conflux_status l of None \<Rightarrow> False | Some status \<Rightarrow> status \<noteq> StLinked)"

definition leg_init_rtt :: "leg \<Rightarrow> nat option" where
  "leg_init_rtt l = (case leg_handler l of Some h \<Rightarrow> ch_init_rtt h | None \<Rightarrow> None)"

definition leg_last_seq_sent :: "leg \<Rightarrow> proto_error + u64" where
  "leg_last_seq_sent l =
     (case leg_handler l of
        None \<Rightarrow> Inl (ProtoInternal ''tried to get last_seq_sent of non-conflux circ'')
      | Some h \<Rightarrow> Inr (ch_last_seq_sent h))"

definition leg_last_seq_recv :: "leg \<Rightarrow> proto_error + u64" where
  "leg_last_seq_recv l =
     (case leg_handler l of
        None \<Rightarrow> Inl (ProtoInternal ''tried to get last_seq_recv of non-conflux circ'')
      | Some h \<Rightarrow> Inr (ch_last_seq_recv h))"

definition leg_set_last_seq_sent :: "u64 \<Rightarrow> (leg, proto_error, unit) eff" where
  "leg_set_last_seq_sent n l =
     (case leg_handler l of
        None \<Rightarrow> (Inl (ProtoInternal ''tried to get last_seq_sent of non-conflux circ''), l)
      | Some h \<Rightarrow> (Inr (), l\<lparr>leg_handler := Some (h\<lparr>ch_last_seq_sent := n\<rparr>)\<rparr>))"

section \<open>The legs of a set\<close>

definition cs_leg :: "conflux_set \<Rightarrow> nat \<Rightarrow> leg option" where
  "cs_leg s i = find (\<lambda>l. leg_id l = i) (cs_legs s)"

text \<open>Changing the leg that \<open>leg_mut\<close> returns: the first one with the identifier.\<close>

fun update_leg :: "nat \<Rightarrow> (leg \<Rightarrow> leg) \<Rightarrow> leg list \<Rightarrow> leg list" where
  "update_leg i f [] = []"
| "update_leg i f (l # ls) = (if leg_id l = i then f l # ls else l # update_leg i f ls)"

definition on_leg ::
    "proto_error \<Rightarrow> nat \<Rightarrow> (leg, proto_error, 'a) eff \<Rightarrow> (conflux_set, proto_error, 'a) eff" where
  "on_leg missing i m s =
     (case cs_leg s i of
        None \<Rightarrow> (Inl missing, s)
      | Some l \<Rightarrow> (case m l of (r, l') \<Rightarrow> (r, s\<lparr>cs_legs := update_leg i (\<lambda>_. l') (cs_legs s)\<rparr>)))"

definition single_leg :: "conflux_set \<Rightarrow> proto_error + leg" where
  "single_leg s =
     (case cs_legs s of
        [l] \<Rightarrow> Inr l
      | _ \<Rightarrow> Inl (ProtoBadApiUsage ''not a single leg conflux set''))"

definition on_primary_leg :: "(leg, proto_error, 'a) eff \<Rightarrow> (conflux_set, proto_error, 'a) eff" where
  "on_primary_leg m s =
     (if cs_legs s = [] then (Inl (ProtoBadApiUsage ''tried to get circuit leg before creating it?!''), s)
      else on_leg (ProtoInternal ''conflux set is empty?!'') (cs_primary_id s) m s)"

fun remove_first :: "('a \<Rightarrow> bool) \<Rightarrow> 'a list \<Rightarrow> ('a \<times> 'a list) option" where
  "remove_first P [] = None"
| "remove_first P (x # xs) =
     (if P x then Some (x, xs) else map_option (\<lambda>(y, ys). (y, x # ys)) (remove_first P xs))"

definition remove_unchecked :: "nat \<Rightarrow> (conflux_set, proto_error, leg) eff" where
  "remove_unchecked i s =
     (case remove_first (\<lambda>l. leg_id l = i) (cs_legs s) of
        None \<Rightarrow> (Inl (ProtoInternal ''leg not found in conflux set''), s)
      | Some (l, ls) \<Rightarrow> (Inr l, s\<lparr>cs_legs := ls\<rparr>))"

definition take_single_leg :: "(conflux_set, proto_error, leg) eff" where
  "take_single_leg s =
     (case single_leg s of Inl e \<Rightarrow> (Inl e, s) | Inr l \<Rightarrow> remove_unchecked (leg_id l) s)"

text \<open>The greatest number among the legs that have a handler.\<close>

definition max_over_legs :: "(leg \<Rightarrow> proto_error + u64) \<Rightarrow> conflux_set \<Rightarrow> u64 option" where
  "max_over_legs f s =
     (case List.map_filter (\<lambda>l. case f l of Inl _ \<Rightarrow> None | Inr n \<Rightarrow> Some n) (cs_legs s) of
        [] \<Rightarrow> None
      | ns \<Rightarrow> Some (Max (set ns)))"

definition max_last_seq_recv :: "conflux_set \<Rightarrow> u64 option" where
  "max_last_seq_recv s = max_over_legs leg_last_seq_recv s"

definition max_last_seq_sent :: "conflux_set \<Rightarrow> u64 option" where
  "max_last_seq_sent s = max_over_legs leg_last_seq_sent s"

text \<open>\<open>join_point_hop\<close>: whether the join point exists on the circuit.\<close>

definition join_point_hop :: "conflux_set \<Rightarrow> leg \<Rightarrow> proto_error + HopNum" where
  "join_point_hop s l =
     (case cs_join_point s of
        None \<Rightarrow> Inl (ProtoInternal ''No join point on conflux tunnel?!'')
      | Some (hop, _) \<Rightarrow>
          if hop < length (leg_path l) then Inr hop
          else Inl (ProtoInternal ''Conflux join point disappeared?!''))"

definition remove_conflux :: "conflux_set \<Rightarrow> leg \<Rightarrow> reactor_error + leg" where
  "remove_conflux s circ =
     (case conflux_status circ of
        None \<Rightarrow> Inl (ReactorErr (ProtoInternal ''Found non-conflux circuit in conflux set?!''))
      | Some StUnlinked \<Rightarrow> Inr circ
      | Some _ \<Rightarrow>
     (case leg_last_seq_recv circ of Inl e \<Rightarrow> Inl (ReactorErr e) | Inr last_recv \<Rightarrow>
     (case leg_last_seq_sent circ of Inl e \<Rightarrow> Inl (ReactorErr e) | Inr last_sent \<Rightarrow>
      if (case max_last_seq_recv s of Some m \<Rightarrow> m < last_recv | None \<Rightarrow> False) then Inl Shutdown
      else if (case max_last_seq_sent s of Some m \<Rightarrow> m < last_sent | None \<Rightarrow> False) then Inl Shutdown
      else
     (case join_point_hop s circ of Inl e \<Rightarrow> Inl (ReactorErr e) | Inr _ \<Rightarrow>
     (case (leg_inflight circ, leg_cwnd circ) of
        (Some inflight, Some cwnd) \<Rightarrow>
          if sendme_inc cwnd \<le> inflight then Inl Shutdown else Inr circ
      | _ \<Rightarrow> Inl (ReactorErr (ProtoInternal
               ''Congestion control algorithm doesn't track inflight cells or cwnd?!'')))))))"

definition conflux_remove :: "nat \<Rightarrow> (conflux_set, reactor_error, leg) eff" where
  "conflux_remove i =
     ebind (emap_err ReactorErr (remove_unchecked i)) (\<lambda>circ s.
       if cs_legs s = [] then (Inl Shutdown, s)
       else if i = cs_primary_id s then (Inl Shutdown, s)
       else (remove_conflux s circ, s))"

section \<open>Adding legs\<close>

definition hops_eq :: "hop_detail \<Rightarrow> hop_detail \<Rightarrow> proto_error + bool" where
  "hops_eq h1 h2 =
     (case (h1, h2) of
        (HopRelay t1, HopRelay t2) \<Rightarrow> Inr (t1 = t2)
      | (HopVirtual, HopVirtual) \<Rightarrow> Inl (ProtoInternal ''onion service conflux not supported'')
      | _ \<Rightarrow> Inr False)"

definition leg_is_valid :: "HopNum \<times> hop_detail \<Rightarrow> leg \<Rightarrow> proto_error + bool" where
  "leg_is_valid join_point l =
     (if leg_path l = [] then Inr False
      else if \<not> leg_is_vegas l then Inr False
      else let last_hop_num = length (leg_path l) - 1 in
        if last_hop_num \<noteq> fst join_point then Inr False
        else (case hops_eq (last (leg_path l)) (snd join_point) of
                Inl e \<Rightarrow> Inl e
              | Inr eq \<Rightarrow> Inr (eq \<and> \<not> leg_has_streams l \<and> conflux_status l = None)))"

fun all_legs_valid :: "HopNum \<times> hop_detail \<Rightarrow> leg list \<Rightarrow> proto_error + unit" where
  "all_legs_valid jp [] = Inr ()"
| "all_legs_valid jp (l # ls) =
     (case leg_is_valid jp l of
        Inl e \<Rightarrow> Inl e
      | Inr False \<Rightarrow> Inl (ProtoBadApiUsage ''one more more conflux circuits are invalid'')
      | Inr True \<Rightarrow> all_legs_valid jp ls)"

text \<open>The join point: the one the set has, or the last hop of its first leg.\<close>

definition choose_join_point :: "conflux_set \<Rightarrow> (HopNum \<times> hop_detail) option" where
  "choose_join_point s =
     (case cs_join_point s of
        Some p \<Rightarrow> Some p
      | None \<Rightarrow>
          (case cs_legs s of
             [] \<Rightarrow> None
           | l # _ \<Rightarrow> if leg_path l = [] then None else Some (length (leg_path l) - 1, last (leg_path l))))"

definition set_cwnd_params :: "conflux_set \<Rightarrow> proto_error + cwnd_params" where
  "set_cwnd_params s =
     (case cs_leg s (cs_primary_id s) of
        None \<Rightarrow> Inl (ProtoInternal ''no primary leg?!'')
      | Some l \<Rightarrow>
     (case join_point_hop s l of
        Inl e \<Rightarrow> Inl e
      | Inr _ \<Rightarrow>
          (case leg_cwnd l of
             None \<Rightarrow> Inl (ProtoInternal ''congestion control algorithm does not track the cwnd?!'')
           | Some params \<Rightarrow> Inr params)))"

definition install_handler :: "conflux_set \<Rightarrow> HopNum \<Rightarrow> cwnd_params \<Rightarrow> leg \<Rightarrow> leg" where
  "install_handler s hop params l =
     (if conflux_status l = None
      then l\<lparr>leg_handler := Some (conflux_handler_new hop (cs_nonce s) params)\<rparr> else l)"

definition add_legs :: "leg list \<Rightarrow> (conflux_set, proto_error, unit) eff" where
  "add_legs legs s =
     (if legs = [] then (Inl (ProtoBadApiUsage ''asked to add empty leg list to conflux set''), s)
      else
     (case choose_join_point s of
        None \<Rightarrow> (Inl (ProtoBadApiUsage ''asked to join circuit with no hops''), s\<lparr>cs_join_point := None\<rparr>)
      | Some jp \<Rightarrow>
     (case all_legs_valid jp legs of
        Inl e \<Rightarrow> (Inl e, s\<lparr>cs_join_point := None\<rparr>)
      | Inr _ \<Rightarrow>
          let s = s\<lparr>cs_join_point := Some jp, cs_legs := cs_legs s @ legs\<rparr> in
     (case set_cwnd_params s of
        Inl e \<Rightarrow> (Inl e, s)
      | Inr params \<Rightarrow>
          (Inr (), s\<lparr>cs_legs := map (install_handler s (fst jp) params) (cs_legs s)\<rparr>)))))"

section \<open>Choosing the sending leg\<close>

text \<open>\<open>min_by_key\<close> of an iterator: the first of the elements with the least key.\<close>

fun min_by_key :: "('a \<Rightarrow> nat) \<Rightarrow> 'a list \<Rightarrow> 'a option" where
  "min_by_key f [] = None"
| "min_by_key f (x # xs) =
     (case min_by_key f xs of
        None \<Rightarrow> Some x
      | Some y \<Rightarrow> Some (if f x \<le> f y then x else y))"

definition maybe_select_init_primary :: "conflux_set \<Rightarrow> conflux_set" where
  "maybe_select_init_primary s =
     (case min_by_key snd (List.map_filter (\<lambda>l. map_option (\<lambda>rtt. (leg_id l, rtt)) (leg_init_rtt l)) (cs_legs s)) of
        Some (best, _) \<Rightarrow> s\<lparr>cs_primary_id := best, cs_selected_init_primary := True\<rparr>
      | None \<Rightarrow> s)"

definition should_update_primary_leg :: "conflux_set \<Rightarrow> bool \<times> conflux_set" where
  "should_update_primary_leg s =
     (if \<not> cs_selected_init_primary s then (False, maybe_select_init_primary s)
      else if length (cs_legs s) < 2 then (False, s)
      else (True, s))"

definition leg_rtt_usec :: "leg \<Rightarrow> u32 option" where
  "leg_rtt_usec l =
     (case leg_ewma_usec l of Some r \<Rightarrow> Some r | None \<Rightarrow> map_option usec_u32 (leg_init_rtt l))"

fun min_rtt_loop ::
    "conflux_set \<Rightarrow> bool \<Rightarrow> (nat \<times> u32) option \<Rightarrow> leg list \<Rightarrow> proto_error + nat option" where
  "min_rtt_loop s check_can_send best [] = Inr (map_option fst best)"
| "min_rtt_loop s check_can_send best (circ # legs) =
     (case join_point_hop s circ of Inl e \<Rightarrow> Inl e | Inr _ \<Rightarrow>
      if check_can_send \<and> \<not> leg_can_send circ then min_rtt_loop s check_can_send best legs
      else (case leg_rtt_usec circ of
              None \<Rightarrow> Inl (ProtoInternal ''attempted to select primary leg before handshake completed?!'')
            | Some rtt \<Rightarrow>
                min_rtt_loop s check_can_send
                  (case best of
                     None \<Rightarrow> Some (leg_id circ, rtt)
                   | Some b \<Rightarrow> if snd b \<le> rtt then Some b else Some (leg_id circ, rtt)) legs))"

definition select_primary_leg_min_rtt :: "conflux_set \<Rightarrow> bool \<Rightarrow> proto_error + nat option" where
  "select_primary_leg_min_rtt s check_can_send = min_rtt_loop s check_can_send None (cs_legs s)"

definition select_primary_leg :: "conflux_set \<Rightarrow> proto_error + nat option" where
  "select_primary_leg s =
     (let ux = cs_desired_ux s in
      if ux = UX_NO_OPINION \<or> ux = UX_MIN_LATENCY then select_primary_leg_min_rtt s False
      else if ux = UX_HIGH_THROUGHPUT then select_primary_leg_min_rtt s True
      else select_primary_leg_min_rtt s False)"

definition maybe_update_primary_leg :: "(conflux_set, proto_error, send_relay_cell option) eff" where
  "maybe_update_primary_leg s =
     (case cs_join_point s of
        None \<Rightarrow> (Inr None, s)
      | Some (join_point, _) \<Rightarrow>
     (case should_update_primary_leg s of
        (False, s) \<Rightarrow> (Inr None, s)
      | (True, s) \<Rightarrow>
     (case select_primary_leg s of
        Inl e \<Rightarrow> (Inl e, s)
      | Inr None \<Rightarrow> (Inr None, s)
      | Inr (Some new_primary_id) \<Rightarrow>
          if cs_primary_id s = new_primary_id then (Inr None, s)
          else
            ebind (on_primary_leg (\<lambda>l. (leg_last_seq_sent l, l))) (\<lambda>prev.
            ebind (\<lambda>s. (Inr (), s\<lparr>cs_primary_id := new_primary_id\<rparr>)) (\<lambda>_.
            ebind (on_primary_leg (\<lambda>l. (leg_last_seq_sent l, l))) (\<lambda>new.
            if unat (prev - new) < 2 ^ 32 then
              ebind (on_primary_leg (leg_set_last_seq_sent prev)) (\<lambda>_.
              eret (Some \<lparr>src_hop = Some join_point,
                          src_cell = \<lparr>ro_streamid = None, ro_msg = RConfluxSwitch (ucast (prev - new))\<rparr>\<rparr>))
            else efail (ProtoInternal ''Seqno delta for switch does not fit in u32?!'')))) s)))"

section \<open>Sending\<close>

text \<open>\<open>Circuit::send_relay_cell\<close> as far as the set sees it: the cell goes out, then the handler
  counts it. The limits, the flow control and the encryption of the hop are those of the
  theories \<open>StreamFlow\<close>, \<open>Congestion\<close> and \<open>RelayCrypto\<close>.\<close>

definition circ_send_relay_cell :: "send_relay_cell \<Rightarrow> nat \<Rightarrow> (conflux_set, proto_error, unit) eff" where
  "circ_send_relay_cell msg i s =
     (let cmd = AnyRelayMsg_cmd (ro_msg (src_cell msg)) in
      case cs_leg s i of
        None \<Rightarrow> (Inl (ProtoInternal ''leg disappeared?!''), s)
      | Some l \<Rightarrow>
          if cmd \<noteq> RC_CONFLUX_LINK \<and> is_conflux_pending l
          then (Inl (ProtoInternal ''tried to send cell on unlinked circuit''), s)
          else
     (case src_hop msg of
        None \<Rightarrow> (Inl (ProtoPanic ''missing hop in client SendRelayCell?!''), s)
      | Some hop \<Rightarrow>
          if \<not> hop < length (leg_path l) then (Inl ProtoNoSuchHop, s)
          else
          (Inr (),
           s\<lparr>cs_out := cs_out s @ [(i, hop, src_cell msg)],
             cs_legs := update_leg i
               (\<lambda>l. l\<lparr>leg_handler := map_option (note_cell_sent cmd) (leg_handler l)\<rparr>)
               (cs_legs s)\<rparr>)))"

definition send_relay_cell_on_leg ::
    "send_relay_cell \<Rightarrow> nat option \<Rightarrow> (conflux_set, proto_error, unit) eff" where
  "send_relay_cell_on_leg msg leg s =
     ebind (\<lambda>s. case cs_join_point s of
              None \<Rightarrow> (Inr leg, s)
            | Some (join_point, _) \<Rightarrow>
                (case src_hop msg of
                   None \<Rightarrow> (Inl (ProtoPanic ''missing hop in client SendRelayCell?!''), s)
                 | Some hop \<Rightarrow>
                     if cmd_counts_towards_seqno (AnyRelayMsg_cmd (ro_msg (src_cell msg))) then
                       if hop \<noteq> join_point then (Inr leg, s)
                       else ebind maybe_update_primary_leg (\<lambda>sw.
                            ebind (case sw of
                                     None \<Rightarrow> eret ()
                                   | Some switch_cell \<Rightarrow>
                                       (\<lambda>s. circ_send_relay_cell switch_cell (cs_primary_id s) s)) (\<lambda>_ s.
                              (Inr (Some (cs_primary_id s)), s))) s
                     else (Inr leg, s)))
       (\<lambda>leg s. circ_send_relay_cell msg (case leg of Some i \<Rightarrow> i | None \<Rightarrow> cs_primary_id s) s) s"

definition primary_join_point :: "conflux_set \<Rightarrow> (nat \<times> HopNum) option" where
  "primary_join_point s = map_option (\<lambda>jp. (cs_primary_id s, fst jp)) (cs_join_point s)"

definition is_join_point_blocked_on_cc :: "HopNum \<Rightarrow> leg \<Rightarrow> proto_error + bool" where
  "is_join_point_blocked_on_cc join_hop circuit =
     (if join_hop < length (leg_path circuit) then Inr (\<not> leg_can_send circuit)
      else Inl (ProtoInternal ''Join point hop not found on circuit?!''))"

fun all_blocked_on_cc :: "HopNum \<Rightarrow> leg list \<Rightarrow> proto_error + bool" where
  "all_blocked_on_cc join_hop [] = Inr True"
| "all_blocked_on_cc join_hop (l # ls) =
     (case is_join_point_blocked_on_cc join_hop l of
        Inl e \<Rightarrow> Inl e
      | Inr blocked \<Rightarrow> if blocked then all_blocked_on_cc join_hop ls else Inr False)"

definition should_skip_join_point :: "conflux_set \<Rightarrow> proto_error + bool" where
  "should_skip_join_point s =
     (case primary_join_point s of
        None \<Rightarrow> Inr False
      | Some (_, join_hop) \<Rightarrow>
     (case cs_leg s (cs_primary_id s) of
        None \<Rightarrow> Inl (ProtoInternal ''primary leg disappeared?!'')
      | Some primary \<Rightarrow>
     (case is_join_point_blocked_on_cc join_hop primary of
        Inl e \<Rightarrow> Inl e
      | Inr False \<Rightarrow> Inr False
      | Inr True \<Rightarrow>
          if cs_desired_ux s \<noteq> UX_HIGH_THROUGHPUT then Inr True
          else all_blocked_on_cc join_hop (cs_legs s))))"

definition begin_conflux_link ::
    "nat \<Rightarrow> HopNum \<Rightarrow> relay_msg_outer \<Rightarrow> nat \<Rightarrow> (conflux_set, proto_error, unit) eff" where
  "begin_conflux_link now hop cell i =
     ebind (on_leg (ProtoInternal ''leg disappeared?!'') i
              (\<lambda>l. if leg_handler l = None
                   then (Inl (ProtoInternal ''tried to send LINK cell before installing a ConfluxMsgHandler?!''), l)
                   else (Inr (), l))) (\<lambda>_.
     ebind (circ_send_relay_cell \<lparr>src_hop = Some hop, src_cell = cell\<rparr> i) (\<lambda>_.
     on_leg (ProtoInternal ''leg disappeared?!'') i
       (\<lambda>l. case leg_handler l of
              None \<Rightarrow> (Inl (ProtoInternal ''ConfluxMsgHandler disappeared?!''), l)
            | Some h \<Rightarrow> (case note_link_sent now h of (r, h') \<Rightarrow> (r, l\<lparr>leg_handler := Some h'\<rparr>)))))"

text \<open>\<open>link_circuits\<close>: a LINK cell down each unlinked leg.\<close>

definition link_cell :: "V1Nonce \<Rightarrow> u8 \<Rightarrow> relay_msg_outer" where
  "link_cell nonce desired_ux =
     \<lparr>ro_streamid = None, ro_msg = RConfluxLink (ConfluxLink_new (V1LinkPayload_new nonce desired_ux))\<rparr>"

fun link_legs :: "nat \<Rightarrow> HopNum \<Rightarrow> nat list \<Rightarrow> (conflux_set, proto_error, unit) eff" where
  "link_legs now hop [] = eret ()"
| "link_legs now hop (i # is) =
     ebind (\<lambda>s. begin_conflux_link now hop (link_cell (cs_nonce s) (cs_desired_ux s)) i s) (\<lambda>_.
     link_legs now hop is)"

definition link_circuits :: "nat \<Rightarrow> (conflux_set, proto_error, unit) eff" where
  "link_circuits now s =
     (case primary_join_point s of
        None \<Rightarrow> (Inl (ProtoInternal ''no join point when trying to send LINK''), s)
      | Some (_, join_point) \<Rightarrow>
          link_legs now join_point
            (map leg_id (filter (\<lambda>l. conflux_status l = Some StUnlinked) (cs_legs s))) s)"

definition num_unlinked :: "conflux_set \<Rightarrow> nat" where
  "num_unlinked s =
     length (filter (\<lambda>l. conflux_status l = None \<or> conflux_status l = Some StUnlinked) (cs_legs s))"

definition is_seqno_in_order :: "conflux_set \<Rightarrow> u64 \<Rightarrow> bool" where
  "is_seqno_in_order s seq_recv \<longleftrightarrow> seq_recv = cs_last_seq_delivered s + 1"

end
