(* ===== verification/ConfluxReactor.thy ===== *)
theory ConfluxReactor
  imports ConfluxSet
begin

text \<open>
  The tunnel reactor as far as several legs are concerned: \<open>client/reactor.rs\<close> with
  \<open>handle_relay_msg\<close> and \<open>handle_in_order_relay_msg\<close> of \<open>client/reactor/circuit.rs\<close>. A
  message that counts and is not the next one is put into a heap, and the reactor's main loop
  empties the heap as far as it can before it waits for the next event. The heap is a list
  sorted by sequence number; the standard library does not say which of several entries with
  the same number comes first. Meta messages other than those of conflux belong to the circuit
  and leave this state unchanged.
\<close>

section \<open>State\<close>

datatype ConfluxHandshakeError = HsTimeout | HsLink proto_error | HsChannelClosed

record conflux_hs_ctx =
  hx_initiator_alive :: bool
  hx_num_legs :: nat
  hx_results :: "(ConfluxHandshakeError + unit) list"

record conflux_reactor =
  cr_set :: conflux_set
  cr_ooo :: "(nat \<times> ooo_msg) list"
  cr_delivered :: "(nat \<times> HopNum \<times> stream_id \<times> unparsed_relay_msg) list"
  cr_hs :: "conflux_hs_ctx option"
  cr_answers :: "(proto_error + (ConfluxHandshakeError + unit) list) list"

definition with_set :: "(conflux_set, 'e, 'a) eff \<Rightarrow> (conflux_reactor, 'e, 'a) eff" where
  "with_set m r = (case m (cr_set r) of (x, s) \<Rightarrow> (x, r\<lparr>cr_set := s\<rparr>))"

definition ooo_push :: "nat \<times> ooo_msg \<Rightarrow> (nat \<times> ooo_msg) list \<Rightarrow> (nat \<times> ooo_msg) list" where
  "ooo_push e heap = insort_key (\<lambda>e. om_seqno (snd e)) e heap"

section \<open>Delivering messages\<close>

text \<open>\<open>handle_in_order_relay_msg\<close> on a leg of the set: the shared number of delivered messages
  advances, and the message goes to its hop.\<close>

definition handle_in_order_relay_msg ::
    "leg \<Rightarrow> HopNum \<Rightarrow> stream_id \<Rightarrow> unparsed_relay_msg \<Rightarrow> (conflux_reactor, proto_error, unit) eff" where
  "handle_in_order_relay_msg circ hopnum streamid msg r =
     (let s = cr_set r;
          r = (case leg_handler circ of
                 None \<Rightarrow> r
               | Some _ \<Rightarrow>
                   r\<lparr>cr_set := s\<lparr>cs_last_seq_delivered := inc_last_seq_delivered (cs_last_seq_delivered s) msg\<rparr>\<rparr>)
      in if hopnum < length (leg_path circ)
         then (Inr (), r\<lparr>cr_delivered := cr_delivered r @ [(leg_id circ, hopnum, streamid, msg)]\<rparr>)
         else (Inl (ProtoViolation ''Cell from nonexistent hop!''), r))"

text \<open>The loop of \<open>try_dequeue_ooo_msgs\<close>. Every round takes an entry out of the heap.\<close>

function try_dequeue_ooo_msgs :: "(conflux_reactor, proto_error, unit) eff" where
  "try_dequeue_ooo_msgs r =
     (case cr_ooo r of
        [] \<Rightarrow> (Inr (), r)
      | (i, m) # rest \<Rightarrow>
          if \<not> is_seqno_in_order (cr_set r) (om_seqno m) then (Inr (), r)
          else (case cs_leg (cr_set r) i of
                  None \<Rightarrow> (Inl (ProtoInternal ''the circuit leg we just had disappeared?!''), r\<lparr>cr_ooo := rest\<rparr>)
                | Some circ \<Rightarrow>
                    (case handle_in_order_relay_msg circ (om_hopnum m) (om_streamid m) (om_msg m)
                            (r\<lparr>cr_ooo := rest\<rparr>) of
                       (Inl e, r') \<Rightarrow> (Inl e, r')
                     | (Inr _, r') \<Rightarrow> try_dequeue_ooo_msgs r')))"
  by pat_completeness auto

lemma ooo_of_handle_in_order [simp]:
  "cr_ooo (snd (handle_in_order_relay_msg circ hopnum streamid msg r)) = cr_ooo r"
  by (simp add: handle_in_order_relay_msg_def Let_def split: option.split)

termination try_dequeue_ooo_msgs
proof (relation "measure (\<lambda>r. length (cr_ooo r))", goal_cases)
  case 1
  show ?case by simp
next
  case (2 r e rest i m circ x r' y)
  have "(x, r') = handle_in_order_relay_msg circ (om_hopnum m) (om_streamid m) (om_msg m) (r\<lparr>cr_ooo := rest\<rparr>)"
    using 2 by simp
  then have "cr_ooo r' = rest"
    using ooo_of_handle_in_order [of circ "om_hopnum m" "om_streamid m" "om_msg m" "r\<lparr>cr_ooo := rest\<rparr>"]
    by (metis conflux_reactor.select_convs(2) conflux_reactor.surjective conflux_reactor.update_convs(2) snd_conv)
  then show ?case using 2 by simp
qed

declare try_dequeue_ooo_msgs.simps [simp del]

definition msg_streamid :: "unparsed_relay_msg \<Rightarrow> proto_error + stream_id option" where
  "msg_streamid msg =
     (if accepts_streamid_val (unparsed_cmd msg) (unparsed_stream_id msg)
      then Inr (unparsed_stream_id msg)
      else Inl (ProtoViolation ''Invalid stream ID for relay command''))"

section \<open>The handshake\<close>

definition send_conflux_outcome ::
    "bool \<Rightarrow> proto_error + (ConfluxHandshakeError + unit) list \<Rightarrow> (conflux_reactor, reactor_error, unit) eff" where
  "send_conflux_outcome initiator_alive res r =
     (if initiator_alive then (Inr (), r\<lparr>cr_answers := cr_answers r @ [res]\<rparr>) else (Inl Shutdown, r))"

definition note_conflux_handshake_result ::
    "ConfluxHandshakeError + unit \<Rightarrow> bool \<Rightarrow> (conflux_reactor, reactor_error, unit) eff" where
  "note_conflux_handshake_result res reactor_is_closing r =
     (case cr_hs r of
        None \<Rightarrow> (Inl (ReactorErr (ProtoInternal ''no conflux handshake context'')), r)
      | Some ctx \<Rightarrow>
          let results = hx_results ctx @ [res];
              tunnel_complete = (length results = hx_num_legs ctx)
          in if tunnel_complete \<or> reactor_is_closing
             then send_conflux_outcome (hx_initiator_alive ctx) (Inr results) (r\<lparr>cr_hs := None\<rparr>)
             else (Inr (), r\<lparr>cr_hs := Some (ctx\<lparr>hx_results := results\<rparr>)\<rparr>))"

definition run_remove_leg :: "nat \<Rightarrow> RemoveLegReason \<Rightarrow> (conflux_reactor, reactor_error, unit) eff" where
  "run_remove_leg i reason =
     ebind (with_set (conflux_remove i)) (\<lambda>circ.
     if is_conflux_pending circ then
       (let (error, proto_violation) =
          (case reason of
             ConfluxHandshakeTimeout \<Rightarrow> (HsTimeout, None)
           | ConfluxHandshakeErr e \<Rightarrow> (HsLink e, Some e)
           | ChannelClosed \<Rightarrow> (HsChannelClosed, None))
        in ebind (note_conflux_handshake_result (Inl error) (proto_violation \<noteq> None)) (\<lambda>_.
           case proto_violation of Some e \<Rightarrow> efail (ReactorErr e) | None \<Rightarrow> eret ()))
     else eret ())"

definition run_handshake_complete ::
    "nat \<Rightarrow> HopNum \<Rightarrow> relay_msg_outer \<Rightarrow> (conflux_reactor, reactor_error, unit) eff" where
  "run_handshake_complete i hop cell =
     ebind (note_conflux_handshake_result (Inr ()) False) (\<lambda>_.
     with_set (emap_err ReactorErr
       (send_relay_cell_on_leg \<lparr>src_hop = Some hop, src_cell = cell\<rparr> (Some i))))"

definition handle_link_circuits :: "nat \<Rightarrow> bool \<Rightarrow> leg list \<Rightarrow> (conflux_reactor, reactor_error, unit) eff" where
  "handle_link_circuits now initiator_alive circuits r =
     (if cr_hs r \<noteq> None then
        send_conflux_outcome initiator_alive (Inl (ProtoInternal ''conflux linking already in progress'')) r
      else
        let num_legs = length circuits + num_unlinked (cr_set r) in
        case with_set (ebind (add_legs circuits) (\<lambda>_. link_circuits now)) r of
          (Inl e, r') \<Rightarrow> send_conflux_outcome initiator_alive (Inl e) r'
        | (Inr _, r') \<Rightarrow>
            (Inr (), r'\<lparr>cr_hs := Some \<lparr>hx_initiator_alive = initiator_alive, hx_num_legs = num_legs,
                                       hx_results = []\<rparr>\<rparr>))"

section \<open>Incoming messages\<close>

definition is_conflux_cmd :: "RelayCmd \<Rightarrow> bool" where
  "is_conflux_cmd cmd \<longleftrightarrow>
     cmd \<in> {RC_CONFLUX_LINK, RC_CONFLUX_LINKED, RC_CONFLUX_LINKED_ACK, RC_CONFLUX_SWITCH}"

text \<open>\<open>handle_meta_cell\<close> for the messages of conflux, and the reactor's answer to the command it
  returns.\<close>

definition handle_conflux_meta ::
    "nat \<Rightarrow> nat \<Rightarrow> HopNum \<Rightarrow> unparsed_relay_msg \<Rightarrow> leg \<Rightarrow> (conflux_reactor, reactor_error, unit) eff" where
  "handle_conflux_meta now i hopnum msg circ r =
     (case leg_handler circ of
        None \<Rightarrow> (Inl (ReactorErr (ProtoViolation ''Received conflux cell on non-conflux client circuit?!'')), r)
      | Some h \<Rightarrow>
          (case handle_conflux_msg now (cs_last_seq_delivered (cr_set r)) msg hopnum h of
             (cmd, h') \<Rightarrow>
               let s = cr_set r;
                   r' = r\<lparr>cr_set := s\<lparr>cs_legs := update_leg i (\<lambda>l. l\<lparr>leg_handler := Some h'\<rparr>) (cs_legs s)\<rparr>\<rparr>
               in (case cmd of
                     None \<Rightarrow> (Inr (), r')
                   | Some (RemoveLeg reason) \<Rightarrow> run_remove_leg i reason r'
                   | Some (HandshakeComplete hop _ cell) \<Rightarrow> run_handshake_complete i hop cell r')))"

text \<open>A TRUNCATED shuts the tunnel down.\<close>

definition truncated_outcome :: "unparsed_relay_msg \<Rightarrow> reactor_error" where
  "truncated_outcome msg =
     (case unparsed_decode msg of
        Inl e \<Rightarrow> ReactorErr (ProtoBytesErr e ''truncated message'')
      | Inr _ \<Rightarrow> Shutdown)"

text \<open>\<open>handle_relay_msg\<close>, with the reactor's answer to an out-of-order message.\<close>

definition handle_relay_msg ::
    "nat \<Rightarrow> nat \<Rightarrow> HopNum \<Rightarrow> bool \<Rightarrow> unparsed_relay_msg \<Rightarrow> (conflux_reactor, reactor_error, unit) eff" where
  "handle_relay_msg now i hopnum counts msg r =
     (case cs_leg (cr_set r) i of
        None \<Rightarrow> (Inl (ReactorErr (ProtoInternal ''the circuit leg we just had disappeared?!'')), r)
      | Some circ \<Rightarrow>
     (case msg_streamid msg of
        Inl e \<Rightarrow> (Inl (ReactorErr e), r)
      | Inr None \<Rightarrow>
          if unparsed_cmd msg = RC_TRUNCATED then (Inl (truncated_outcome msg), r)
          else if is_conflux_cmd (unparsed_cmd msg) then handle_conflux_meta now i hopnum msg circ r
          else (Inr (), r)
      | Inr (Some streamid) \<Rightarrow>
     (case leg_handler circ of
        None \<Rightarrow> emap_err ReactorErr (handle_in_order_relay_msg circ hopnum streamid msg) r
      | Some h \<Rightarrow>
          (case action_for_msg (cs_last_seq_delivered (cr_set r)) hopnum counts streamid msg h of
             (res, h') \<Rightarrow>
               let s = cr_set r;
                   circ' = circ\<lparr>leg_handler := Some h'\<rparr>;
                   r' = r\<lparr>cr_set := s\<lparr>cs_legs := update_leg i (\<lambda>_. circ') (cs_legs s)\<rparr>\<rparr>
               in (case res of
                     Inl e \<Rightarrow> (Inl (ReactorErr e), r')
                   | Inr (ActDeliver m) \<Rightarrow>
                       emap_err ReactorErr (handle_in_order_relay_msg circ' hopnum streamid m) r'
                   | Inr (ActEnqueue m) \<Rightarrow> (Inr (), r'\<lparr>cr_ooo := ooo_push (i, m) (cr_ooo r')\<rparr>))))))"

end
