(* ===== verification/Conflux_Laws.thy ===== *)
theory Conflux_Laws
  imports ConfluxReactor RelayCell_Laws "HOL-Library.Multiset"
begin

text \<open>
  Both ends of a multi-path tunnel. The sending end is a conflux set, the receiving end a
  tunnel reactor, and every leg between them is a queue. The legs are independent: whenever
  the sender changes its leg, later messages may overtake earlier ones. The laws show that the
  receiver delivers the messages in the order in which they were sent, whatever legs the sender
  chooses and however the arrivals interleave.
\<close>

section \<open>Legs as a map\<close>

lemma find_update_leg:
  assumes "\<And>l. leg_id (f l) = leg_id l"
  shows "find (\<lambda>l. leg_id l = j) (update_leg i f ls) =
    (if j = i then map_option f (find (\<lambda>l. leg_id l = i) ls) else find (\<lambda>l. leg_id l = j) ls)"
  using assms by (induction ls) auto

lemma find_replace_leg:
  assumes "leg_id l' = i"
  shows "find (\<lambda>l. leg_id l = j) (update_leg i (\<lambda>_. l') ls) =
    (if j = i then map_option (\<lambda>_. l') (find (\<lambda>l. leg_id l = i) ls) else find (\<lambda>l. leg_id l = j) ls)"
  using assms by (induction ls) auto

lemma find_leg_id: "find (\<lambda>l. leg_id l = i) ls = Some l \<Longrightarrow> leg_id l = i \<and> l \<in> set ls"
  by (induction ls) (auto split: if_splits)

lemma cs_leg_id: "cs_leg s i = Some l \<Longrightarrow> leg_id l = i \<and> l \<in> set (cs_legs s)"
  unfolding cs_leg_def by (rule find_leg_id)

lemma update_leg_None: "cs_leg s i = None \<Longrightarrow> update_leg i f (cs_legs s) = cs_legs s"
proof -
  have "find (\<lambda>l. leg_id l = i) ls = None \<Longrightarrow> update_leg i f ls = ls" for ls
    by (induction ls) (auto split: if_splits)
  then show "cs_leg s i = None \<Longrightarrow> ?thesis" by (simp add: cs_leg_def)
qed

lemma set_update_leg: "l \<in> set (update_leg i f ls) \<Longrightarrow> l \<in> set ls \<or> (\<exists>l0\<in>set ls. leg_id l0 = i \<and> l = f l0)"
  by (induction ls) (auto split: if_splits)

lemma ids_update_leg: "(\<And>l. leg_id l = i \<Longrightarrow> leg_id (f l) = i) \<Longrightarrow> map leg_id (update_leg i f ls) = map leg_id ls"
  by (induction ls) auto

text \<open>The handlers of a set, by leg.\<close>

definition handlers :: "conflux_set \<Rightarrow> nat \<Rightarrow> conflux_handler option" where
  "handlers s i = (case cs_leg s i of Some l \<Rightarrow> leg_handler l | None \<Rightarrow> None)"

definition seq_sent :: "conflux_set \<Rightarrow> nat \<Rightarrow> nat" where
  "seq_sent s i = (case handlers s i of Some h \<Rightarrow> unat (ch_last_seq_sent h) | None \<Rightarrow> 0)"

section \<open>The sender\<close>

text \<open>A set whose handshake is complete: every leg has a handler, the join point and a measured
  round-trip time.\<close>

definition leg_ready :: "HopNum \<Rightarrow> leg \<Rightarrow> bool" where
  "leg_ready jp l \<longleftrightarrow> leg_init_rtt l \<noteq> None \<and> \<not> is_conflux_pending l \<and> jp < length (leg_path l)"

definition sender_ok :: "nat list \<Rightarrow> HopNum \<Rightarrow> nat \<Rightarrow> conflux_set \<Rightarrow> bool" where
  "sender_ok ids jp n s \<longleftrightarrow>
     ids \<noteq> [] \<and> map leg_id (cs_legs s) = ids \<and> distinct ids \<and> list_all (leg_ready jp) (cs_legs s) \<and>
     (\<exists>d. cs_join_point s = Some (jp, d)) \<and>
     (if cs_selected_init_primary s
      then 0 < n \<and> cs_primary_id s \<in> set ids \<and> seq_sent s (cs_primary_id s) = n \<and>
           (\<forall>i. i \<noteq> cs_primary_id s \<longrightarrow> seq_sent s i < n)
      else n = 0 \<and> (\<forall>i. seq_sent s i = 0))"

lemma cs_leg_Some_iff: "cs_leg s i \<noteq> None \<longleftrightarrow> i \<in> leg_id ` set (cs_legs s)"
  by (auto simp: cs_leg_def find_None_iff)

lemma leg_ready_rtt: "leg_ready jp l \<Longrightarrow> leg_rtt_usec l \<noteq> None \<and> leg_handler l \<noteq> None"
  by (auto simp: leg_ready_def leg_rtt_usec_def leg_init_rtt_def split: option.splits)

lemma min_rtt_loop_ok:
  assumes "list_all (leg_ready jp) ls" "cs_join_point s = Some (jp, d)"
    and "\<forall>b. best = Some b \<longrightarrow> fst b \<in> I" "leg_id ` set ls \<subseteq> I"
  shows "\<exists>r. min_rtt_loop s check best ls = Inr r \<and> (\<forall>i. r = Some i \<longrightarrow> i \<in> I)"
  using assms
proof (induction ls arbitrary: best)
  case Nil
  then show ?case by auto
next
  case (Cons l ls)
  then have l: "leg_rtt_usec l \<noteq> None" "jp < length (leg_path l)"
    using leg_ready_rtt by (auto simp: leg_ready_def)
  then obtain rtt where "leg_rtt_usec l = Some rtt" by auto
  with l Cons show ?case
    by (cases "check \<and> \<not> leg_can_send l") (auto simp: join_point_hop_def split: option.splits)
qed

lemma min_by_key_in: "xs \<noteq> [] \<Longrightarrow> \<exists>x\<in>set xs. min_by_key f xs = Some x"
proof (induction xs)
  case (Cons x xs)
  then show ?case by (cases "xs = []") auto
qed simp

lemma select_init_primary_ok:
  assumes "list_all (leg_ready jp) (cs_legs s)" "cs_legs s \<noteq> []"
  obtains i where "i \<in> leg_id ` set (cs_legs s)"
    "maybe_select_init_primary s = s\<lparr>cs_primary_id := i, cs_selected_init_primary := True\<rparr>"
proof -
  let ?xs = "List.map_filter (\<lambda>l. map_option (\<lambda>rtt. (leg_id l, rtt)) (leg_init_rtt l)) (cs_legs s)"
  have "?xs \<noteq> []"
    using assms by (cases "cs_legs s") (auto simp: List.map_filter_simps leg_ready_def)
  then obtain x where x: "x \<in> set ?xs" "min_by_key snd ?xs = Some x" using min_by_key_in by blast
  then have "fst x \<in> leg_id ` set (cs_legs s)" by (auto simp: List.map_filter_def)
  with x(2) show thesis
    using that [of "fst x"] by (cases x) (simp add: maybe_select_init_primary_def)
qed

text \<open>Everything the sender changes in a leg is the number of the last message sent on it.\<close>

definition set_seq :: "nat \<Rightarrow> u64 \<Rightarrow> conflux_set \<Rightarrow> conflux_set" where
  "set_seq i n s =
     s\<lparr>cs_legs := update_leg i
         (\<lambda>l. l\<lparr>leg_handler := map_option (\<lambda>h. h\<lparr>ch_last_seq_sent := n\<rparr>) (leg_handler l)\<rparr>) (cs_legs s)\<rparr>"

lemma set_seq_fields [simp]:
  "cs_primary_id (set_seq i n s) = cs_primary_id s" "cs_join_point (set_seq i n s) = cs_join_point s"
  "cs_out (set_seq i n s) = cs_out s" "cs_selected_init_primary (set_seq i n s) = cs_selected_init_primary s"
  "map leg_id (cs_legs (set_seq i n s)) = map leg_id (cs_legs s)"
  by (simp_all add: set_seq_def ids_update_leg)

lemma handlers_set_seq:
  "handlers (set_seq i n s) j =
     (if j = i then map_option (\<lambda>h. h\<lparr>ch_last_seq_sent := n\<rparr>) (handlers s i) else handlers s j)"
  by (simp add: handlers_def cs_leg_def set_seq_def find_update_leg split: option.split)

lemma seq_sent_set_seq:
  "seq_sent (set_seq i n s) j = (if j = i \<and> handlers s i \<noteq> None then unat n else seq_sent s j)"
  by (auto simp: seq_sent_def handlers_set_seq split: option.split)

lemma handlers_fields [simp]:
  "handlers (s\<lparr>cs_out := x\<rparr>) = handlers s" "handlers (s\<lparr>cs_primary_id := p\<rparr>) = handlers s"
  "handlers (s\<lparr>cs_selected_init_primary := b\<rparr>) = handlers s"
  by (simp_all add: handlers_def cs_leg_def fun_eq_iff)

lemma seq_sent_fields [simp]:
  "seq_sent (s\<lparr>cs_out := x\<rparr>) = seq_sent s" "seq_sent (s\<lparr>cs_primary_id := p\<rparr>) = seq_sent s"
  "seq_sent (s\<lparr>cs_selected_init_primary := b\<rparr>) = seq_sent s"
  by (simp_all add: seq_sent_def fun_eq_iff)

lemma ready_set_seq:
  "list_all (leg_ready jp) (cs_legs s) \<Longrightarrow> list_all (leg_ready jp) (cs_legs (set_seq i n s))"
proof -
  have "list_all (leg_ready jp) ls \<Longrightarrow> list_all (leg_ready jp) (update_leg i
      (\<lambda>l. l\<lparr>leg_handler := map_option (\<lambda>h. h\<lparr>ch_last_seq_sent := n\<rparr>) (leg_handler l)\<rparr>) ls)" for ls
    by (induction ls)
      (auto simp: leg_ready_def leg_init_rtt_def is_conflux_pending_def conflux_status_def handler_status_def
        split: option.splits)
  then show "list_all (leg_ready jp) (cs_legs s) \<Longrightarrow> ?thesis" by (simp add: set_seq_def)
qed

lemma update_leg_cong:
  "(\<And>l. find (\<lambda>l. leg_id l = i) ls = Some l \<Longrightarrow> f l = g l) \<Longrightarrow> update_leg i f ls = update_leg i g ls"
  by (induction ls) (auto split: if_splits)

lemma set_seq_id: "handlers s i = Some h \<Longrightarrow> set_seq i (ch_last_seq_sent h) s = s"
proof -
  assume h: "handlers s i = Some h"
  have "update_leg i (\<lambda>l. l\<lparr>leg_handler :=
      map_option (\<lambda>h'. h'\<lparr>ch_last_seq_sent := ch_last_seq_sent h\<rparr>) (leg_handler l)\<rparr>) (cs_legs s) =
      update_leg i (\<lambda>l. l) (cs_legs s)"
    using h by (intro update_leg_cong) (auto simp: handlers_def cs_leg_def)
  moreover have "update_leg i (\<lambda>l. l) ls = ls" for ls by (induction ls) auto
  ultimately show ?thesis by (simp add: set_seq_def)
qed

lemma circ_send_eq:
  assumes "handlers s i = Some h" "list_all (leg_ready hop) (cs_legs s)"
  shows "circ_send_relay_cell \<lparr>src_hop = Some hop, src_cell = m\<rparr> i s =
    (Inr (), (set_seq i (ch_last_seq_sent h +
        (if cmd_counts_towards_seqno (AnyRelayMsg_cmd (ro_msg m)) then 1 else 0)) s)
      \<lparr>cs_out := cs_out s @ [(i, hop, m)]\<rparr>)"
proof -
  obtain l where l: "cs_leg s i = Some l" "leg_handler l = Some h"
    using assms(1) by (auto simp: handlers_def split: option.splits)
  then have "leg_ready hop l" using assms(2) by (auto simp: cs_leg_def find_Some_iff list_all_length)
  then have "\<not> is_conflux_pending l" "hop < length (leg_path l)" by (simp_all add: leg_ready_def)
  moreover have "update_leg i (\<lambda>l. l\<lparr>leg_handler :=
        map_option (note_cell_sent (AnyRelayMsg_cmd (ro_msg m))) (leg_handler l)\<rparr>) (cs_legs s) =
      update_leg i (\<lambda>l. l\<lparr>leg_handler := map_option (\<lambda>h'. h'\<lparr>ch_last_seq_sent := ch_last_seq_sent h +
        (if cmd_counts_towards_seqno (AnyRelayMsg_cmd (ro_msg m)) then 1 else 0)\<rparr>) (leg_handler l)\<rparr>)
        (cs_legs s)"
    using l by (intro update_leg_cong) (auto simp: cs_leg_def note_cell_sent_def inc_last_seq_sent_def)
  ultimately show ?thesis using l(1) by (simp add: circ_send_relay_cell_def set_seq_def Let_def)
qed

lemma on_primary_last_seq:
  assumes "handlers s (cs_primary_id s) = Some h"
  shows "on_primary_leg (\<lambda>l. (leg_last_seq_sent l, l)) s = (Inr (ch_last_seq_sent h), s)"
    and "on_primary_leg (leg_set_last_seq_sent n) s = (Inr (), set_seq (cs_primary_id s) n s)"
proof -
  obtain l where l: "cs_leg s (cs_primary_id s) = Some l" "leg_handler l = Some h"
    using assms by (auto simp: handlers_def split: option.splits)
  then have ne: "cs_legs s \<noteq> []" by (auto simp: cs_leg_def)
  have "update_leg (cs_primary_id s) (\<lambda>_. l) (cs_legs s) = update_leg (cs_primary_id s) (\<lambda>l. l) (cs_legs s)"
    using l by (intro update_leg_cong) (simp add: cs_leg_def)
  moreover have "update_leg i (\<lambda>l. l) ls = ls" for i ls by (induction ls) auto
  ultimately show "on_primary_leg (\<lambda>l. (leg_last_seq_sent l, l)) s = (Inr (ch_last_seq_sent h), s)"
    using l ne by (simp add: on_primary_leg_def on_leg_def leg_last_seq_sent_def)
  have "update_leg (cs_primary_id s) (\<lambda>_. l\<lparr>leg_handler := Some (h\<lparr>ch_last_seq_sent := n\<rparr>)\<rparr>) (cs_legs s) =
      cs_legs (set_seq (cs_primary_id s) n s)"
    using l unfolding set_seq_def by (simp, intro update_leg_cong) (auto simp: cs_leg_def)
  then show "on_primary_leg (leg_set_last_seq_sent n) s = (Inr (), set_seq (cs_primary_id s) n s)"
    using l ne by (simp add: on_primary_leg_def on_leg_def leg_set_last_seq_sent_def set_seq_def)
qed

lemma handler_of_ready:
  assumes "list_all (leg_ready jp) (cs_legs s)" "i \<in> leg_id ` set (cs_legs s)"
  obtains h where "handlers s i = Some h"
proof -
  obtain l where l: "cs_leg s i = Some l" using assms(2) cs_leg_Some_iff [of s i] by auto
  then have "leg_ready jp l" using assms(1) cs_leg_id [OF l] by (simp add: list_all_iff)
  then obtain h where "leg_handler l = Some h" using leg_ready_rtt by auto
  with l show thesis using that by (simp add: handlers_def)
qed

lemma select_primary_leg_ok:
  assumes "list_all (leg_ready jp) (cs_legs s)" "cs_join_point s = Some (jp, d)"
  obtains r where "select_primary_leg s = Inr r" "\<And>i. r = Some i \<Longrightarrow> i \<in> leg_id ` set (cs_legs s)"
proof -
  have "\<exists>r. select_primary_leg_min_rtt s c = Inr r \<and> (\<forall>i. r = Some i \<longrightarrow> i \<in> leg_id ` set (cs_legs s))" for c
    unfolding select_primary_leg_min_rtt_def by (rule min_rtt_loop_ok [OF assms]) auto
  then obtain f where "\<And>c. select_primary_leg_min_rtt s c = Inr (f c)"
    "\<And>c i. f c = Some i \<Longrightarrow> i \<in> leg_id ` set (cs_legs s)" by metis
  then show thesis
    using that [of "f (cs_desired_ux s = UX_HIGH_THROUGHPUT)"]
    by (auto simp: select_primary_leg_def Let_def UX_NO_OPINION_def UX_MIN_LATENCY_def UX_HIGH_THROUGHPUT_def)
qed

text \<open>The cells the sender emits for one message: a SWITCH when the leg is behind, then the
  message.\<close>

definition switch_cell :: "nat \<Rightarrow> relay_msg_outer" where
  "switch_cell n = \<lparr>ro_streamid = None, ro_msg = RConfluxSwitch (word_of_nat n)\<rparr>"

definition emitted :: "nat \<Rightarrow> HopNum \<Rightarrow> nat \<Rightarrow> (nat \<times> HopNum \<times> relay_msg_outer) list" where
  "emitted p jp gap = (if gap = 0 then [] else [(p, jp, switch_cell gap)])"

lemma switch_step:
  assumes p: "handlers s (cs_primary_id s) = Some h" and q: "handlers s q = Some h'" "q \<noteq> cs_primary_id s"
    and n: "unat (ch_last_seq_sent h) = n" "n < 2 ^ 32" and k: "unat (ch_last_seq_sent h') = k" "k \<le> n"
  shows "ebind (on_primary_leg (\<lambda>l. (leg_last_seq_sent l, l))) (\<lambda>prev.
         ebind (\<lambda>s. (Inr (), s\<lparr>cs_primary_id := q\<rparr>)) (\<lambda>_.
         ebind (on_primary_leg (\<lambda>l. (leg_last_seq_sent l, l))) (\<lambda>new.
         if unat (prev - new) < 2 ^ 32 then
           ebind (on_primary_leg (leg_set_last_seq_sent prev)) (\<lambda>_.
           eret (Some \<lparr>src_hop = Some jp,
                       src_cell = \<lparr>ro_streamid = None, ro_msg = RConfluxSwitch (ucast (prev - new))\<rparr>\<rparr>))
         else efail e))) s =
    (Inr (Some \<lparr>src_hop = Some jp, src_cell = switch_cell (n - k)\<rparr>),
     set_seq q (word_of_nat n) (s\<lparr>cs_primary_id := q\<rparr>))"
proof -
  have le: "ch_last_seq_sent h' \<le> ch_last_seq_sent h" using n k by (simp add: word_le_nat_alt)
  then have sub: "unat (ch_last_seq_sent h - ch_last_seq_sent h') = n - k"
    using n k by (simp add: unat_sub)
  have "ch_last_seq_sent h - ch_last_seq_sent h' = word_of_nat (n - k)"
    by (simp flip: sub)
  then have uc: "(ucast (ch_last_seq_sent h - ch_last_seq_sent h') :: u32) = word_of_nat (n - k)"
    using n by (simp add: word_unat_eq_iff unat_of_nat unsigned_ucast_eq take_bit_nat_eq_self_iff)
  have w: "word_of_nat n = ch_last_seq_sent h" by (simp flip: n(1))
  have "handlers (s\<lparr>cs_primary_id := q\<rparr>) (cs_primary_id (s\<lparr>cs_primary_id := q\<rparr>)) = Some h'"
    using q by simp
  note on_q = on_primary_last_seq [OF this]
  have "n - k < 2 ^ 32" using n(2) by simp
  then show ?thesis
    using sub by (simp add: ebind_def on_primary_last_seq [OF p] on_q eret_def uc w switch_cell_def)
qed

lemma update_primary_ok:
  assumes "sender_ok ids jp n s" "n < 2 ^ 32"
  obtains q s1 where "q \<in> set ids" "seq_sent s q \<le> n"
    "maybe_update_primary_leg s =
       (Inr (if seq_sent s q = n then None
             else Some \<lparr>src_hop = Some jp, src_cell = switch_cell (n - seq_sent s q)\<rparr>), s1)"
    "cs_primary_id s1 = q" "cs_selected_init_primary s1" "cs_out s1 = cs_out s"
    "seq_sent s1 = (seq_sent s)(q := n)" "map leg_id (cs_legs s1) = ids" "list_all (leg_ready jp) (cs_legs s1)"
    "cs_join_point s1 = cs_join_point s"
proof -
  obtain d where s: "map leg_id (cs_legs s) = ids" "list_all (leg_ready jp) (cs_legs s)"
      "cs_join_point s = Some (jp, d)" "ids \<noteq> []" "distinct ids"
    using assms(1) by (auto simp: sender_ok_def)
  have ids: "leg_id ` set (cs_legs s) = set ids" using s(1) by (metis set_map)
  show thesis
  proof (cases "cs_selected_init_primary s")
    case False
    then have n: "n = 0" "\<forall>i. seq_sent s i = 0" using assms(1) by (auto simp: sender_ok_def)
    have "cs_legs s \<noteq> []" using s(1,4) by auto
    then obtain q where q: "q \<in> leg_id ` set (cs_legs s)"
      "maybe_select_init_primary s = s\<lparr>cs_primary_id := q, cs_selected_init_primary := True\<rparr>"
      using select_init_primary_ok [OF s(2)] by blast
    then have "maybe_update_primary_leg s = (Inr None, s\<lparr>cs_primary_id := q, cs_selected_init_primary := True\<rparr>)"
      using False s(3) by (simp add: maybe_update_primary_leg_def should_update_primary_leg_def)
    then show thesis
      using that [of q "s\<lparr>cs_primary_id := q, cs_selected_init_primary := True\<rparr>"] q(1) ids n s
      by (simp add: fun_eq_iff)
  next
    case True
    then have n: "0 < n" "cs_primary_id s \<in> set ids" "seq_sent s (cs_primary_id s) = n"
        "\<forall>i. i \<noteq> cs_primary_id s \<longrightarrow> seq_sent s i < n"
      using assms(1) by (auto simp: sender_ok_def)
    obtain r where r: "select_primary_leg s = Inr r" "\<And>i. r = Some i \<Longrightarrow> i \<in> set ids"
      using select_primary_leg_ok [OF s(2,3)] ids by metis
    show thesis
    proof (cases "length (cs_legs s) < 2 \<or> r = None \<or> r = Some (cs_primary_id s)")
      case stay: True
      then have "maybe_update_primary_leg s = (Inr None, s)"
        using True s(3) r(1) by (auto simp: maybe_update_primary_leg_def should_update_primary_leg_def)
      then show thesis using that [of "cs_primary_id s" s] n s True by (auto simp: fun_eq_iff)
    next
      case False
      then obtain q where q: "r = Some q" "q \<noteq> cs_primary_id s" "q \<in> set ids" using r(2) by auto
      obtain h where h: "handlers s (cs_primary_id s) = Some h"
        using handler_of_ready [OF s(2)] n(2) ids by auto
      obtain h' where h': "handlers s q = Some h'" using handler_of_ready [OF s(2)] q(3) ids by auto
      have hn: "unat (ch_last_seq_sent h) = n" "unat (ch_last_seq_sent h') = seq_sent s q" "seq_sent s q < n"
        using n(3,4) q(2) h h' by (auto simp: seq_sent_def)
      have "maybe_update_primary_leg s =
          (Inr (Some \<lparr>src_hop = Some jp, src_cell = switch_cell (n - seq_sent s q)\<rparr>),
           set_seq q (word_of_nat n) (s\<lparr>cs_primary_id := q\<rparr>))"
        using True False s(3) r(1) q switch_step [OF h h' q(2) hn(1) assms(2) hn(2)] hn(3)
        by (simp add: maybe_update_primary_leg_def should_update_primary_leg_def)
      moreover have "unat (word_of_nat n :: u64) = n" using assms(2) by (simp add: unat_of_nat)
      moreover from this have "seq_sent (set_seq q (word_of_nat n) (s\<lparr>cs_primary_id := q\<rparr>)) = (seq_sent s)(q := n)"
        using h' by (simp add: fun_eq_iff seq_sent_set_seq)
      ultimately show thesis
        using that [of q "set_seq q (word_of_nat n) (s\<lparr>cs_primary_id := q\<rparr>)"] q(3) hn(3) True s
          ready_set_seq [of jp "s\<lparr>cs_primary_id := q\<rparr>" q "word_of_nat n"]
        by simp
    qed
  qed
qed

text \<open>Sending a numbered message to the join point: the sender emits a SWITCH for exactly the
  numbers the leg has missed, and the message gets the next number.\<close>

lemma send_ok:
  assumes "sender_ok ids jp n s" "n < 2 ^ 32" "cmd_counts_towards_seqno (AnyRelayMsg_cmd (ro_msg m))"
  obtains q s' where "q \<in> set ids" "seq_sent s q \<le> n"
    "send_relay_cell_on_leg \<lparr>src_hop = Some jp, src_cell = m\<rparr> None s = (Inr (), s')"
    "cs_out s' = cs_out s @ emitted q jp (n - seq_sent s q) @ [(q, jp, m)]"
    "seq_sent s' = (seq_sent s)(q := n + 1)" "sender_ok ids jp (n + 1) s'"
proof -
  obtain q s1 where q: "q \<in> set ids" "seq_sent s q \<le> n"
    and up: "maybe_update_primary_leg s = (Inr (if seq_sent s q = n then None
             else Some \<lparr>src_hop = Some jp, src_cell = switch_cell (n - seq_sent s q)\<rparr>), s1)"
    and s1: "cs_primary_id s1 = q" "cs_selected_init_primary s1" "cs_out s1 = cs_out s"
      "seq_sent s1 = (seq_sent s)(q := n)" "map leg_id (cs_legs s1) = ids"
      "list_all (leg_ready jp) (cs_legs s1)" "cs_join_point s1 = cs_join_point s"
    by (rule update_primary_ok [OF assms(1,2)])
  have le: "seq_sent s i \<le> n" for i
    using assms(1) by (cases "i = cs_primary_id s") (auto simp: sender_ok_def less_imp_le split: if_splits)
  obtain d where jp: "cs_join_point s = Some (jp, d)" "ids \<noteq> []" "distinct ids"
    using assms(1) by (auto simp: sender_ok_def)
  obtain h where h: "handlers s1 q = Some h"
    using handler_of_ready [OF s1(6)] q(1) s1(5) by (metis set_map)
  then have "unat (ch_last_seq_sent h) = n" using fun_cong [OF s1(4), of q] by (simp add: seq_sent_def)
  then have hn: "unat (ch_last_seq_sent h + 1) = n + 1"
    using assms(2) by (subst unat_add_lem [THEN iffD1]) simp_all
  have no_switch: "\<not> cmd_counts_towards_seqno (AnyRelayMsg_cmd (ro_msg (switch_cell k)))" for k
    by (simp add: switch_cell_def cmd_counts_towards_seqno_def)
  have out: "s1\<lparr>cs_out := cs_out s\<rparr> = s1" using s1(3) by (cases s1) simp
  define s2 where "s2 = s1\<lparr>cs_out := cs_out s @ emitted q jp (n - seq_sent s q)\<rparr>"
  let ?s' = "(set_seq q (ch_last_seq_sent h + 1) s2)\<lparr>cs_out := cs_out s2 @ [(q, jp, m)]\<rparr>"
  have "send_relay_cell_on_leg \<lparr>src_hop = Some jp, src_cell = m\<rparr> None s =
      circ_send_relay_cell \<lparr>src_hop = Some jp, src_cell = m\<rparr> q s2"
    using q(2) s1(1,3) jp(1) assms(3) up circ_send_eq [OF h s1(6), of "switch_cell (n - seq_sent s q)"]
      set_seq_id [OF h] no_switch
    by (auto simp: out send_relay_cell_on_leg_def ebind_def eret_def s2_def emitted_def)
  also have "\<dots> = (Inr (), ?s')" using h s1(6) assms(3) circ_send_eq [of s2 q h jp m] by (simp add: s2_def)
  finally have "send_relay_cell_on_leg \<lparr>src_hop = Some jp, src_cell = m\<rparr> None s = (Inr (), ?s')" .
  moreover have seq: "seq_sent ?s' = (seq_sent s)(q := n + 1)"
    using h hn s1(4) by (auto simp: seq_sent_set_seq s2_def fun_eq_iff)
  moreover have "sender_ok ids jp (n + 1) ?s'"
    using q(1) s1 jp le seq ready_set_seq [of jp s2 q "ch_last_seq_sent h + 1"]
    by (auto simp: sender_ok_def s2_def less_Suc_eq_le)
  ultimately show thesis using that [of q ?s'] q by (simp add: s2_def)
qed

end
