(* ===== verification/Reseq.thy ===== *)
theory Reseq
  imports Main "HOL-Library.Multiset"
begin

text \<open>
  Resequencing, as an abstract specification of what the two ends of a multi-path tunnel do
  together. Messages get consecutive numbers in the order of sending and travel over several
  first-in-first-out legs; each end keeps, per leg, the number of the last message, and a
  \<open>Switch\<close> item advances the receiver's number by what the leg has missed. A message that is
  not the next one waits in a heap. The invariant says that the numbers above the last
  delivered one are exactly those in the heap and on the legs, each once, and that every number
  still belongs to the message it was given to.
\<close>

section \<open>Items on a leg\<close>

datatype 'm item = Switch nat | Payload 'm

fun leg_seqs :: "nat \<Rightarrow> 'm item list \<Rightarrow> (nat \<times> 'm) list" where
  "leg_seqs q [] = []"
| "leg_seqs q (Switch n # xs) = leg_seqs (q + n) xs"
| "leg_seqs q (Payload m # xs) = (q + 1, m) # leg_seqs (q + 1) xs"

fun leg_end :: "nat \<Rightarrow> 'm item list \<Rightarrow> nat" where
  "leg_end q [] = q"
| "leg_end q (Switch n # xs) = leg_end (q + n) xs"
| "leg_end q (Payload m # xs) = leg_end (q + 1) xs"

text \<open>A \<open>Switch\<close> advances by at least one and is followed by a message; the flag says that the
  last item the receiver has seen was a \<open>Switch\<close>.\<close>

fun leg_wf :: "bool \<Rightarrow> 'm item list \<Rightarrow> bool" where
  "leg_wf b [] \<longleftrightarrow> \<not> b"
| "leg_wf b (Switch n # xs) \<longleftrightarrow> \<not> b \<and> 0 < n \<and> leg_wf True xs"
| "leg_wf b (Payload m # xs) \<longleftrightarrow> leg_wf False xs"

lemma leg_seqs_append: "leg_seqs q (xs @ ys) = leg_seqs q xs @ leg_seqs (leg_end q xs) ys"
  by (induction q xs rule: leg_seqs.induct) auto

lemma leg_end_append: "leg_end q (xs @ ys) = leg_end (leg_end q xs) ys"
  by (induction q xs rule: leg_end.induct) auto

lemma leg_wf_append: "leg_wf b xs \<Longrightarrow> leg_wf False ys \<Longrightarrow> leg_wf b (xs @ ys)"
  by (induction b xs rule: leg_wf.induct) (auto split: list.splits elim: leg_wf.elims)

lemma leg_end_le: "q \<le> leg_end q xs"
  by (induction q xs rule: leg_end.induct) auto

section \<open>The system\<close>

record 'm reseq =
  rq_sent :: "'m list"
  rq_done :: nat
  rq_snt :: "nat \<Rightarrow> nat"
  rq_rcv :: "nat \<Rightarrow> nat"
  rq_await :: "nat \<Rightarrow> bool"
  rq_wire :: "nat \<Rightarrow> 'm item list"
  rq_heap :: "(nat \<times> 'm) list"

text \<open>The messages delivered so far are the first \<open>rq_done\<close> of those sent; the operations say
  which message is delivered next.\<close>

definition on_legs :: "nat set \<Rightarrow> 'm reseq \<Rightarrow> nat multiset" where
  "on_legs I s = (\<Sum>i\<in>I. mset (map fst (leg_seqs (rq_rcv s i) (rq_wire s i))))"

definition reseq_inv :: "nat set \<Rightarrow> 'm reseq \<Rightarrow> bool" where
  "reseq_inv I s \<longleftrightarrow>
     finite I \<and>
     (\<forall>i\<in>I. leg_end (rq_rcv s i) (rq_wire s i) = rq_snt s i) \<and>
     (\<forall>i\<in>I. leg_wf (rq_await s i) (rq_wire s i)) \<and>
     (\<forall>i\<in>I. \<forall>(q, m)\<in>set (leg_seqs (rq_rcv s i) (rq_wire s i)). rq_sent s ! (q - 1) = m) \<and>
     (\<forall>(q, m)\<in>set (rq_heap s). rq_sent s ! (q - 1) = m) \<and>
     sorted (map fst (rq_heap s)) \<and>
     mset (map fst (rq_heap s)) + on_legs I s = mset [Suc (rq_done s)..<Suc (length (rq_sent s))] \<and>
     rq_done s \<le> length (rq_sent s)"

lemma on_legs_upd:
  assumes "finite I" "i \<in> I" "\<And>j. j \<noteq> i \<Longrightarrow> rq_rcv s' j = rq_rcv s j \<and> rq_wire s' j = rq_wire s j"
  shows "on_legs I s' + mset (map fst (leg_seqs (rq_rcv s i) (rq_wire s i))) =
    on_legs I s + mset (map fst (leg_seqs (rq_rcv s' i) (rq_wire s' i)))"
proof -
  have "on_legs (I - {i}) s' = on_legs (I - {i}) s"
    unfolding on_legs_def by (rule sum.cong) (use assms(3) in auto)
  moreover have "on_legs I t = mset (map fst (leg_seqs (rq_rcv t i) (rq_wire t i))) + on_legs (I - {i}) t" for t :: "'a reseq"
    unfolding on_legs_def using assms(1,2) by (simp add: sum.remove)
  ultimately show ?thesis by (simp add: ac_simps)
qed

subsection \<open>Sending\<close>

definition reseq_send :: "nat \<Rightarrow> 'm \<Rightarrow> 'm reseq \<Rightarrow> 'm reseq" where
  "reseq_send i m s =
     (let n = length (rq_sent s); gap = n - rq_snt s i in
      s\<lparr>rq_sent := rq_sent s @ [m],
        rq_snt := (rq_snt s)(i := n + 1),
        rq_wire := (rq_wire s)(i := rq_wire s i @ (if gap = 0 then [] else [Switch gap]) @ [Payload m])\<rparr>)"

lemma reseq_bounds:
  assumes "reseq_inv I s"
  shows "i \<in> I \<Longrightarrow> (q, m) \<in> set (leg_seqs (rq_rcv s i) (rq_wire s i)) \<Longrightarrow> rq_done s < q \<and> q \<le> length (rq_sent s)"
    and "(q, m) \<in> set (rq_heap s) \<Longrightarrow> rq_done s < q \<and> q \<le> length (rq_sent s)"
proof -
  have eq: "set_mset (mset (map fst (rq_heap s)) + on_legs I s) = {Suc (rq_done s)..<Suc (length (rq_sent s))}"
    and fin: "finite I"
    using assms by (auto simp: reseq_inv_def)
  show "rq_done s < q \<and> q \<le> length (rq_sent s)"
    if "i \<in> I" "(q, m) \<in> set (leg_seqs (rq_rcv s i) (rq_wire s i))"
  proof -
    have "q \<in># on_legs I s"
      unfolding on_legs_def using that fin by (force simp: set_mset_sum)
    with eq have "q \<in> {Suc (rq_done s)..<Suc (length (rq_sent s))}" by auto
    then show ?thesis by simp
  qed
  show "rq_done s < q \<and> q \<le> length (rq_sent s)" if "(q, m) \<in> set (rq_heap s)"
  proof -
    have "q \<in># mset (map fst (rq_heap s))" using that by force
    with eq have "q \<in> {Suc (rq_done s)..<Suc (length (rq_sent s))}" by auto
    then show ?thesis by simp
  qed
qed

lemma reseq_send_inv:
  assumes "reseq_inv I s" "i \<in> I" "rq_snt s i \<le> length (rq_sent s)"
  shows "reseq_inv I (reseq_send i m s)"
proof -
  let ?n = "length (rq_sent s)" and ?s = "reseq_send i m s"
  define new where "new = (if ?n - rq_snt s i = 0 then [] else [Switch (?n - rq_snt s i)]) @ [Payload m]"
  have w: "rq_wire ?s = (rq_wire s)(i := rq_wire s i @ new)" "rq_sent ?s = rq_sent s @ [m]"
    "rq_snt ?s = (rq_snt s)(i := ?n + 1)" "rq_rcv ?s = rq_rcv s" "rq_heap ?s = rq_heap s"
    "rq_done ?s = rq_done s" "rq_await ?s = rq_await s"
    by (simp_all add: reseq_send_def new_def Let_def)
  have e: "leg_end (rq_rcv s i) (rq_wire s i) = rq_snt s i" and fin: "finite I"
    using assms(1,2) by (auto simp: reseq_inv_def)
  have sq: "leg_seqs (rq_rcv s i) (rq_wire s i @ new) = leg_seqs (rq_rcv s i) (rq_wire s i) @ [(?n + 1, m)]"
    using assms(3) by (simp add: new_def leg_seqs_append e)
  let ?l = "mset (map fst (leg_seqs (rq_rcv s i) (rq_wire s i)))"
  have "on_legs I ?s + ?l = on_legs I s + mset (map fst (leg_seqs (rq_rcv ?s i) (rq_wire ?s i)))"
    by (rule on_legs_upd [OF fin assms(2)]) (simp add: w)
  also have "\<dots> = on_legs I s + (?l + {#?n + 1#})" unfolding w fun_upd_same sq by simp
  finally have "on_legs I ?s = on_legs I s + {#?n + 1#}" by simp
  then have "mset (map fst (rq_heap ?s)) + on_legs I ?s = mset [Suc (rq_done ?s)..<Suc (length (rq_sent ?s))]"
    using assms(1) by (simp add: reseq_inv_def w)
  moreover have "leg_end (rq_rcv s i) (rq_wire s i @ new) = ?n + 1"
    using assms(3) by (simp add: new_def leg_end_append e)
  moreover have "leg_wf False new" by (simp add: new_def)
  then have "leg_wf (rq_await s i) (rq_wire s i @ new)"
    by (rule leg_wf_append [rotated]) (use assms(1,2) in \<open>simp add: reseq_inv_def\<close>)
  moreover have "\<forall>j\<in>I. \<forall>(q, m')\<in>set (leg_seqs (rq_rcv ?s j) (rq_wire ?s j)). rq_sent ?s ! (q - 1) = m'"
  proof (intro ballI, clarify)
    fix j q m'
    assume j: "j \<in> I" and "(q, m') \<in> set (leg_seqs (rq_rcv ?s j) (rq_wire ?s j))"
    then consider "(q, m') \<in> set (leg_seqs (rq_rcv s j) (rq_wire s j))" | "q = ?n + 1" "m' = m"
    proof (cases "j = i")
      case True
      with that \<open>(q, m') \<in> _\<close> show ?thesis
        by (auto simp only: w fun_upd_same sq set_append Un_iff list.set insert_iff empty_iff prod.inject)
    qed (use that in \<open>simp add: w\<close>)
    then show "rq_sent ?s ! (q - 1) = m'"
    proof cases
      case 1
      then have "rq_sent s ! (q - 1) = m'" using assms(1) j by (auto simp: reseq_inv_def)
      moreover have "q - 1 < ?n" using reseq_bounds(1) [OF assms(1) j 1] by linarith
      ultimately show ?thesis by (simp add: w nth_append)
    next
      case 2
      then show ?thesis by (simp add: w nth_append)
    qed
  qed
  moreover have "\<forall>(q, m')\<in>set (rq_heap ?s). rq_sent ?s ! (q - 1) = m'"
  proof clarify
    fix q m'
    assume "(q, m') \<in> set (rq_heap ?s)"
    then have h: "(q, m') \<in> set (rq_heap s)" by (simp add: w)
    then have "rq_sent s ! (q - 1) = m'" using assms(1) by (auto simp: reseq_inv_def)
    moreover have "q - 1 < ?n" using reseq_bounds(2) [OF assms(1) h] by linarith
    ultimately show "rq_sent ?s ! (q - 1) = m'" by (simp add: w nth_append)
  qed
  ultimately show ?thesis using assms(1) unfolding reseq_inv_def by (simp add: w)
qed

subsection \<open>Receiving\<close>

definition reseq_switch :: "nat \<Rightarrow> nat \<Rightarrow> 'm item list \<Rightarrow> 'm reseq \<Rightarrow> 'm reseq" where
  "reseq_switch i n rest s =
     s\<lparr>rq_rcv := (rq_rcv s)(i := rq_rcv s i + n), rq_await := (rq_await s)(i := True),
       rq_wire := (rq_wire s)(i := rest)\<rparr>"

definition reseq_take :: "nat \<Rightarrow> 'm item list \<Rightarrow> 'm reseq \<Rightarrow> 'm reseq" where
  "reseq_take i rest s =
     s\<lparr>rq_rcv := (rq_rcv s)(i := rq_rcv s i + 1), rq_await := (rq_await s)(i := False),
       rq_wire := (rq_wire s)(i := rest)\<rparr>"

definition reseq_deliver :: "nat \<Rightarrow> 'm item list \<Rightarrow> 'm reseq \<Rightarrow> 'm reseq" where
  "reseq_deliver i rest s = (reseq_take i rest s)\<lparr>rq_done := rq_done s + 1\<rparr>"

definition reseq_enqueue :: "nat \<Rightarrow> 'm \<Rightarrow> 'm item list \<Rightarrow> 'm reseq \<Rightarrow> 'm reseq" where
  "reseq_enqueue i m rest s =
     (reseq_take i rest s)\<lparr>rq_heap := insort_key fst (rq_rcv s i + 1, m) (rq_heap s)\<rparr>"

definition reseq_dequeue :: "(nat \<times> 'm) list \<Rightarrow> 'm reseq \<Rightarrow> 'm reseq" where
  "reseq_dequeue rest s = s\<lparr>rq_done := rq_done s + 1, rq_heap := rest\<rparr>"

lemma reseq_switch_inv:
  assumes "reseq_inv I s" "i \<in> I" "rq_wire s i = Switch n # rest"
  shows "reseq_inv I (reseq_switch i n rest s)" "0 < n" "\<not> rq_await s i" "rq_rcv s i + n \<le> rq_snt s i"
proof -
  let ?s = "reseq_switch i n rest s"
  have fin: "finite I" and wf: "leg_wf (rq_await s i) (rq_wire s i)"
    and e: "leg_end (rq_rcv s i) (rq_wire s i) = rq_snt s i"
    using assms(1,2) by (auto simp: reseq_inv_def)
  show "0 < n" "\<not> rq_await s i" using wf assms(3) by simp_all
  show "rq_rcv s i + n \<le> rq_snt s i" using e assms(3) leg_end_le [of "rq_rcv s i + n" rest] by simp
  have "on_legs I ?s = on_legs I s"
    using on_legs_upd [OF fin assms(2), of ?s s] assms(3) by (simp add: reseq_switch_def)
  then show "reseq_inv I ?s"
    using assms by (auto simp: reseq_inv_def reseq_switch_def)
qed

lemma reseq_take_facts:
  assumes "reseq_inv I s" "i \<in> I" "rq_wire s i = Payload m # rest"
  shows "rq_done s < rq_rcv s i + 1" "rq_rcv s i + 1 \<le> length (rq_sent s)" "rq_sent s ! rq_rcv s i = m"
    "on_legs I s = on_legs I (reseq_take i rest s) + {#rq_rcv s i + 1#}"
proof -
  have mem: "(rq_rcv s i + 1, m) \<in> set (leg_seqs (rq_rcv s i) (rq_wire s i))" using assms(3) by simp
  show "rq_done s < rq_rcv s i + 1" "rq_rcv s i + 1 \<le> length (rq_sent s)"
    using reseq_bounds(1) [OF assms(1,2) mem] by simp_all
  show "rq_sent s ! rq_rcv s i = m" using assms(1,2) mem by (force simp: reseq_inv_def)
  have "finite I" using assms(1) by (simp add: reseq_inv_def)
  from on_legs_upd [OF this assms(2), of "reseq_take i rest s" s]
  show "on_legs I s = on_legs I (reseq_take i rest s) + {#rq_rcv s i + 1#}"
    using assms(3) by (simp add: reseq_take_def)
qed

lemma on_legs_fields [simp]:
  "on_legs I (s\<lparr>rq_done := d\<rparr>) = on_legs I s" "on_legs I (s\<lparr>rq_heap := h\<rparr>) = on_legs I s"
  by (simp_all add: on_legs_def)

lemma upt_next: "d < n \<Longrightarrow> mset [Suc d..<Suc n] = {#Suc d#} + mset [Suc (Suc d)..<Suc n]"
  by (simp add: upt_rec [of "Suc d" "Suc n"] del: upt_Suc)

lemma reseq_deliver_inv:
  assumes "reseq_inv I s" "i \<in> I" "rq_wire s i = Payload m # rest" "rq_rcv s i = rq_done s"
  shows "reseq_inv I (reseq_deliver i rest s)"
proof -
  note f = reseq_take_facts [OF assms(1-3)]
  have "mset (map fst (rq_heap s)) + on_legs I (reseq_take i rest s) =
      mset [Suc (Suc (rq_done s))..<Suc (length (rq_sent s))]"
    using assms(1,4) f(2,4) upt_next [of "rq_done s" "length (rq_sent s)"]
    by (simp add: reseq_inv_def del: upt_Suc)
  then show ?thesis
    using assms f(2) by (auto simp: reseq_inv_def reseq_deliver_def reseq_take_def simp del: upt_Suc)
qed

lemma reseq_enqueue_inv:
  assumes "reseq_inv I s" "i \<in> I" "rq_wire s i = Payload m # rest"
  shows "reseq_inv I (reseq_enqueue i m rest s)"
proof -
  note f = reseq_take_facts [OF assms]
  have "mset (map fst (insort_key fst (rq_rcv s i + 1, m) (rq_heap s))) + on_legs I (reseq_take i rest s) =
      mset [Suc (rq_done s)..<Suc (length (rq_sent s))]"
    using assms(1) f(4) by (simp add: reseq_inv_def del: upt_Suc)
  moreover have "sorted (map fst (insort_key fst (rq_rcv s i + 1, m) (rq_heap s)))"
    using assms(1) by (simp add: reseq_inv_def sorted_insort_key)
  ultimately show ?thesis
    using assms f(3)
    by (auto simp: reseq_inv_def reseq_enqueue_def reseq_take_def set_insort_key simp del: upt_Suc)
qed

lemma reseq_dequeue_inv:
  assumes "reseq_inv I s" "rq_heap s = (Suc (rq_done s), m) # rest"
  shows "reseq_inv I (reseq_dequeue rest s)" "rq_sent s ! rq_done s = m" "rq_done s < length (rq_sent s)"
proof -
  show "rq_sent s ! rq_done s = m" using assms by (auto simp: reseq_inv_def)
  show l: "rq_done s < length (rq_sent s)" using reseq_bounds(2) [OF assms(1), of "Suc (rq_done s)" m] assms(2) by auto
  have "mset (map fst rest) + on_legs I s = mset [Suc (Suc (rq_done s))..<Suc (length (rq_sent s))]"
    using assms upt_next [OF l] by (simp add: reseq_inv_def del: upt_Suc)
  then show "reseq_inv I (reseq_dequeue rest s)"
    using assms l by (auto simp: reseq_inv_def reseq_dequeue_def on_legs_def simp del: upt_Suc)
qed

text \<open>When the legs are empty, the heap holds all that is missing and starts with the next
  number.\<close>

lemma reseq_empty_legs:
  assumes "reseq_inv I s" "\<forall>i\<in>I. rq_wire s i = []" "rq_done s < length (rq_sent s)"
  shows "\<exists>m rest. rq_heap s = (Suc (rq_done s), m) # rest"
proof -
  have "on_legs I s = {#}" using assms(2) by (simp add: on_legs_def)
  then have "mset (map fst (rq_heap s)) = mset [Suc (rq_done s)..<Suc (length (rq_sent s))]"
    and so: "sorted (map fst (rq_heap s))"
    using assms(1) by (simp_all add: reseq_inv_def del: upt_Suc)
  then have "map fst (rq_heap s) = [Suc (rq_done s)..<Suc (length (rq_sent s))]"
    by (metis properties_for_sort sorted_upt sort_upt sorted_sort_id)
  also have "\<dots> = Suc (rq_done s) # [Suc (Suc (rq_done s))..<Suc (length (rq_sent s))]"
    using assms(3) by (simp add: upt_rec [of "Suc (rq_done s)"] del: upt_Suc)
  finally show ?thesis by (cases "rq_heap s") auto
qed

end
