(* ===== verification/Conflux_Net.thy ===== *)
theory Conflux_Net
  imports Conflux_Laws Reseq
begin

text \<open>
  The two ends of a multi-path tunnel and the legs between them, and the proof that they
  implement the resequencing of theory \<open>Reseq\<close>. A cell is encoded when it leaves its leg and
  parsed by the receiving reactor, so the receiver works on bytes. The sender's round-trip
  times and congestion windows change at any time.
\<close>

section \<open>The receiver\<close>

definition set_handler :: "nat \<Rightarrow> conflux_handler \<Rightarrow> conflux_reactor \<Rightarrow> conflux_reactor" where
  "set_handler i h r =
     r\<lparr>cr_set := (cr_set r)\<lparr>cs_legs := update_leg i (\<lambda>l. l\<lparr>leg_handler := Some h\<rparr>) (cs_legs (cr_set r))\<rparr>\<rparr>"

lemma set_handler_fields [simp]:
  "cr_ooo (set_handler i h r) = cr_ooo r" "cr_delivered (set_handler i h r) = cr_delivered r"
  "cs_last_seq_delivered (cr_set (set_handler i h r)) = cs_last_seq_delivered (cr_set r)"
  by (simp_all add: set_handler_def)

lemma cs_leg_set_handler:
  "cs_leg (cr_set (set_handler i h r)) j =
     (if j = i then map_option (\<lambda>l. l\<lparr>leg_handler := Some h\<rparr>) (cs_leg (cr_set r) i) else cs_leg (cr_set r) j)"
  by (simp add: set_handler_def cs_leg_def find_update_leg)

definition leg_linked :: "HopNum \<Rightarrow> u32 \<Rightarrow> leg \<Rightarrow> bool" where
  "leg_linked jp c l \<longleftrightarrow>
     jp < length (leg_path l) \<and>
     (case leg_handler l of
        None \<Rightarrow> False
      | Some h \<Rightarrow> ch_state h = CsLinked \<and> ch_join_point h = jp \<and> cwnd_init (ch_cwnd_params h) = c \<and>
          ch_cells_since_switch h \<le> ch_last_seq_recv h)"

definition receiver_ok :: "nat set \<Rightarrow> HopNum \<Rightarrow> u32 \<Rightarrow> conflux_reactor \<Rightarrow> bool" where
  "receiver_ok I jp c r \<longleftrightarrow> (\<forall>i\<in>I. \<exists>l. cs_leg (cr_set r) i = Some l \<and> leg_linked jp c l)"

definition seq_recv :: "conflux_reactor \<Rightarrow> nat \<Rightarrow> nat" where
  "seq_recv r i = (case handlers (cr_set r) i of Some h \<Rightarrow> unat (ch_last_seq_recv h) | None \<Rightarrow> 0)"

definition awaiting :: "conflux_reactor \<Rightarrow> nat \<Rightarrow> bool" where
  "awaiting r i =
     (case handlers (cr_set r) i of
        Some h \<Rightarrow> ch_have_seen_switch h \<and> ch_cells_since_switch h = 0
      | None \<Rightarrow> False)"

lemma handlers_set_handler:
  "handlers (cr_set (set_handler i h r)) j =
     (if j = i \<and> cs_leg (cr_set r) i \<noteq> None then Some h else handlers (cr_set r) j)"
  by (auto simp: handlers_def cs_leg_set_handler split: option.split)

lemma seq_recv_set_handler:
  "cs_leg (cr_set r) i \<noteq> None \<Longrightarrow>
     seq_recv (set_handler i h r) = (seq_recv r)(i := unat (ch_last_seq_recv h)) \<and>
     awaiting (set_handler i h r) = (awaiting r)(i := ch_have_seen_switch h \<and> ch_cells_since_switch h = 0)"
  by (auto simp: seq_recv_def awaiting_def handlers_set_handler fun_eq_iff)

lemma receiver_ok_set_handler:
  assumes "receiver_ok I jp c r" "i \<in> I" "handlers (cr_set r) i = Some h"
    and "ch_state h' = CsLinked" "ch_join_point h' = ch_join_point h" "ch_cwnd_params h' = ch_cwnd_params h"
    and "ch_cells_since_switch h' \<le> ch_last_seq_recv h'"
  shows "receiver_ok I jp c (set_handler i h' r)"
  unfolding receiver_ok_def
proof
  fix j
  assume "j \<in> I"
  then obtain l where l: "cs_leg (cr_set r) j = Some l" "leg_linked jp c l"
    using assms(1) by (auto simp: receiver_ok_def)
  show "\<exists>l. cs_leg (cr_set (set_handler i h' r)) j = Some l \<and> leg_linked jp c l"
  proof (cases "j = i")
    case True
    then have "leg_handler l = Some h" using assms(3) l(1) by (simp add: handlers_def)
    then have "leg_linked jp c (l\<lparr>leg_handler := Some h'\<rparr>)"
      using l(2) assms(4-7) by (simp add: leg_linked_def)
    then show ?thesis using True l(1) by (simp add: cs_leg_set_handler)
  qed (use l in \<open>simp add: cs_leg_set_handler\<close>)
qed

text \<open>What the reactor does with the two kinds of messages that arrive on a linked leg.\<close>

lemma handle_switch:
  assumes r: "receiver_ok I jp c r" "i \<in> I" and h: "handlers (cr_set r) i = Some h"
    and u: "unparsed_cmd u = RC_CONFLUX_SWITCH" "unparsed_stream_id u = None"
      "unparsed_decode u = Inr \<lparr>ro_streamid = None, ro_msg = RConfluxSwitch n\<rparr>"
    and ok: "\<not> awaiting r i" "n \<noteq> 0" "cs_last_seq_delivered (cr_set r) = 0 \<Longrightarrow> n \<le> c"
  shows "handle_relay_msg now i jp counts u r =
    (Inr (), set_handler i (h\<lparr>ch_last_seq_recv := ch_last_seq_recv h + ucast n,
       ch_have_seen_switch := True, ch_cells_since_switch := 0\<rparr>) r)"
proof -
  obtain l where l: "cs_leg (cr_set r) i = Some l" "leg_handler l = Some h" "leg_linked jp c l"
    using r h by (auto simp: receiver_ok_def handlers_def)
  have "msg_streamid u = Inr None"
    by (simp add: msg_streamid_def u(1,2) accepts_streamid_val_def expects_streamid_def)
  moreover have "\<not> (ch_have_seen_switch h \<and> ch_cells_since_switch h = 0)"
    using ok(1) h by (simp add: awaiting_def)
  ultimately show ?thesis
    using l u ok
    by (auto simp: handle_relay_msg_def handle_conflux_meta_def is_conflux_cmd_def handle_conflux_msg_def
        ebind_def validate_source_hop_def handler_handle_msg_def handle_conflux_switch_def Let_def
        leg_linked_def decode_only_def as_conflux_switch_def validate_switch_seqno_def set_handler_def)
qed

lemma counting_cmds:
  assumes "cmd_counts_towards_seqno cmd"
  shows "cmd \<in> {RC_BEGIN, RC_DATA, RC_END, RC_CONNECTED, RC_RESOLVE, RC_RESOLVED, RC_XOFF, RC_XON}"
  using assms by (auto simp: cmd_counts_towards_seqno_def split: if_splits)

lemma msg_streamid_counting:
  assumes "cmd_counts_towards_seqno (unparsed_cmd u)" "unparsed_stream_id u = Some sid"
  shows "msg_streamid u = Inr (Some sid)"
  using counting_cmds [OF assms(1)] assms(2)
  by (auto simp: msg_streamid_def accepts_streamid_val_def expects_streamid_def)

lemma handle_numbered:
  assumes r: "receiver_ok I jp c r" "i \<in> I" and h: "handlers (cr_set r) i = Some h"
    and u: "cmd_counts_towards_seqno (unparsed_cmd u)" "unparsed_stream_id u = Some sid"
    and le: "cs_last_seq_delivered (cr_set r) + 1 \<le> ch_last_seq_recv h + 1"
  shows "handle_relay_msg now i jp counts u r =
    (if ch_last_seq_recv h = cs_last_seq_delivered (cr_set r)
     then (Inr (), (set_handler i (inc_last_seq_recv h) r)
       \<lparr>cr_set := (cr_set (set_handler i (inc_last_seq_recv h) r))
          \<lparr>cs_last_seq_delivered := cs_last_seq_delivered (cr_set r) + 1\<rparr>,
        cr_delivered := cr_delivered r @ [(i, jp, sid, u)]\<rparr>)
     else (Inr (), (set_handler i (inc_last_seq_recv h) r)
       \<lparr>cr_ooo := ooo_push (i, \<lparr>om_seqno = ch_last_seq_recv h + 1, om_hopnum = jp, om_counts = counts,
          om_streamid = sid, om_msg = u\<rparr>) (cr_ooo r)\<rparr>))"
proof -
  obtain l where l: "cs_leg (cr_set r) i = Some l" "leg_handler l = Some h" "leg_linked jp c l"
    using r h by (auto simp: receiver_ok_def handlers_def)
  then have id: "leg_id l = i" using cs_leg_id by blast
  have "update_leg i (\<lambda>_. l\<lparr>leg_handler := Some h'\<rparr>) (cs_legs (cr_set r)) =
      update_leg i (\<lambda>l. l\<lparr>leg_handler := Some h'\<rparr>) (cs_legs (cr_set r))" for h'
    using l(1) by (intro update_leg_cong) (simp add: cs_leg_def)
  moreover have "\<not> ch_last_seq_recv h + 1 < cs_last_seq_delivered (cr_set r) + 1" using le by simp
  ultimately show ?thesis
    using l id u msg_streamid_counting [OF u]
    by (auto simp: handle_relay_msg_def action_for_msg_def Let_def is_msg_in_order_def inc_last_seq_recv_def
        handle_in_order_relay_msg_def inc_last_seq_delivered_def emap_err_def leg_linked_def
        prepare_ooo_entry_def set_handler_def)
qed

section \<open>The legs\<close>

text \<open>A cell on its way: encoded by the sender, and taken apart by the receiver's decoder.\<close>

definition to_wire :: "RelayCellFormat \<Rightarrow> (nat \<Rightarrow> byte list) \<Rightarrow> relay_msg_outer \<Rightarrow> unparsed_relay_msg option" where
  "to_wire fmt fill m =
     (case relay_encode fmt fill m of
        Inl _ \<Rightarrow> None
      | Inr body \<Rightarrow> (case from_singleton_body fmt body of Inl _ \<Rightarrow> None | Inr u \<Rightarrow> Some u))"

definition sendable :: "RelayCellFormat \<Rightarrow> (nat \<Rightarrow> byte list) \<Rightarrow> relay_msg_outer \<Rightarrow> bool" where
  "sendable fmt fill m \<longleftrightarrow>
     fills fill \<and> relay_msg_wf (ro_msg m) \<and> ro_streamid m \<noteq> Some 0 \<and>
     (\<exists>body. relay_encode fmt fill m = Inr body)"

lemma to_wire_ok:
  assumes "sendable fmt fill m"
  obtains u where "to_wire fmt fill m = Some u" "unparsed_cmd u = AnyRelayMsg_cmd (ro_msg m)"
    "unparsed_stream_id u = ro_streamid m" "unparsed_decode u = Inr m"
proof -
  obtain body where body: "relay_encode fmt fill m = Inr body" and wf: "relay_msg_wf (ro_msg m)"
    and sid: "ro_streamid m \<noteq> Some 0" and fill: "fills fill"
    using assms by (auto simp: sendable_def)
  obtain bs where bs: "AnyRelayMsg_encode_onto (ro_msg m) = (bs, Inr ())"
    using relay_msg_reads_back [OF wf] by (auto simp: reads_back_def encodes_def)
  obtain pad where pad: "body = cell_start fmt m bs @ pad"
    using relay_encode_eq(2) [OF bs fill body] by blast
  have fits: "cell_fits fmt m bs" using relay_encode_eq(1) [OF bs fill] body by blast
  obtain u where u: "from_singleton_body fmt body = Inr u"
    by (cases fmt) (simp_all add: from_singleton_body_def)
  have "unparsed_decode u = Inr m"
    using decode_cell_start [OF bs fits wf sid, of pad] pad u by (simp add: decode_singleton_def)
  with u body pad show thesis
    using that unparsed_cell_start [OF fits sid, of pad u] by (simp add: to_wire_def)
qed

lemma switch_sendable:
  assumes "fills fill"
  shows "sendable fmt fill \<lparr>ro_streamid = None, ro_msg = RConfluxSwitch w\<rparr>"
proof -
  let ?m = "\<lparr>ro_streamid = None, ro_msg = RConfluxSwitch w\<rparr>"
  have bs: "AnyRelayMsg_encode_onto (ro_msg ?m) = (to_be_bytes w, Inr ())" by (simp add: wire_simps)
  have "cell_fits fmt ?m (to_be_bytes w)"
    by (cases fmt) (simp_all add: v1_sid_ok_def v1_room_def expects_streamid_def)
  then show ?thesis using relay_encode_eq(1) [OF bs assms] assms by (simp add: sendable_def)
qed

text \<open>A message of an application: it is numbered, belongs to a stream, and fits into a cell.\<close>

definition app_msg :: "RelayCellFormat \<Rightarrow> (nat \<Rightarrow> byte list) \<Rightarrow> relay_msg_outer \<Rightarrow> bool" where
  "app_msg fmt fill m \<longleftrightarrow>
     cmd_counts_towards_seqno (AnyRelayMsg_cmd (ro_msg m)) \<and> ro_streamid m \<noteq> None \<and> sendable fmt fill m"

definition item_of :: "relay_msg_outer \<Rightarrow> relay_msg_outer item" where
  "item_of m = (case ro_msg m of RConfluxSwitch w \<Rightarrow> Switch (unat w) | _ \<Rightarrow> Payload m)"

lemma item_of_app: "app_msg fmt fill m \<Longrightarrow> item_of m = Payload m"
  by (auto simp: app_msg_def item_of_def cmd_counts_towards_seqno_def split: any_relay_msg.splits)

lemma item_of_switch [simp]: "item_of \<lparr>ro_streamid = sid, ro_msg = RConfluxSwitch w\<rparr> = Switch (unat w)"
  by (simp add: item_of_def)

section \<open>The tunnel\<close>

record conflux_net =
  cn_send :: conflux_set
  cn_recv :: conflux_reactor
  cn_wire :: "nat \<Rightarrow> relay_msg_outer list"
  cn_sent :: "relay_msg_outer list"
  cn_err :: "reactor_error option"

fun put_wire ::
    "(nat \<times> HopNum \<times> relay_msg_outer) list \<Rightarrow> (nat \<Rightarrow> relay_msg_outer list) \<Rightarrow> nat \<Rightarrow> relay_msg_outer list" where
  "put_wire [] w = w"
| "put_wire ((i, _, m) # out) w = put_wire out (w(i := w i @ [m]))"

definition note_err :: "reactor_error + 'a \<Rightarrow> conflux_net \<Rightarrow> conflux_net" where
  "note_err res n = (case res of Inl e \<Rightarrow> n\<lparr>cn_err := Some e\<rparr> | Inr _ \<Rightarrow> n)"

text \<open>An application message is sent to the join point.\<close>

definition net_send :: "HopNum \<Rightarrow> relay_msg_outer \<Rightarrow> conflux_net \<Rightarrow> conflux_net" where
  "net_send jp m n =
     (case emap_err ReactorErr (send_relay_cell_on_leg \<lparr>src_hop = Some jp, src_cell = m\<rparr> None) (cn_send n) of
        (res, s') \<Rightarrow>
          note_err res (n\<lparr>cn_send := s',
            cn_wire := put_wire (drop (length (cs_out (cn_send n))) (cs_out s')) (cn_wire n),
            cn_sent := cn_sent n @ [m]\<rparr>))"

text \<open>A cell arrives on a leg.\<close>

definition net_recv ::
    "RelayCellFormat \<Rightarrow> (nat \<Rightarrow> byte list) \<Rightarrow> HopNum \<Rightarrow> nat \<Rightarrow> nat \<Rightarrow> conflux_net \<Rightarrow> conflux_net" where
  "net_recv fmt fill jp now i n =
     (case cn_wire n i of
        [] \<Rightarrow> n
      | m # rest \<Rightarrow>
     (case to_wire fmt fill m of
        None \<Rightarrow> n\<lparr>cn_err := Some (ReactorErr (ProtoInternal ''not encodable''))\<rparr>
      | Some u \<Rightarrow>
     (case handle_relay_msg now i jp (cell_counts_towards_windows u) u (cn_recv n) of
        (res, r') \<Rightarrow> note_err res (n\<lparr>cn_recv := r', cn_wire := (cn_wire n)(i := rest)\<rparr>))))"

text \<open>The reactor empties its heap as far as it can.\<close>

definition net_dequeue :: "conflux_net \<Rightarrow> conflux_net" where
  "net_dequeue n =
     (case emap_err ReactorErr try_dequeue_ooo_msgs (cn_recv n) of
        (res, r') \<Rightarrow> note_err res (n\<lparr>cn_recv := r'\<rparr>))"

text \<open>The congestion control of a leg of the sender changes its mind.\<close>

definition net_cc :: "nat \<Rightarrow> u32 option \<Rightarrow> bool \<Rightarrow> conflux_net \<Rightarrow> conflux_net" where
  "net_cc i ewma can_send n =
     n\<lparr>cn_send := (cn_send n)\<lparr>cs_legs :=
         update_leg i (\<lambda>l. l\<lparr>leg_ewma_usec := ewma, leg_can_send := can_send\<rparr>) (cs_legs (cn_send n))\<rparr>\<rparr>"

text \<open>Everything that can happen. The bound on the number of messages keeps the difference a
  SWITCH carries within its 32 bits; the bound on messages sent before the receiver has
  delivered any is the sender's initial congestion window, which it may exceed only after it has
  been told of a delivery.\<close>

inductive conflux_reach ::
    "RelayCellFormat \<Rightarrow> (nat \<Rightarrow> byte list) \<Rightarrow> HopNum \<Rightarrow> u32 \<Rightarrow> conflux_net \<Rightarrow> conflux_net \<Rightarrow> bool"
  for fmt fill jp c n0 where
  reach_start: "conflux_reach fmt fill jp c n0 n0"
| reach_send: "conflux_reach fmt fill jp c n0 n \<Longrightarrow> app_msg fmt fill m \<Longrightarrow> length (cn_sent n) + 1 < 2 ^ 32 \<Longrightarrow>
    cs_last_seq_delivered (cr_set (cn_recv n)) \<noteq> 0 \<or> length (cn_sent n) \<le> unat c \<Longrightarrow>
    conflux_reach fmt fill jp c n0 (net_send jp m n)"
| reach_recv: "conflux_reach fmt fill jp c n0 n \<Longrightarrow> conflux_reach fmt fill jp c n0 (net_recv fmt fill jp now i n)"
| reach_dequeue: "conflux_reach fmt fill jp c n0 n \<Longrightarrow> conflux_reach fmt fill jp c n0 (net_dequeue n)"
| reach_cc: "conflux_reach fmt fill jp c n0 n \<Longrightarrow> conflux_reach fmt fill jp c n0 (net_cc i ewma can_send n)"

section \<open>Refinement\<close>

definition decoded :: "unparsed_relay_msg \<Rightarrow> relay_msg_outer" where
  "decoded u = (case unparsed_decode u of Inr m \<Rightarrow> m | Inl _ \<Rightarrow> switch_cell 0)"

definition heap_abs :: "nat \<times> ooo_msg \<Rightarrow> nat \<times> relay_msg_outer" where
  "heap_abs e = (unat (om_seqno (snd e)), decoded (om_msg (snd e)))"

definition abs_net :: "conflux_net \<Rightarrow> relay_msg_outer reseq" where
  "abs_net n =
     \<lparr>rq_sent = cn_sent n,
      rq_done = unat (cs_last_seq_delivered (cr_set (cn_recv n))),
      rq_snt = seq_sent (cn_send n),
      rq_rcv = seq_recv (cn_recv n),
      rq_await = awaiting (cn_recv n),
      rq_wire = (\<lambda>i. map item_of (cn_wire n i)),
      rq_heap = map heap_abs (cr_ooo (cn_recv n))\<rparr>"

definition wire_ok :: "RelayCellFormat \<Rightarrow> (nat \<Rightarrow> byte list) \<Rightarrow> u32 \<Rightarrow> u64 \<Rightarrow> relay_msg_outer \<Rightarrow> bool" where
  "wire_ok fmt fill c d m \<longleftrightarrow>
     (\<exists>w. m = \<lparr>ro_streamid = None, ro_msg = RConfluxSwitch w\<rparr> \<and> (d = 0 \<longrightarrow> w \<le> c)) \<or> app_msg fmt fill m"

definition heap_ok :: "nat set \<Rightarrow> HopNum \<Rightarrow> nat \<times> ooo_msg \<Rightarrow> bool" where
  "heap_ok I jp e \<longleftrightarrow>
     fst e \<in> I \<and> om_hopnum (snd e) = jp \<and> cmd_counts_towards_seqno (unparsed_cmd (om_msg (snd e))) \<and>
     unparsed_decode (om_msg (snd e)) = Inr (decoded (om_msg (snd e)))"

definition delivered_msgs :: "conflux_net \<Rightarrow> (bytes_error + relay_msg_outer) list" where
  "delivered_msgs n = map (\<lambda>(_, _, _, u). unparsed_decode u) (cr_delivered (cn_recv n))"

definition net_inv ::
    "nat list \<Rightarrow> RelayCellFormat \<Rightarrow> (nat \<Rightarrow> byte list) \<Rightarrow> HopNum \<Rightarrow> u32 \<Rightarrow> conflux_net \<Rightarrow> bool" where
  "net_inv ids fmt fill jp c n \<longleftrightarrow>
     fills fill \<and> cn_err n = None \<and> length (cn_sent n) < 2 ^ 32 \<and>
     sender_ok ids jp (length (cn_sent n)) (cn_send n) \<and> receiver_ok (set ids) jp c (cn_recv n) \<and>
     reseq_inv (set ids) (abs_net n) \<and>
     (\<forall>i. i \<notin> set ids \<longrightarrow> cn_wire n i = []) \<and>
     (\<forall>i. list_all (wire_ok fmt fill c (cs_last_seq_delivered (cr_set (cn_recv n)))) (cn_wire n i)) \<and>
     list_all (heap_ok (set ids) jp) (cr_ooo (cn_recv n)) \<and>
     delivered_msgs n =
       map Inr (take (unat (cs_last_seq_delivered (cr_set (cn_recv n)))) (cn_sent n))"

lemma abs_net_sels [simp]:
  "rq_sent (abs_net n) = cn_sent n" "rq_done (abs_net n) = unat (cs_last_seq_delivered (cr_set (cn_recv n)))"
  "rq_snt (abs_net n) = seq_sent (cn_send n)" "rq_rcv (abs_net n) = seq_recv (cn_recv n)"
  "rq_await (abs_net n) = awaiting (cn_recv n)" "rq_wire (abs_net n) i = map item_of (cn_wire n i)"
  "rq_heap (abs_net n) = map heap_abs (cr_ooo (cn_recv n))"
  by (simp_all add: abs_net_def)

lemma sender_seq_le: "sender_ok ids jp n s \<Longrightarrow> seq_sent s i \<le> n"
  by (cases "i = cs_primary_id s") (auto simp: sender_ok_def less_imp_le split: if_splits)

lemma put_wire_emitted:
  "put_wire (emitted q jp gap @ [(q, jp, m)]) w =
     w(q := w q @ (if gap = 0 then [] else [switch_cell gap]) @ [m])"
  by (simp add: emitted_def fun_eq_iff)

lemma net_send_inv:
  assumes inv: "net_inv ids fmt fill jp c n" and m: "app_msg fmt fill m"
    and len: "length (cn_sent n) + 1 < 2 ^ 32"
    and win: "cs_last_seq_delivered (cr_set (cn_recv n)) \<noteq> 0 \<or> length (cn_sent n) \<le> unat c"
  shows "net_inv ids fmt fill jp c (net_send jp m n)"
proof -
  let ?N = "length (cn_sent n)" and ?s = "cn_send n"
  have sok: "sender_ok ids jp ?N ?s" using inv by (simp add: net_inv_def)
  have "cmd_counts_towards_seqno (AnyRelayMsg_cmd (ro_msg m))" using m by (simp add: app_msg_def)
  then obtain q s' where q: "q \<in> set ids" "seq_sent ?s q \<le> ?N"
    and send: "send_relay_cell_on_leg \<lparr>src_hop = Some jp, src_cell = m\<rparr> None ?s = (Inr (), s')"
    and s': "cs_out s' = cs_out ?s @ emitted q jp (?N - seq_sent ?s q) @ [(q, jp, m)]"
      "seq_sent s' = (seq_sent ?s)(q := ?N + 1)" "sender_ok ids jp (?N + 1) s'"
    using send_ok [OF sok] len by (metis add_lessD1)
  let ?gap = "?N - seq_sent ?s q"
  let ?new = "(if ?gap = 0 then [] else [switch_cell ?gap]) @ [m]"
  have n': "net_send jp m n = n\<lparr>cn_send := s', cn_wire := (cn_wire n)(q := cn_wire n q @ ?new),
      cn_sent := cn_sent n @ [m]\<rparr>"
    using send s'(1) by (simp add: net_send_def emap_err_def note_err_def put_wire_emitted)
  have gap: "unat (word_of_nat ?gap :: u32) = ?gap" using len by (simp add: unat_of_nat)
  have sw: "item_of (switch_cell ?gap) = Switch ?gap"
    unfolding switch_cell_def item_of_switch gap ..
  have "abs_net (net_send jp m n) = reseq_send q m (abs_net n)"
    using s'(2) sw item_of_app [OF m]
    by (simp add: n' abs_net_def reseq_send_def Let_def fun_eq_iff)
  moreover have "reseq_inv (set ids) (reseq_send q m (abs_net n))"
    using inv q by (intro reseq_send_inv) (auto simp: net_inv_def)
  moreover have "wire_ok fmt fill c (cs_last_seq_delivered (cr_set (cn_recv n))) (switch_cell ?gap)"
    using win gap by (auto simp: wire_ok_def switch_cell_def word_le_nat_alt)
  then have "list_all (wire_ok fmt fill c (cs_last_seq_delivered (cr_set (cn_recv n)))) ?new"
    using m by (simp add: wire_ok_def)
  moreover have "take (unat (cs_last_seq_delivered (cr_set (cn_recv n)))) (cn_sent n @ [m]) =
      take (unat (cs_last_seq_delivered (cr_set (cn_recv n)))) (cn_sent n)"
    using inv by (simp add: net_inv_def reseq_inv_def)
  ultimately show ?thesis
    using inv q(1) s'(3) len by (auto simp: net_inv_def n' delivered_msgs_def)
qed

lemma net_cc_inv:
  assumes "net_inv ids fmt fill jp c n"
  shows "net_inv ids fmt fill jp c (net_cc i ewma can_send n)"
proof -
  let ?f = "\<lambda>l. l\<lparr>leg_ewma_usec := ewma, leg_can_send := can_send\<rparr>"
  let ?s = "cn_send (net_cc i ewma can_send n)"
  have h: "handlers ?s = handlers (cn_send n)"
    by (simp add: net_cc_def handlers_def cs_leg_def find_update_leg fun_eq_iff split: option.split)
  then have seq: "seq_sent ?s = seq_sent (cn_send n)" by (simp add: seq_sent_def fun_eq_iff)
  have "list_all (leg_ready jp) ls \<Longrightarrow> list_all (leg_ready jp) (update_leg i ?f ls)" for ls
    by (induction ls) (auto simp: leg_ready_def leg_init_rtt_def is_conflux_pending_def conflux_status_def)
  then have "sender_ok ids jp (length (cn_sent n)) ?s"
    using assms seq by (auto simp: net_inv_def sender_ok_def net_cc_def ids_update_leg)
  moreover have "abs_net (net_cc i ewma can_send n) = abs_net n"
    using seq by (simp add: abs_net_def net_cc_def)
  ultimately show ?thesis
    using assms by (simp add: net_inv_def delivered_msgs_def net_cc_def)
qed

text \<open>Arrivals.\<close>

lemma abs_heap_push:
  "map heap_abs (ooo_push e heap) = insort_key fst (heap_abs e) (map heap_abs heap)"
  by (induction heap) (auto simp: ooo_push_def heap_abs_def word_le_nat_alt)

lemma set_ooo_push: "set (ooo_push e heap) = insert e (set heap)"
  by (simp add: ooo_push_def set_insort_key)

lemma unat_ucast_u32: "unat (ucast (w :: u32) :: u64) = unat w"
  using unat_lt2p [of w] by (simp add: unsigned_ucast_eq take_bit_nat_eq_self)

lemma unat_plus1: "unat (x :: u64) < 2 ^ 32 \<Longrightarrow> unat (x + 1) = unat x + 1"
  by (subst unat_add_lem [THEN iffD1]) simp_all

lemma recv_leg:
  assumes "net_inv ids fmt fill jp c n" "cn_wire n i = m # rest"
  obtains h where "i \<in> set ids" "handlers (cr_set (cn_recv n)) i = Some h" "cs_leg (cr_set (cn_recv n)) i \<noteq> None"
    "seq_recv (cn_recv n) i = unat (ch_last_seq_recv h)" "ch_state h = CsLinked"
    "ch_cells_since_switch h \<le> ch_last_seq_recv h"
proof -
  have i: "i \<in> set ids" using assms by (auto simp: net_inv_def)
  then obtain l where l: "cs_leg (cr_set (cn_recv n)) i = Some l" "leg_linked jp c l"
    using assms(1) by (auto simp: net_inv_def receiver_ok_def)
  then obtain h where "leg_handler l = Some h" "ch_state h = CsLinked" "ch_cells_since_switch h \<le> ch_last_seq_recv h"
    by (auto simp: leg_linked_def split: option.splits)
  with i l show thesis using that by (simp add: seq_recv_def handlers_def)
qed

lemma recv_switch_inv:
  assumes inv: "net_inv ids fmt fill jp c n" and wire: "cn_wire n i = m # rest"
    and m: "m = \<lparr>ro_streamid = None, ro_msg = RConfluxSwitch w\<rparr>"
  shows "net_inv ids fmt fill jp c (net_recv fmt fill jp now i n)"
proof -
  let ?r = "cn_recv n"
  obtain h where h: "i \<in> set ids" "handlers (cr_set ?r) i = Some h" "cs_leg (cr_set ?r) i \<noteq> None"
      "seq_recv ?r i = unat (ch_last_seq_recv h)" "ch_state h = CsLinked"
    by (rule recv_leg [OF inv wire])
  have rq: "reseq_inv (set ids) (abs_net n)" and rok: "receiver_ok (set ids) jp c ?r"
    and N: "length (cn_sent n) < 2 ^ 32" "sender_ok ids jp (length (cn_sent n)) (cn_send n)"
    and fill: "fills fill" and wok: "cs_last_seq_delivered (cr_set ?r) = 0 \<Longrightarrow> w \<le> c"
    using inv wire m by (auto simp: net_inv_def wire_ok_def app_msg_def dest!: spec [of _ i]
        simp: cmd_counts_towards_seqno_def)
  have "rq_wire (abs_net n) i = Switch (unat w) # map item_of rest" using wire m by simp
  note sw = reseq_switch_inv [OF rq h(1) this]
  obtain u where u: "to_wire fmt fill m = Some u" "unparsed_cmd u = RC_CONFLUX_SWITCH"
      "unparsed_stream_id u = None" "unparsed_decode u = Inr m"
    using to_wire_ok [OF switch_sendable [OF fill, of fmt w]] m by auto
  let ?h = "h\<lparr>ch_last_seq_recv := ch_last_seq_recv h + ucast w, ch_have_seen_switch := True,
      ch_cells_since_switch := 0\<rparr>"
  have "w \<noteq> 0" using sw(2) by auto
  then have "handle_relay_msg now i jp (cell_counts_towards_windows u) u ?r = (Inr (), set_handler i ?h ?r)"
    using handle_switch [OF rok h(1,2) u(2,3)] u(4) m sw(3) wok by simp
  then have n': "net_recv fmt fill jp now i n =
      n\<lparr>cn_recv := set_handler i ?h ?r, cn_wire := (cn_wire n)(i := rest)\<rparr>"
    using wire u(1) by (simp add: net_recv_def note_err_def)
  have "unat (ch_last_seq_recv h) + unat w \<le> length (cn_sent n)"
    using sw(4) sender_seq_le [OF N(2), of i] h(4) by simp
  then have "unat (ch_last_seq_recv h + ucast w) = unat (ch_last_seq_recv h) + unat w"
    using N(1) by (subst unat_add_lem [THEN iffD1]) (simp_all add: unat_ucast_u32)
  then have "abs_net (net_recv fmt fill jp now i n) = reseq_switch i (unat w) (map item_of rest) (abs_net n)"
    using seq_recv_set_handler [OF h(3), of ?h] h(4)
    by (simp add: n' abs_net_def reseq_switch_def fun_eq_iff)
  moreover have "receiver_ok (set ids) jp c (set_handler i ?h ?r)"
    by (rule receiver_ok_set_handler [OF rok h(1,2)]) (simp_all add: h(5))
  ultimately show ?thesis
    using inv sw(1) wire by (auto simp: net_inv_def n' delivered_msgs_def dest: spec [of _ i])
qed

lemma recv_msg_inv:
  assumes inv: "net_inv ids fmt fill jp c n" and wire: "cn_wire n i = m # rest" and m: "app_msg fmt fill m"
  shows "net_inv ids fmt fill jp c (net_recv fmt fill jp now i n)"
proof -
  let ?r = "cn_recv n" and ?d = "cs_last_seq_delivered (cr_set (cn_recv n))"
  obtain h where h: "i \<in> set ids" "handlers (cr_set ?r) i = Some h" "cs_leg (cr_set ?r) i \<noteq> None"
      "seq_recv ?r i = unat (ch_last_seq_recv h)" "ch_state h = CsLinked"
      "ch_cells_since_switch h \<le> ch_last_seq_recv h"
    by (rule recv_leg [OF inv wire])
  have rq: "reseq_inv (set ids) (abs_net n)" and rok: "receiver_ok (set ids) jp c ?r"
    and N: "length (cn_sent n) < 2 ^ 32"
    using inv by (auto simp: net_inv_def)
  have pw: "rq_wire (abs_net n) i = Payload m # map item_of rest" using wire item_of_app [OF m] by simp
  note f = reseq_take_facts [OF rq h(1) pw]
  obtain u sid where u: "to_wire fmt fill m = Some u" "cmd_counts_towards_seqno (unparsed_cmd u)"
      "unparsed_stream_id u = Some sid" "unparsed_decode u = Inr m"
  proof -
    obtain sid where "ro_streamid m = Some sid" "sendable fmt fill m"
      "cmd_counts_towards_seqno (AnyRelayMsg_cmd (ro_msg m))"
      using m by (auto simp: app_msg_def)
    then show ?thesis by (elim to_wire_ok) (use that in metis)
  qed
  let ?h = "inc_last_seq_recv h"
  have b: "unat (ch_last_seq_recv h) < 2 ^ 32" "unat ?d < 2 ^ 32" using f(1,2) h(4) N by simp_all
  have R: "unat (ch_last_seq_recv h + 1) = seq_recv ?r i + 1" "unat (?d + 1) = unat ?d + 1"
    using unat_plus1 [OF b(1)] unat_plus1 [OF b(2)] h(4) by simp_all
  have cells: "unat (ch_cells_since_switch h + 1) = unat (ch_cells_since_switch h) + 1"
    using h(6) f(2) h(4) N by (intro unat_plus1) (simp add: word_le_nat_alt)
  have rok': "receiver_ok (set ids) jp c (set_handler i ?h ?r)"
    using h(6) R(1) cells h(4)
    by (intro receiver_ok_set_handler [OF rok h(1,2)]) (simp_all add: h(5) inc_last_seq_recv_def word_le_nat_alt)
  have "ch_cells_since_switch h + 1 \<noteq> 0" using cells by (metis add_is_0 one_neq_zero unat_0)
  then have sr: "seq_recv (set_handler i ?h ?r) = (seq_recv ?r)(i := seq_recv ?r i + 1)"
      "awaiting (set_handler i ?h ?r) = (awaiting ?r)(i := False)"
    using seq_recv_set_handler [OF h(3), of ?h] R(1) by (simp_all add: inc_last_seq_recv_def)
  have le: "?d + 1 \<le> ch_last_seq_recv h + 1" using f(1) R by (simp add: word_le_nat_alt)
  note hm = handle_numbered [OF rok h(1,2) u(2,3) le, of now "cell_counts_towards_windows u"]
  have wok: "list_all (wire_ok fmt fill c ?d) rest" using inv wire by (auto simp: net_inv_def dest: spec [of _ i])
  show ?thesis
  proof (cases "ch_last_seq_recv h = ?d")
    case True
    define r' where "r' = (set_handler i ?h ?r)
       \<lparr>cr_set := (cr_set (set_handler i ?h ?r))\<lparr>cs_last_seq_delivered := ?d + 1\<rparr>,
        cr_delivered := cr_delivered ?r @ [(i, jp, sid, u)]\<rparr>"
    have n': "net_recv fmt fill jp now i n = n\<lparr>cn_recv := r', cn_wire := (cn_wire n)(i := rest)\<rparr>"
      using wire u(1) hm True by (simp add: net_recv_def note_err_def r'_def)
    have hs: "handlers (cr_set r') = handlers (cr_set (set_handler i ?h ?r))"
      by (simp add: r'_def handlers_def cs_leg_def fun_eq_iff)
    then have sr': "seq_recv r' = (seq_recv ?r)(i := seq_recv ?r i + 1)" "awaiting r' = (awaiting ?r)(i := False)"
      using sr by (simp_all add: seq_recv_def awaiting_def fun_eq_iff)
    have "abs_net (net_recv fmt fill jp now i n) = reseq_deliver i (map item_of rest) (abs_net n)"
      using sr' R(2) by (simp add: n' abs_net_def reseq_deliver_def reseq_take_def fun_eq_iff r'_def)
    moreover have "reseq_inv (set ids) (reseq_deliver i (map item_of rest) (abs_net n))"
      using True h(4) by (intro reseq_deliver_inv [OF rq h(1) pw]) simp
    moreover have "receiver_ok (set ids) jp c r'"
      using rok' by (simp add: receiver_ok_def r'_def cs_leg_def)
    moreover have "?d + 1 \<noteq> 0" using R(2) by (metis add_is_0 one_neq_zero unat_0)
    then have "wire_ok fmt fill c ?d x \<Longrightarrow> wire_ok fmt fill c (?d + 1) x" for x by (auto simp: wire_ok_def)
    then have "list_all (wire_ok fmt fill c (?d + 1)) xs" if "list_all (wire_ok fmt fill c ?d) xs" for xs
      using that by (simp add: list_all_iff)
    moreover have "take (unat (?d + 1)) (cn_sent n) = take (unat ?d) (cn_sent n) @ [m]"
      using f(2,3) True h(4) R(2) by (simp add: take_Suc_conv_app_nth)
    ultimately show ?thesis
      using inv wok u(4) h(1) by (auto simp: net_inv_def n' delivered_msgs_def r'_def)
  next
    case False
    define e where "e = (i, \<lparr>om_seqno = ch_last_seq_recv h + 1, om_hopnum = jp,
        om_counts = cell_counts_towards_windows u, om_streamid = sid, om_msg = u\<rparr>)"
    define r' where "r' = (set_handler i ?h ?r)\<lparr>cr_ooo := ooo_push e (cr_ooo ?r)\<rparr>"
    have n': "net_recv fmt fill jp now i n = n\<lparr>cn_recv := r', cn_wire := (cn_wire n)(i := rest)\<rparr>"
      using wire u(1) hm False by (simp add: net_recv_def note_err_def r'_def e_def)
    have "heap_abs e = (seq_recv ?r i + 1, m)" using R(1) u(4) by (simp add: e_def heap_abs_def decoded_def)
    then have "abs_net (net_recv fmt fill jp now i n) = reseq_enqueue i m (map item_of rest) (abs_net n)"
      using sr by (simp add: n' abs_net_def reseq_enqueue_def reseq_take_def fun_eq_iff r'_def abs_heap_push
          seq_recv_def awaiting_def)
    moreover have "receiver_ok (set ids) jp c r'" using rok' by (simp add: receiver_ok_def r'_def)
    moreover have "heap_ok (set ids) jp e" using h(1) u by (simp add: heap_ok_def e_def decoded_def)
    ultimately show ?thesis
      using inv wok h(1) reseq_enqueue_inv [OF rq h(1) pw]
      by (auto simp: net_inv_def n' delivered_msgs_def r'_def list_all_iff set_ooo_push)
  qed
qed

lemma net_recv_inv:
  assumes "net_inv ids fmt fill jp c n"
  shows "net_inv ids fmt fill jp c (net_recv fmt fill jp now i n)"
proof (cases "cn_wire n i")
  case Nil
  then show ?thesis using assms by (simp add: net_recv_def)
next
  case (Cons m rest)
  then have "wire_ok fmt fill c (cs_last_seq_delivered (cr_set (cn_recv n))) m"
    using assms by (auto simp: net_inv_def dest: spec [of _ i])
  then show ?thesis
    using recv_switch_inv [OF assms Cons] recv_msg_inv [OF assms Cons] by (auto simp: wire_ok_def)
qed

text \<open>The reactor's loop over its heap: it fails on none of its entries, and stops only when the
  next message is not in the heap.\<close>

lemma dequeue_head:
  assumes inv: "net_inv ids fmt fill jp c n" and heap: "cr_ooo (cn_recv n) = (i, om) # rest"
    and next_no: "om_seqno om = cs_last_seq_delivered (cr_set (cn_recv n)) + 1"
  obtains r' where "net_inv ids fmt fill jp c (n\<lparr>cn_recv := r'\<rparr>)" "cr_ooo r' = rest"
    "net_dequeue n = net_dequeue (n\<lparr>cn_recv := r'\<rparr>)"
proof -
  let ?r = "cn_recv n" and ?d = "cs_last_seq_delivered (cr_set (cn_recv n))"
  have rq: "reseq_inv (set ids) (abs_net n)" and rok: "receiver_ok (set ids) jp c ?r"
    and hok: "heap_ok (set ids) jp (i, om)" and N: "length (cn_sent n) < 2 ^ 32"
    and dlv: "delivered_msgs n = map Inr (take (unat ?d) (cn_sent n))"
    using inv heap by (auto simp: net_inv_def)
  obtain l where l: "cs_leg (cr_set ?r) i = Some l" "leg_linked jp c l"
    using rok hok by (auto simp: receiver_ok_def heap_ok_def)
  obtain h where h: "leg_handler l = Some h" "jp < length (leg_path l)"
    using l(2) by (auto simp: leg_linked_def split: option.splits)
  have done_le: "unat ?d \<le> length (cn_sent n)" using rq by (simp add: reseq_inv_def)
  then have R: "unat (?d + 1) = Suc (unat ?d)" using unat_plus1 [of ?d] N by simp
  then have head: "rq_heap (abs_net n) = (Suc (rq_done (abs_net n)), decoded (om_msg om)) # map heap_abs rest"
    using heap next_no by (simp add: heap_abs_def)
  note f = reseq_dequeue_inv [OF rq head]
  define r' where "r' = ?r\<lparr>cr_set := (cr_set ?r)\<lparr>cs_last_seq_delivered := ?d + 1\<rparr>, cr_ooo := rest,
      cr_delivered := cr_delivered ?r @ [(i, jp, om_streamid om, om_msg om)]\<rparr>"
  let ?n = "n\<lparr>cn_recv := r'\<rparr>"
  have hs: "handlers (cr_set r') = handlers (cr_set ?r)"
    by (simp add: r'_def handlers_def cs_leg_def fun_eq_iff)
  have abs: "abs_net ?n = reseq_dequeue (map heap_abs rest) (abs_net n)"
    using hs R by (simp add: abs_net_def reseq_dequeue_def seq_recv_def awaiting_def fun_eq_iff)
      (simp add: r'_def)
  have nz: "?d + 1 \<noteq> 0" using R by (metis nat.distinct(1) unat_0)
  have "unparsed_decode (om_msg om) = Inr (cn_sent n ! unat ?d)"
    using f(2) hok by (simp add: heap_ok_def)
  then have "delivered_msgs ?n = map Inr (take (unat (?d + 1)) (cn_sent n))"
    using dlv f(3) R by (simp add: delivered_msgs_def r'_def take_Suc_conv_app_nth)
  moreover have "receiver_ok (set ids) jp c r'" using rok by (simp add: receiver_ok_def r'_def cs_leg_def)
  moreover have "list_all (wire_ok fmt fill c (?d + 1)) (cn_wire n j)" for j
  proof -
    have "list_all (wire_ok fmt fill c ?d) (cn_wire n j)" using inv by (simp add: net_inv_def)
    then show ?thesis using nz by (auto simp: list_all_iff wire_ok_def)
  qed
  ultimately have "net_inv ids fmt fill jp c ?n"
    using inv f(1) heap abs by (simp add: net_inv_def) (simp add: r'_def)
  moreover have "leg_id l = i" using l(1) cs_leg_id by blast
  then have "handle_in_order_relay_msg l (om_hopnum om) (om_streamid om) (om_msg om) (?r\<lparr>cr_ooo := rest\<rparr>) = (Inr (), r')"
    using h hok by (simp add: handle_in_order_relay_msg_def heap_ok_def inc_last_seq_delivered_def r'_def Let_def)
  then have "try_dequeue_ooo_msgs ?r = try_dequeue_ooo_msgs r'"
    using heap l(1) next_no by (subst try_dequeue_ooo_msgs.simps) (simp add: is_seqno_in_order_def)
  ultimately show thesis
    using that [of r'] by (simp add: net_dequeue_def emap_err_def r'_def)
qed

lemma net_dequeue_inv:
  assumes "net_inv ids fmt fill jp c n"
  shows "net_inv ids fmt fill jp c (net_dequeue n) \<and>
    cn_wire (net_dequeue n) = cn_wire n \<and> cn_sent (net_dequeue n) = cn_sent n \<and>
    (\<forall>e rest. cr_ooo (cn_recv (net_dequeue n)) = e # rest \<longrightarrow>
       om_seqno (snd e) \<noteq> cs_last_seq_delivered (cr_set (cn_recv (net_dequeue n))) + 1)"
  using assms
proof (induction "length (cr_ooo (cn_recv n))" arbitrary: n)
  case 0
  then show ?case by (simp add: net_dequeue_def emap_err_def note_err_def try_dequeue_ooo_msgs.simps)
next
  case (Suc k)
  then obtain i om rest where heap: "cr_ooo (cn_recv n) = (i, om) # rest" by (cases "cr_ooo (cn_recv n)") auto
  show ?case
  proof (cases "om_seqno om = cs_last_seq_delivered (cr_set (cn_recv n)) + 1")
    case False
    then have "net_dequeue n = n"
      using heap by (simp add: net_dequeue_def emap_err_def note_err_def try_dequeue_ooo_msgs.simps is_seqno_in_order_def)
    then show ?thesis using Suc.prems False heap by simp
  next
    case True
    obtain r' where r': "net_inv ids fmt fill jp c (n\<lparr>cn_recv := r'\<rparr>)" "cr_ooo r' = rest"
      "net_dequeue n = net_dequeue (n\<lparr>cn_recv := r'\<rparr>)"
      by (rule dequeue_head [OF Suc.prems heap True])
    have "k = length (cr_ooo (cn_recv (n\<lparr>cn_recv := r'\<rparr>)))" using Suc.hyps(2) heap r'(2) by simp
    from Suc.hyps(1) [OF this r'(1)] show ?thesis unfolding r'(3) by simp
  qed
qed

lemma conflux_reach_inv:
  assumes "conflux_reach fmt fill jp c n0 n" "net_inv ids fmt fill jp c n0"
  shows "net_inv ids fmt fill jp c n"
  using assms
  by (induction rule: conflux_reach.induct) (auto simp: net_recv_inv net_cc_inv net_dequeue_inv net_send_inv)

end
