(* ===== verification/Conflux_Props.thy ===== *)
theory Conflux_Props
  imports Conflux_Net
begin

text \<open>
  What a multi-path tunnel promises: its handshake, delivery in order whatever the legs do, and
  the end of the reactor's loop over its heap. Two sections show where the code falls short of
  its comments: a failed attempt to add legs, and a leg that is removed while the heap still
  holds its messages.
\<close>

section \<open>Delivery in order\<close>





definition sample_cwnd :: cwnd_params where
  "sample_cwnd = \<lparr>cwnd_init = 124, cwnd_inc_pct_ss = 100, cwnd_inc = 1, cwnd_inc_rate = 31, cwnd_min = 124,
     cwnd_max = 1000, sendme_inc = 31\<rparr>"

definition sample_leg :: "nat \<Rightarrow> leg" where
  "sample_leg i =
     \<lparr>leg_id = i,
      leg_handler = Some ((conflux_handler_new 2 [] sample_cwnd)
        \<lparr>ch_state := CsLinked, ch_init_rtt := Some (10 + i), ch_link_sent := Some 0\<rparr>),
      leg_path = [HopRelay (10 * i), HopRelay (10 * i + 1), HopRelay 99], leg_has_streams = False,
      leg_is_vegas = True, leg_ewma_usec = None, leg_can_send = True, leg_inflight = Some 0,
      leg_cwnd = Some sample_cwnd\<rparr>"

definition sample_set :: "nat list \<Rightarrow> conflux_set" where
  "sample_set ids =
     (ConfluxSet_new [] (sample_leg 0))\<lparr>cs_legs := map sample_leg ids, cs_join_point := Some (2, HopRelay 99)\<rparr>"

definition sample_reactor :: "nat list \<Rightarrow> conflux_reactor" where
  "sample_reactor ids =
     \<lparr>cr_set = sample_set ids, cr_ooo = [], cr_delivered = [], cr_hs = None, cr_answers = []\<rparr>"







lemma cn_sent_net_send [simp]: "cn_sent (net_send jp m n) = cn_sent n @ [m]"
  by (simp add: net_send_def note_err_def split: prod.split sum.split)




lemma cn_sent_net_recv [simp]: "cn_sent (net_recv fmt fill jp now i n) = cn_sent n"
  by (simp add: net_recv_def note_err_def split: prod.split sum.split list.split option.split)



section \<open>The handshake\<close>

text \<open>C32. What a message of conflux does to the leg it arrives on. Only three things can happen. A
  LINKED from the join point with the nonce of the LINK that was sent completes the handshake of
  a leg that waits for it, once, and is answered with a LINKED_ACK. A SWITCH from the join point
  moves the number of a linked leg forward by what it says, which is not 0. Everything else
  leaves the leg as it was and removes it from the tunnel.\<close>

theorem conflux_msg_outcomes:
  "case handle_conflux_msg now d msg hop h of
     (None, h') \<Rightarrow>
       hop = ch_join_point h \<and> ch_state h = CsLinked \<and> unparsed_cmd msg = RC_CONFLUX_SWITCH \<and>
       (\<exists>sid n. unparsed_decode msg = Inr \<lparr>ro_streamid = sid, ro_msg = RConfluxSwitch n\<rparr> \<and> n \<noteq> 0 \<and>
          h' = h\<lparr>ch_last_seq_recv := ch_last_seq_recv h + ucast n, ch_have_seen_switch := True,
                 ch_cells_since_switch := 0\<rparr>)
   | (Some (HandshakeComplete hop' early cell), h') \<Rightarrow>
       hop = ch_join_point h \<and> hop' = hop \<and> \<not> early \<and> ro_msg cell = RConfluxLinkedAck \<and>
       unparsed_cmd msg = RC_CONFLUX_LINKED \<and>
       (\<exists>sid linked rtt. unparsed_decode msg = Inr \<lparr>ro_streamid = sid, ro_msg = RConfluxLinked linked\<rparr> \<and>
          ch_state h = CsAwaitingLink (lp_nonce (cl_payload linked)) \<and> ch_link_sent h \<noteq> None \<and>
          h' = h\<lparr>ch_state := CsLinked, ch_init_rtt := Some rtt\<rparr>)
   | (Some (RemoveLeg reason), h') \<Rightarrow> h' = h \<and> (\<exists>e. reason = ConfluxHandshakeErr e)"
proof -
  have sw: "\<exists>sid. m = \<lparr>ro_streamid = sid, ro_msg = RConfluxSwitch n\<rparr>" if "as_conflux_switch (ro_msg m) = Some n" for m n
    using that by (cases m) (auto simp: as_conflux_switch_def split: any_relay_msg.splits)
  have ld: "\<exists>sid. m = \<lparr>ro_streamid = sid, ro_msg = RConfluxLinked l\<rparr>" if "as_conflux_linked (ro_msg m) = Some l" for m l
    using that by (cases m) (auto simp: as_conflux_linked_def split: any_relay_msg.splits)
  show ?thesis
    by (auto simp: handle_conflux_msg_def ebind_def validate_source_hop_def handler_handle_msg_def Let_def
        handle_conflux_link_def handle_conflux_linked_def handle_conflux_linked_ack_def handle_conflux_switch_def
        validate_switch_seqno_def decode_only_def efail_def
        split: if_splits option.splits ConfluxState.splits sum.splits dest!: sw ld)
qed

section \<open>The loop over the heap\<close>






section \<open>Adding legs\<close>

text \<open>Adding legs to a tunnel that has several takes the join point away when one of the new
  legs is refused: the set has lost its join point. From then on it never moves to
  another leg, and another LINK fails; before the call it could do both.\<close>

theorem add_legs_failure_loses_join_point:
  assumes "cs_join_point s = Some jp" "legs \<noteq> []" "all_legs_valid jp legs = Inl e"
  shows "add_legs legs s = (Inl e, s\<lparr>cs_join_point := None\<rparr>) \<and>
    primary_join_point (snd (add_legs legs s)) = None \<and>
    maybe_update_primary_leg (snd (add_legs legs s)) = (Inr None, snd (add_legs legs s)) \<and>
    (\<forall>now. fst (link_circuits now (snd (add_legs legs s))) =
       Inl (ProtoInternal ''no join point when trying to send LINK''))"
  using assms
  by (simp add: add_legs_def choose_join_point_def primary_join_point_def maybe_update_primary_leg_def
      link_circuits_def)

theorem add_legs_failure_loses_join_point_witness:
  "cs_join_point (snd (add_legs [sample_leg 2] (sample_set [0, 1]))) = None \<and>
   cs_join_point (sample_set [0, 1]) = Some (2, HopRelay 99)"
proof -
  have "all_legs_valid (2, HopRelay 99) [sample_leg 2] =
      Inl (ProtoBadApiUsage ''one more more conflux circuits are invalid'')"
    by (simp add: sample_leg_def leg_is_valid_def hops_eq_def conflux_status_def)
  moreover have jp: "cs_join_point (sample_set [0, 1]) = Some (2, HopRelay 99)" by (simp add: sample_set_def)
  ultimately show ?thesis
    using add_legs_failure_loses_join_point [OF jp, of "[sample_leg 2]"] by simp
qed

section \<open>Removing a leg\<close>

lemma remove_first_gone:
  "distinct (map leg_id ls) \<Longrightarrow> remove_first (\<lambda>l. leg_id l = i) ls = Some (x, ls') \<Longrightarrow>
     find (\<lambda>l. leg_id l = i) ls' = None"
  by (induction ls arbitrary: ls') (auto simp: find_None_iff image_iff split: if_splits option.splits)

text \<open>C39. A leg that may be removed can still have messages in the heap, since only the numbers
  it has received and sent are compared with those of the other legs. When such a message is the
  next one, the reactor's loop ends with an internal error and the message is lost.\<close>

theorem removed_leg_breaks_dequeue:
  assumes "distinct (map leg_id (cs_legs (cr_set r)))" "with_set (conflux_remove i) r = (Inr circ, r')"
    and "cr_ooo r = (i, m) # rest" "is_seqno_in_order (cr_set r) (om_seqno m)"
  shows "try_dequeue_ooo_msgs r' =
    (Inl (ProtoInternal ''the circuit leg we just had disappeared?!''), r'\<lparr>cr_ooo := rest\<rparr>)"
proof -
  obtain ls where "remove_first (\<lambda>l. leg_id l = i) (cs_legs (cr_set r)) = Some (circ, ls)"
      "r' = r\<lparr>cr_set := (cr_set r)\<lparr>cs_legs := ls\<rparr>\<rparr>"
    using assms(2)
    by (auto simp: with_set_def conflux_remove_def ebind_def emap_err_def remove_unchecked_def remove_conflux_def
        split: option.splits prod.splits sum.splits if_splits ConfluxStatus.splits)
  then show ?thesis
    using assms(3,4) remove_first_gone [OF assms(1)]
    by (subst try_dequeue_ooo_msgs.simps) (simp add: is_seqno_in_order_def cs_leg_def)
qed

text \<open>Leg 0 has brought message 1, which has been delivered, leg 1 has brought message 3, and leg 2
  message 2.\<close>

definition sample_ooo :: "u64 \<Rightarrow> ooo_msg" where
  "sample_ooo n = \<lparr>om_seqno = n, om_hopnum = 2, om_counts = True, om_streamid = 7, om_msg = UnparsedV0 []\<rparr>"

definition received_leg :: "nat \<Rightarrow> u64 \<Rightarrow> leg" where
  "received_leg i n =
     (sample_leg i)\<lparr>leg_handler := map_option (\<lambda>h. h\<lparr>ch_last_seq_recv := n\<rparr>) (leg_handler (sample_leg i))\<rparr>"

definition sample_heap_reactor :: conflux_reactor where
  "sample_heap_reactor =
     (sample_reactor [])
       \<lparr>cr_set := (sample_set [])\<lparr>cs_legs := [received_leg 0 1, received_leg 1 3, received_leg 2 2], cs_last_seq_delivered := 1\<rparr>,
        cr_ooo := [(2, sample_ooo 2), (1, sample_ooo 3)]\<rparr>"

theorem removed_leg_breaks_dequeue_witness:
  "fst (try_dequeue_ooo_msgs (snd (with_set (conflux_remove 2) sample_heap_reactor))) =
     Inl (ProtoInternal ''the circuit leg we just had disappeared?!'')"
proof -
  have ids: "map leg_id (cs_legs (cr_set sample_heap_reactor)) = [0, 1, 2]"
    by (simp add: sample_heap_reactor_def received_leg_def sample_leg_def)
  have rm: "with_set (conflux_remove 2) sample_heap_reactor =
      (Inr (received_leg 2 2), snd (with_set (conflux_remove 2) sample_heap_reactor))"
    by (simp add: sample_heap_reactor_def received_leg_def sample_leg_def sample_set_def sample_reactor_def
        with_set_def conflux_remove_def ebind_def emap_err_def remove_unchecked_def remove_conflux_def
        conflux_status_def handler_status_def leg_last_seq_recv_def leg_last_seq_sent_def max_last_seq_recv_def
        max_last_seq_sent_def max_over_legs_def List.map_filter_def join_point_hop_def ConfluxSet_new_def
        conflux_handler_new_def sample_cwnd_def word_less_nat_alt)
  have "fst (try_dequeue_ooo_msgs (snd (with_set (conflux_remove 2) sample_heap_reactor))) =
      fst (Inl (ProtoInternal ''the circuit leg we just had disappeared?!'') :: proto_error + unit,
        (snd (with_set (conflux_remove 2) sample_heap_reactor))\<lparr>cr_ooo := [(1, sample_ooo 3)]\<rparr>)"
    by (intro arg_cong [of _ _ fst] removed_leg_breaks_dequeue [OF _ rm, of "sample_ooo 2"])
      (simp_all only: ids, simp_all add: sample_heap_reactor_def is_seqno_in_order_def sample_ooo_def)
  then show ?thesis by simp
qed

end
