(* ===== verification/Conflux_Link.thy ===== *)
theory Conflux_Link
  imports Conflux_Laws ConfluxReactor
begin











end
