(* ===== verification/Spec2Isabelle.thy ===== *)
theory Spec2Isabelle
  imports ChanCodec ChanReactor_Laws RelayCell_Laws Vegas_Bounds StreamMap_Laws Tor1 Cgo
    Consdiff_Laws Protostatus Conflux_Props Conflux_Link
begin

text \<open>
  A verification library for Arti, the Tor implementation in Rust under \<open>src/crates\<close>.

  \<^bold>\<open>The program.\<close> A Tor client keeps TLS connections to relays, called channels. A channel carries
  cells; most of them belong to circuits, which pass through several relays, and hold relay
  messages that are encrypted once for each relay. Relay messages belong to streams. Circuits can
  be joined to a tunnel with several legs (conflux). Windows and congestion control bound what is
  under way. Next to this, a client reads directory documents, may update them by differences,
  and stops when the network requires protocols that it does not have.

  \<^bold>\<open>The theories,\<close> from the bytes upwards, with the files under \<open>src/crates\<close> they model.
  \<^item> \<open>Prelude\<close>: words and their bytes, and \<open>eff\<close>, the type of a function on a mutable state that may
    fail; the state is returned on both branches. \<open>Text\<close>: strings of the standard library.
  \<^item> \<open>Bytes\<close>, \<open>Codec\<close>: \<open>tor-bytes\<close>. The traits \<open>Readable\<close> and \<open>Writeable\<close> are the locales
    \<open>readable\<close>, \<open>body_readable\<close> and \<open>codec\<close>, with one interpretation for each type that has them.
  \<^item> \<open>ChanCell\<close>, \<open>ChanMsg_Laws\<close>, \<open>ChanCodec\<close>: \<open>tor-cell/src/chancell*\<close>, channel messages and their
    framing on a byte stream.
  \<^item> \<open>RelayMsg\<close>, \<open>RelayCell\<close>, \<open>RelayMsg_Laws\<close>, \<open>RelayCell_Laws\<close>: \<open>tor-cell/src/relaycell*\<close>.
  \<^item> \<open>CircMap\<close>, \<open>PaddingTimer\<close>, \<open>SinkBlocker\<close>, \<open>ChanReactor\<close>, \<open>ChanReactor_Laws\<close>: the reactor of a
    channel, \<open>tor-proto/src/channel/\<close> (\<open>circmap.rs\<close>, \<open>padding.rs\<close>, \<open>reactor.rs\<close>) and
    \<open>util/sink_blocker.rs\<close>. A round of \<open>run_once\<close> is \<open>chan_run_once\<close>, and \<open>chan_run\<close> is the relation of
    the states that rounds and clients reach. The trait \<open>Policy\<close> is the locale \<open>sink_policy\<close>.
  \<^item> \<open>RelayCrypto\<close>, \<open>Tor1\<close>, \<open>Cgo\<close>: \<open>tor-proto/src/crypto/cell*\<close>. The locale \<open>layer_pair\<close> is what the
    two ends of a layer of encryption promise each other; both kinds of encryption in both
    directions are interpretations.
  \<^item> \<open>Sendme\<close>, \<open>Congestion\<close>, \<open>Vegas\<close>, \<open>Congestion_Laws\<close>, \<open>Congestion_EndToEnd\<close>, \<open>Vegas_Bounds\<close>:
    \<open>tor-proto/src/congestion*\<close>. The locales \<open>sendme_window\<close>, \<open>cc_contract\<close> and \<open>cc_receiver\<close> are the
    contracts of windows and of congestion control algorithms.
  \<^item> \<open>StreamFlow\<close>, \<open>PollSet\<close>, \<open>StreamMap\<close>, \<open>StreamMap_Laws\<close>: the streams of a hop,
    \<open>tor-proto/src/stream/flow_ctrl\<close>, \<open>streammap*\<close> and \<open>util/stream_poll_set.rs\<close>. What the poll set
    relies on is the locale \<open>peekable_contract\<close>.
  \<^item> \<open>Conflux\<close>, \<open>ConfluxSet\<close>, \<open>ConfluxReactor\<close>, \<open>Conflux_Laws\<close>, \<open>Reseq\<close>, \<open>Conflux_Net\<close>, \<open>Conflux_Link\<close>,
    \<open>Conflux_Props\<close>: tunnels with several legs, \<open>tor-proto/src/conflux*\<close> and the parts of
    \<open>client/reactor*\<close> that concern them. \<open>Reseq\<close> is the abstract specification, which \<open>Conflux_Net\<close>
    shows the two ends to implement.
  \<^item> \<open>Protover\<close>, \<open>Protover_Laws\<close>, \<open>Protover_Text\<close>, \<open>Protover_Props\<close>, \<open>Protostatus\<close>: \<open>tor-protover\<close>,
    and the enforcement of required protocols in \<open>tor-netdoc/src/doc/netstatus.rs\<close> and
    \<open>arti-client/src/protostatus.rs\<close>. The locale \<open>version_sets\<close> is the interface of version sets.
  \<^item> \<open>Consdiff\<close>, \<open>Consdiff_Laws\<close>: \<open>tor-consdiff\<close>.

  \<^bold>\<open>What is shown.\<close>
  \<^item> Encodings: cells and messages are read back as they were written, decoders stay inside their
    buffers and do not panic, and framing does not depend on how the bytes arrive.
  \<^item> Routing: a channel gives each circuit its relay cells in order and counts its circuits; relay
    messages pass through the layers of encryption to and from any hop; the legs of a tunnel
    deliver in order, whatever legs the sender chooses.
  \<^item> Flow: windows are never violated and the ends never wait for each other; acknowledgements are
    authenticated; the congestion window stays in its bounds; streams are woken and served in turn.
  \<^item> Text: version sets agree with sets of pairs and are printed and read back; the linear algorithm
    for consensus differences agrees with the simple one.
  \<^item> Faults: the last properties of the manifest show behaviour that contradicts the comments or the
    intention of the code, each with an input that has it.

  \<^bold>\<open>Conventions.\<close> A machine integer is a word where the code can overflow or wraps, and a natural
  number where the code has a bound that excludes it. A panic is an error value, so that a
  theorem about errors covers it. Loops are functions with a termination proof; none of the models
  has fuel, except that the allocation of identifiers makes as many attempts as the code (16 on
  a channel, 65536 on a circuit). Sequence numbers of a tunnel are 64-bit words, and the theorem
  on order is for fewer than \<open>2 ^ 32\<close> messages, the width of the number in a SWITCH message. Random
  numbers, clocks, ciphers, hashes and the padding framework \<open>maybenot\<close> are parameters; what the
  code relies on is stated as a predicate on the parameter, and the witnesses instantiate it.

  \<^bold>\<open>Not modelled.\<close> Managers that build channels and circuits, guards, directory documents, onion
  services, key stores and the RPC interface: they are asynchronous code over the network, the file
  system and the documents, and their state lies in these. Handshakes: computations of
  cryptographic crates. Wakers and tasks are modelled where the code keeps them (poll sets,
  blockers); elsewhere an asynchronous function is the state change it makes when it completes.
  Messages behind the features \<open>hs\<close> and \<open>experimental-udp\<close>. Text written to the log.
\<close>

end
